(* ===== verification/Yanta_Base.thy ===== *)
theory Yanta_Base
  imports Complex_Main "HOL-Library.AList" "HOL-Library.Multiset"
begin

text \<open>
  Shared ground of the development.  The frontend of Yanta is TypeScript, so this
  theory fixes once how the values of that language are read in HOL:
  \<^item> an insertion-ordered JavaScript \<open>Map\<close> or \<open>Record\<close> is an association list with distinct keys;
    \<open>set\<close> overwrites in place and otherwise appends, \<open>delete\<close> drops the key;
  \<^item> \<open>Array.prototype.sort\<close> with a numeric difference is a stable sort by a key;
  \<^item> a value of type \<open>unknown\<close> that came out of \<open>JSON.parse\<close> is a \<open>json\<close> tree, a property
    read gives an option whose \<open>None\<close> is \<open>undefined\<close>;
  \<^item> a \<open>number\<close> that only ever counts is a \<open>nat\<close> or an \<open>int\<close>, one that may be a fraction is a \<open>rat\<close>.
  The generic lemmas are declared into the collections \<open>js_simps\<close> and \<open>js_maps\<close>.
\<close>

named_theorems js_simps \<open>rewriting of the list and option helpers\<close>
named_theorems js_maps \<open>lookups in insertion-ordered maps after an update\<close>

section \<open>Insertion-ordered maps\<close>

type_synonym ('k, 'v) jsmap = "('k \<times> 'v) list"

abbreviation map_get :: "('k, 'v) jsmap \<Rightarrow> 'k \<Rightarrow> 'v option" where
  "map_get m k \<equiv> map_of m k"

abbreviation map_set :: "'k \<Rightarrow> 'v \<Rightarrow> ('k, 'v) jsmap \<Rightarrow> ('k, 'v) jsmap" where
  "map_set k v m \<equiv> AList.update k v m"

abbreviation map_delete :: "'k \<Rightarrow> ('k, 'v) jsmap \<Rightarrow> ('k, 'v) jsmap" where
  "map_delete k m \<equiv> AList.delete k m"

definition map_has :: "('k, 'v) jsmap \<Rightarrow> 'k \<Rightarrow> bool" where
  "map_has m k \<longleftrightarrow> map_of m k \<noteq> None"

definition map_values :: "('k, 'v) jsmap \<Rightarrow> 'v list" where
  "map_values m = map snd m"

abbreviation map_keys :: "('k, 'v) jsmap \<Rightarrow> 'k list" where
  "map_keys m \<equiv> map fst m"

definition wf_map :: "('k, 'v) jsmap \<Rightarrow> bool" where
  "wf_map m \<longleftrightarrow> distinct (map fst m)"

lemma map_has_iff [js_simps]: "map_has m k \<longleftrightarrow> k \<in> fst ` set m"
  by (simp add: map_has_def map_of_eq_None_iff)

lemma wf_map_Nil [simp, intro]: "wf_map []"
  by (simp add: wf_map_def)

lemma wf_map_set [simp, intro]: "wf_map m \<Longrightarrow> wf_map (map_set k v m)"
  by (simp add: wf_map_def distinct_update)

lemma wf_map_delete [simp, intro]: "wf_map m \<Longrightarrow> wf_map (map_delete k m)"
  by (simp add: wf_map_def distinct_delete)

lemma get_set_same [js_maps]: "map_get (map_set k v m) k = Some v"
  by (simp add: update_conv')

lemma get_set_other [js_maps]: "k \<noteq> k' \<Longrightarrow> map_get (map_set k v m) k' = map_get m k'"
  by (simp add: update_conv')

lemma get_set [js_maps]: "map_get (map_set k v m) k' = (if k' = k then Some v else map_get m k')"
  by (simp add: update_conv')

lemma get_delete [js_maps]: "map_get (map_delete k m) k' = (if k' = k then None else map_get m k')"
  by (simp add: delete_conv')

lemma set_delete_eq: "set (map_delete k m) = {p \<in> set m. fst p \<noteq> k}"
  by (auto simp: AList.delete_eq)

lemma delete_absent: "\<not> map_has m k \<Longrightarrow> map_delete k m = m"
  by (simp add: map_has_iff)

lemma map_of_wf_set: "wf_map m \<Longrightarrow> map_get m k = Some v \<longleftrightarrow> (k, v) \<in> set m"
  by (simp add: wf_map_def)

lemma set_map_set_wf:
  "wf_map m \<Longrightarrow> set (map_set k v m) = insert (k, v) {p \<in> set m. fst p \<noteq> k}"
  by (induction m) (force simp: wf_map_def)+

lemma set_fresh: "k \<notin> fst ` set m \<Longrightarrow> map_set k v m = m @ [(k, v)]"
  by (induction m) auto

lemma map_of_filter_wf:
  "wf_map m \<Longrightarrow> map_of (filter P m) k =
     (case map_of m k of None \<Rightarrow> None | Some v \<Rightarrow> if P (k, v) then Some v else None)"
proof (induction m)
  case Nil
  then show ?case by simp
next
  case (Cons p m)
  have "map_of (filter P m) k = None" if "k \<notin> fst ` set m"
    using that by (auto simp: map_of_eq_None_iff)
  moreover have "map_of m k = None" if "k \<notin> fst ` set m"
    using that by (simp add: map_of_eq_None_iff)
  ultimately show ?case
    using Cons by (cases p) (auto simp: wf_map_def split: option.splits)
qed

lemma wf_map_filter [intro]: "wf_map m \<Longrightarrow> wf_map (filter P m)"
  by (induction m) (auto simp: wf_map_def)

lemma wf_map_perm: "wf_map m \<Longrightarrow> mset m' = mset m \<Longrightarrow> wf_map m'"
  unfolding wf_map_def by (metis mset_eq_imp_distinct_iff mset_map)

lemma map_of_perm: "wf_map m \<Longrightarrow> mset m' = mset m \<Longrightarrow> map_of m' = map_of m"
  by (metis map_of_inject_set mset_eq_setD wf_map_def wf_map_perm)

text \<open>\<open>Object.assign(target, source)\<close> and the spread \<open>{...target, ...source}\<close>: the entries
  of the source are set one after the other.\<close>

definition assign :: "('k, 'v) jsmap \<Rightarrow> ('k, 'v) jsmap \<Rightarrow> ('k, 'v) jsmap" where
  "assign result specs = fold (\<lambda>(k, v) m. map_set k v m) specs result"

lemma assign_Nil [simp]: "assign m [] = m"
  by (simp add: assign_def)

lemma assign_Cons: "assign m ((k, v) # xs) = assign (map_set k v m) xs"
  by (simp add: assign_def)

lemma wf_map_assign [simp, intro]: "wf_map m \<Longrightarrow> wf_map (assign m xs)"
  by (induction xs arbitrary: m) (auto simp: assign_Cons)

lemma get_assign [js_maps]:
  "wf_map xs \<Longrightarrow> map_get (assign m xs) k = (case map_get xs k of Some v \<Rightarrow> Some v | None \<Rightarrow> map_get m k)"
proof (induction xs arbitrary: m)
  case (Cons p xs)
  then have "map_of xs (fst p) = None" by (cases p) (auto simp: wf_map_def map_of_eq_None_iff)
  with Cons show ?case
    by (cases p) (auto simp: assign_Cons wf_map_def get_set split: option.split)
qed simp

section \<open>Lists\<close>

primrec findIndex :: "('a \<Rightarrow> bool) \<Rightarrow> 'a list \<Rightarrow> int" where
  "findIndex P [] = -1"
| "findIndex P (x # xs) =
     (if P x then 0 else if findIndex P xs = -1 then -1 else findIndex P xs + 1)"

lemma findIndex_ge: "findIndex P xs \<ge> -1"
  by (induction xs) auto

lemma findIndex_neg_iff: "findIndex P xs = -1 \<longleftrightarrow> (\<forall>x\<in>set xs. \<not> P x)"
proof (induction xs)
  case (Cons a xs)
  with findIndex_ge [of P xs] show ?case by auto
qed simp

lemma findIndex_split:
  assumes "findIndex P xs \<noteq> -1"
  shows "\<exists>pre x post. xs = pre @ x # post \<and> P x \<and> (\<forall>y\<in>set pre. \<not> P y) \<and>
    findIndex P xs = int (length pre)"
  using assms
proof (induction xs)
  case Nil
  then show ?case by simp
next
  case (Cons a xs)
  show ?case
  proof (cases "P a")
    case True
    then show ?thesis by (intro exI [of _ "[]"]) simp
  next
    case False
    with Cons obtain pre x post where "xs = pre @ x # post" "P x" "\<forall>y\<in>set pre. \<not> P y"
      "findIndex P xs = int (length pre)" by (auto split: if_splits)
    with False show ?thesis by (intro exI [of _ "a # pre"]) auto
  qed
qed

lemma findIndex_lt: "findIndex P xs < int (length xs)"
  by (induction xs) auto

definition sort_desc :: "('a \<Rightarrow> 'b::{linorder, ordered_ab_group_add}) \<Rightarrow> 'a list \<Rightarrow> 'a list" where
  "sort_desc f xs = sort_key (\<lambda>x. - f x) xs"

lemma set_sort_desc [simp]: "set (sort_desc f xs) = set xs"
  by (simp add: sort_desc_def)

lemma mset_sort_desc [simp]: "mset (sort_desc f xs) = mset xs"
  by (simp add: sort_desc_def)

lemma length_sort_desc [simp]: "length (sort_desc f xs) = length xs"
  by (simp add: sort_desc_def)

lemma sorted_sort_desc: "sorted_wrt (\<lambda>x y. f y \<le> f x) (sort_desc f xs)"
proof -
  have "sorted (map (\<lambda>x. - f x) (sort_desc f xs))"
    by (simp add: sort_desc_def)
  then show ?thesis
    by (simp add: sorted_wrt_map)
qed

lemma sort_desc_stable:
  "filter (\<lambda>y. f y = k) (sort_desc f xs) = filter (\<lambda>y. f y = k) xs"
  using sort_key_stable [of "\<lambda>x. - f x" "- k" xs] by (simp add: sort_desc_def)

text \<open>\<open>[...new Set(xs)]\<close>: the first occurrence of each element.\<close>

definition js_unique :: "'a list \<Rightarrow> 'a list" where
  "js_unique xs = fold (\<lambda>x acc. if x \<in> set acc then acc else acc @ [x]) xs []"

lemma js_unique_acc:
  "distinct acc \<Longrightarrow> distinct (fold (\<lambda>x acc. if x \<in> set acc then acc else acc @ [x]) xs acc) \<and>
     set (fold (\<lambda>x acc. if x \<in> set acc then acc else acc @ [x]) xs acc) = set acc \<union> set xs"
  by (induction xs arbitrary: acc) auto

lemma js_unique [simp]: "distinct (js_unique xs)" "set (js_unique xs) = set xs"
  using js_unique_acc [of "[]" xs] by (simp_all add: js_unique_def)

lemma js_unique_acc_distinct:
  "distinct (acc @ xs) \<Longrightarrow> fold (\<lambda>x acc. if x \<in> set acc then acc else acc @ [x]) xs acc = acc @ xs"
  by (induction xs arbitrary: acc) auto

lemma js_unique_distinct: "distinct xs \<Longrightarrow> js_unique xs = xs"
  using js_unique_acc_distinct [of "[]" xs] by (simp add: js_unique_def)

section \<open>JSON values\<close>

datatype json =
    JNull
  | JBool bool
  | JNum rat
  | JStr string
  | JArr "json list"
  | JObj "(string \<times> json) list"

fun truthy :: "json option \<Rightarrow> bool" where
  "truthy None = False"
| "truthy (Some JNull) = False"
| "truthy (Some (JBool b)) = b"
| "truthy (Some (JNum n)) = (n \<noteq> 0)"
| "truthy (Some (JStr s)) = (s \<noteq> [])"
| "truthy (Some (JArr _)) = True"
| "truthy (Some (JObj _)) = True"

text \<open>Reading a property; on \<open>null\<close> the source would throw, which every caller rules out first.\<close>

fun get_prop :: "json \<Rightarrow> string \<Rightarrow> json option" where
  "get_prop (JObj m) k = map_of m k"
| "get_prop (JArr xs) k = (if k = ''length'' then Some (JNum (of_nat (length xs))) else None)"
| "get_prop (JStr s) k = (if k = ''length'' then Some (JNum (of_nat (length s))) else None)"
| "get_prop _ k = None"

fun json_items :: "json \<Rightarrow> json list option" where
  "json_items (JArr xs) = Some xs"
| "json_items _ = None"

fun is_string :: "json option \<Rightarrow> bool" where
  "is_string (Some (JStr _)) = True"
| "is_string _ = False"

fun is_number :: "json option \<Rightarrow> bool" where
  "is_number (Some (JNum _)) = True"
| "is_number _ = False"

fun is_boolean :: "json option \<Rightarrow> bool" where
  "is_boolean (Some (JBool _)) = True"
| "is_boolean _ = False"

fun str_of :: "json option \<Rightarrow> string" where
  "str_of (Some (JStr s)) = s"
| "str_of _ = []"

fun num_of :: "json option \<Rightarrow> rat" where
  "num_of (Some (JNum n)) = n"
| "num_of _ = 0"

lemma is_string_iff: "is_string v \<longleftrightarrow> v = Some (JStr (str_of v))"
  by (cases v rule: is_string.cases) auto

lemma is_number_iff: "is_number v \<longleftrightarrow> v = Some (JNum (num_of v))"
  by (cases v rule: is_number.cases) auto

text \<open>\<open>typeof v === "object"\<close> together with \<open>v !== null\<close> and \<open>!Array.isArray(v)\<close>.\<close>

fun is_record :: "json \<Rightarrow> bool" where
  "is_record (JObj _) = True"
| "is_record _ = False"

fun entries :: "json \<Rightarrow> (string \<times> json) list" where
  "entries (JObj m) = m"
| "entries _ = []"

section \<open>Numbers as text\<close>

fun digit_char :: "nat \<Rightarrow> char" where
  "digit_char d = char_of (48 + d)"

fun nat_str :: "nat \<Rightarrow> string" where
  "nat_str n = (if n < 10 then [digit_char n] else nat_str (n div 10) @ [digit_char (n mod 10)])"

declare nat_str.simps [simp del]

text \<open>Object spread \<open>{...v}\<close>.\<close>

fun spread :: "json option \<Rightarrow> (string \<times> json) list" where
  "spread (Some (JObj m)) = m"
| "spread (Some (JArr xs)) = zip (map nat_str [0..<length xs]) xs"
| "spread (Some (JStr s)) = zip (map nat_str [0..<length s]) (map (\<lambda>ch. JStr [ch]) s)"
| "spread _ = []"

definition char_digit :: "char \<Rightarrow> nat" where
  "char_digit ch = of_char ch - 48"

definition str_nat :: "string \<Rightarrow> nat" where
  "str_nat s = foldl (\<lambda>acc ch. acc * 10 + char_digit ch) 0 s"

lemma of_char_digit: "d < 10 \<Longrightarrow> of_char (digit_char d) = 48 + d"
  by (simp add: of_char_of)

lemma str_nat_str [simp]: "str_nat (nat_str n) = n"
proof (induction n rule: nat_str.induct)
  case (1 n)
  have "char_digit (digit_char (m mod 10)) = m mod 10" for m
    unfolding char_digit_def by (subst of_char_digit) simp_all
  moreover have "char_digit (digit_char n) = n" if "n < 10"
    unfolding char_digit_def using that by (subst of_char_digit) simp_all
  ultimately show ?case
    using 1 by (subst nat_str.simps) (simp add: str_nat_def del: digit_char.simps)
qed

lemma nat_str_inject [simp]: "nat_str m = nat_str n \<longleftrightarrow> m = n"
  by (metis str_nat_str)

lemma nat_str_digits: "ch \<in> set (nat_str n) \<Longrightarrow> 48 \<le> (of_char ch :: nat) \<and> (of_char ch :: nat) \<le> 57"
proof (induction n rule: nat_str.induct)
  case (1 n)
  have dg: "48 \<le> (of_char (digit_char d) :: nat) \<and> (of_char (digit_char d) :: nat) \<le> 57" if "d < 10" for d
    using of_char_digit [OF that] that by simp
  show ?case
  proof (cases "n < 10")
    case True
    with 1(2) dg [OF True] show ?thesis by (subst (asm) nat_str.simps) (simp del: digit_char.simps)
  next
    case False
    with 1(2) have "ch \<in> set (nat_str (n div 10)) \<or> ch = digit_char (n mod 10)"
      by (subst (asm) nat_str.simps) (auto simp del: digit_char.simps)
    with 1(1) False dg [of "n mod 10"] show ?thesis by (auto simp del: digit_char.simps)
  qed
qed

lemma nat_str_no_dash: "CHR ''-'' \<notin> set (nat_str n)"
  using nat_str_digits [of "CHR ''-''" n] by auto

lemma append_sep_inject:
  assumes "a @ c # b = a' @ c # b'" "c \<notin> set a" "c \<notin> set a'"
  shows "a = a' \<and> b = b'"
  using assms by (induction a arbitrary: a') (auto simp: Cons_eq_append_conv append_eq_Cons_conv)

end
