(* ===== verification/Pane_Tree.thy ===== *)
theory Pane_Tree
  imports Yanta_Base
begin

text \<open>
  The pane tree: \<open>src/frontend/src/pane/types.ts\<close>, \<open>utils/paneId.ts\<close>,
  \<open>utils/paneTreeQueries.ts\<close>, \<open>utils/paneTreeMutations.ts\<close> and \<open>utils/paneNavigation.ts\<close>.
  A node is a leaf showing at most one document or a split with exactly two children.
  The source compares subtrees by reference (\<open>newFirst !== node.children[0]\<close>); the model compares
  them by value, which gives the same result because both branches of such a test
  build equal trees whenever the values agree.
\<close>

section \<open>Types\<close>

datatype split_direction = Horizontal | Vertical

record scroll_position =
  sp_top :: rat
  sp_left :: rat

datatype pane_node =
    Leaf (pane_id: string) (documentPath: "string option") (scrollPosition: "scroll_position option")
  | Split (pane_id: string) (direction: split_direction) (child0: pane_node) (child1: pane_node)
      (sizes: "rat \<times> rat")

definition MAX_PANES :: nat where
  "MAX_PANES = 4"

section \<open>Identifiers\<close>

text \<open>
  The module counter \<open>paneIdCounter\<close> is passed explicitly; \<open>clock k\<close> is what
  \<open>Date.now()\<close> returns during the \<open>k\<close>-th call.
\<close>

definition pane_id_of :: "nat \<Rightarrow> nat \<Rightarrow> string" where
  "pane_id_of t c = ''pane-'' @ nat_str t @ ''-'' @ nat_str c"

definition generatePaneId :: "(nat \<Rightarrow> nat) \<Rightarrow> nat \<Rightarrow> string \<times> nat" where
  "generatePaneId clock c = (let c' = c + 1 in (pane_id_of (clock c') c', c'))"

section \<open>Queries\<close>

fun findPane :: "pane_node \<Rightarrow> string \<Rightarrow> pane_node option" where
  "findPane (Leaf i d s) k = (if i = k then Some (Leaf i d s) else None)"
| "findPane (Split i dir a b z) k =
     (if i = k then Some (Split i dir a b z)
      else case findPane a k of Some l \<Rightarrow> Some l | None \<Rightarrow> findPane b k)"

fun countLeaves :: "pane_node \<Rightarrow> nat" where
  "countLeaves (Leaf i d s) = 1"
| "countLeaves (Split i dir a b z) = countLeaves a + countLeaves b"

fun getLeaves :: "pane_node \<Rightarrow> pane_node list" where
  "getLeaves (Leaf i d s) = [Leaf i d s]"
| "getLeaves (Split i dir a b z) = getLeaves a @ getLeaves b"

definition getLeafPaths :: "pane_node \<Rightarrow> string list" where
  "getLeafPaths rt = map the (filter (\<lambda>p. p \<noteq> None) (map documentPath (getLeaves rt)))"

text \<open>A path step is the split and which of its children was taken.\<close>

type_synonym path_step = "pane_node \<times> nat"

fun getPathToLeaf :: "pane_node \<Rightarrow> string \<Rightarrow> path_step list option" where
  "getPathToLeaf (Leaf i d s) k = (if i = k then Some [] else None)"
| "getPathToLeaf (Split i dir a b z) k =
     (case getPathToLeaf a k of
        Some p \<Rightarrow> Some ((Split i dir a b z, 0) # p)
      | None \<Rightarrow>
          (case getPathToLeaf b k of
             Some p \<Rightarrow> Some ((Split i dir a b z, 1) # p)
           | None \<Rightarrow> None))"

section \<open>Mutations\<close>

text \<open>
  \<open>replaceNode\<close> runs the transform on every topmost node with the target id, first child first.
  The transform may draw fresh ids, so the traversal threads a state.
\<close>

fun replaceNode ::
  "pane_node \<Rightarrow> string \<Rightarrow> (pane_node \<Rightarrow> 's \<Rightarrow> pane_node \<times> 's) \<Rightarrow> 's \<Rightarrow> pane_node \<times> 's" where
  "replaceNode (Leaf i d s) k f st =
     (if i = k then f (Leaf i d s) st else (Leaf i d s, st))"
| "replaceNode (Split i dir a b z) k f st =
     (if i = k then f (Split i dir a b z) st
      else
        let (a', st1) = replaceNode a k f st;
            (b', st2) = replaceNode b k f st1
        in if a' \<noteq> a \<or> b' \<noteq> b then (Split i dir a' b' z, st2)
           else (Split i dir a b z, st2))"

definition replaceNode_pure :: "pane_node \<Rightarrow> string \<Rightarrow> (pane_node \<Rightarrow> pane_node) \<Rightarrow> pane_node" where
  "replaceNode_pure node k f = fst (replaceNode node k (\<lambda>n st. (f n, st)) ())"

fun split_leaf :: "(nat \<Rightarrow> nat) \<Rightarrow> split_direction \<Rightarrow> pane_node \<Rightarrow> nat \<Rightarrow> pane_node \<times> nat" where
  "split_leaf clock dir (Leaf i d s) c =
     (let (splitId, c1) = generatePaneId clock c;
          (leafId, c2) = generatePaneId clock c1
      in (Split splitId dir (Leaf i d s) (Leaf leafId None None) (50, 50), c2))"
| "split_leaf clock dir (Split i dir' a b z) c = (Split i dir' a b z, c)"

definition splitPane ::
  "(nat \<Rightarrow> nat) \<Rightarrow> pane_node \<Rightarrow> string \<Rightarrow> split_direction \<Rightarrow> nat \<Rightarrow> pane_node \<times> nat" where
  "splitPane clock rt paneId dir c =
     (if countLeaves rt \<ge> MAX_PANES then (rt, c)
      else replaceNode rt paneId (split_leaf clock dir) c)"

fun is_leaf_with :: "pane_node \<Rightarrow> string \<Rightarrow> bool" where
  "is_leaf_with (Leaf i d s) k = (i = k)"
| "is_leaf_with (Split i dir a b z) k = False"

fun closePaneInNode :: "pane_node \<Rightarrow> string \<Rightarrow> pane_node option" where
  "closePaneInNode (Leaf i d s) k = None"
| "closePaneInNode (Split i dir a b z) k =
     (if is_leaf_with a k then Some b
      else if is_leaf_with b k then Some a
      else
        (case closePaneInNode a k of
           Some a' \<Rightarrow> Some (Split i dir a' b z)
         | None \<Rightarrow>
             (case closePaneInNode b k of
                Some b' \<Rightarrow> Some (Split i dir a b' z)
              | None \<Rightarrow> None)))"

definition closePane :: "pane_node \<Rightarrow> string \<Rightarrow> pane_node" where
  "closePane rt paneId =
     (case rt of
        Leaf i d s \<Rightarrow> rt
      | Split i dir a b z \<Rightarrow>
          (case closePaneInNode rt paneId of Some n \<Rightarrow> n | None \<Rightarrow> rt))"

fun set_sizes :: "rat \<times> rat \<Rightarrow> pane_node \<Rightarrow> pane_node" where
  "set_sizes z' (Split i dir a b z) = Split i dir a b z'"
| "set_sizes z' (Leaf i d s) = Leaf i d s"

definition resizePane :: "pane_node \<Rightarrow> string \<Rightarrow> rat \<times> rat \<Rightarrow> pane_node" where
  "resizePane rt splitId z = replaceNode_pure rt splitId (set_sizes z)"

fun set_document :: "string option \<Rightarrow> pane_node \<Rightarrow> pane_node" where
  "set_document d' (Leaf i d s) = Leaf i d' s"
| "set_document d' (Split i dir a b z) = Split i dir a b z"

definition openDocumentInPane :: "pane_node \<Rightarrow> string \<Rightarrow> string option \<Rightarrow> pane_node" where
  "openDocumentInPane rt paneId d = replaceNode_pure rt paneId (set_document d)"

fun set_scroll :: "scroll_position \<Rightarrow> pane_node \<Rightarrow> pane_node" where
  "set_scroll sp (Leaf i d s) = Leaf i d (Some sp)"
| "set_scroll sp (Split i dir a b z) = Split i dir a b z"

definition updateScrollPosition :: "pane_node \<Rightarrow> string \<Rightarrow> scroll_position \<Rightarrow> pane_node" where
  "updateScrollPosition rt paneId sp = replaceNode_pure rt paneId (set_scroll sp)"

definition moveDocumentBetweenPanes :: "pane_node \<Rightarrow> string \<Rightarrow> string \<Rightarrow> pane_node" where
  "moveDocumentBetweenPanes rt source target =
     (case findPane rt source of
        Some (Leaf i d s) \<Rightarrow>
          let newRoot = openDocumentInPane rt source None
          in openDocumentInPane newRoot target d
      | _ \<Rightarrow> rt)"

definition swapPaneDocuments :: "pane_node \<Rightarrow> string \<Rightarrow> string \<Rightarrow> pane_node" where
  "swapPaneDocuments rt idA idB =
     (case (findPane rt idA, findPane rt idB) of
        (Some (Leaf _ pathA _), Some (Leaf _ pathB _)) \<Rightarrow>
          let newRoot = openDocumentInPane rt idA pathB
          in openDocumentInPane newRoot idB pathA
      | _ \<Rightarrow> rt)"

section \<open>Navigation\<close>

definition getNextLeafId :: "pane_node \<Rightarrow> string \<Rightarrow> string option" where
  "getNextLeafId rt currentId =
     (let leaves = getLeaves rt; n = int (length leaves) in
      if n \<le> 1 then None
      else
        let currentIndex = findIndex (\<lambda>l. pane_id l = currentId) leaves in
        if currentIndex = -1 then Some (pane_id (leaves ! 0))
        else Some (pane_id (leaves ! nat ((currentIndex + 1) mod n))))"

definition getPreviousLeafId :: "pane_node \<Rightarrow> string \<Rightarrow> string option" where
  "getPreviousLeafId rt currentId =
     (let leaves = getLeaves rt; n = int (length leaves) in
      if n \<le> 1 then None
      else
        let currentIndex = findIndex (\<lambda>l. pane_id l = currentId) leaves in
        if currentIndex = -1 then Some (pane_id (leaves ! 0))
        else Some (pane_id (leaves ! nat ((currentIndex - 1 + n) mod n))))"

datatype pane_direction = DirLeft | DirRight | DirUp | DirDown

definition getPaneInDirection :: "pane_node \<Rightarrow> string \<Rightarrow> pane_direction \<Rightarrow> string option" where
  "getPaneInDirection rt current dir =
     (case getPathToLeaf rt current of
        None \<Rightarrow> None
      | Some [] \<Rightarrow> None
      | Some path \<Rightarrow>
          (case dir of
             DirLeft \<Rightarrow>
               (case find (\<lambda>(sp, ci). direction sp = Horizontal \<and> ci = 1) path of
                  None \<Rightarrow> None
                | Some (sp, _) \<Rightarrow> Some (pane_id (last (getLeaves (child0 sp)))))
           | DirRight \<Rightarrow>
               (case find (\<lambda>(sp, ci). direction sp = Horizontal \<and> ci = 0) path of
                  None \<Rightarrow> None
                | Some (sp, _) \<Rightarrow> Some (pane_id (hd (getLeaves (child1 sp)))))
           | DirUp \<Rightarrow>
               (case find (\<lambda>(sp, ci). direction sp = Vertical \<and> ci = 1) path of
                  None \<Rightarrow> None
                | Some (sp, _) \<Rightarrow> Some (pane_id (last (getLeaves (child0 sp)))))
           | DirDown \<Rightarrow>
               (case find (\<lambda>(sp, ci). direction sp = Vertical \<and> ci = 0) path of
                  None \<Rightarrow> None
                | Some (sp, _) \<Rightarrow> Some (pane_id (hd (getLeaves (child1 sp)))))))"

section \<open>Structure of a tree\<close>

fun node_ids :: "pane_node \<Rightarrow> string list" where
  "node_ids (Leaf i d s) = [i]"
| "node_ids (Split i dir a b z) = i # node_ids a @ node_ids b"

definition leaf_ids :: "pane_node \<Rightarrow> string list" where
  "leaf_ids rt = map pane_id (getLeaves rt)"

text \<open>The invariant of a pane tree: no two nodes share an id.\<close>

definition wf_tree :: "pane_node \<Rightarrow> bool" where
  "wf_tree rt \<longleftrightarrow> distinct (node_ids rt)"

lemma getLeaves_nonempty [simp]: "getLeaves n \<noteq> []"
  by (induction n) auto

lemma length_getLeaves [simp]: "length (getLeaves n) = countLeaves n"
  by (induction n) auto

lemma countLeaves_pos [simp, intro]: "0 < countLeaves n"
  by (induction n) auto

lemma getLeaves_Leaf: "l \<in> set (getLeaves n) \<Longrightarrow> \<exists>i d s. l = Leaf i d s"
  by (induction n) auto

lemma leaf_ids_simps [simp]:
  "leaf_ids (Leaf i d s) = [i]"
  "leaf_ids (Split i dir a b z) = leaf_ids a @ leaf_ids b"
  by (simp_all add: leaf_ids_def)

lemma leaf_ids_nonempty [simp]: "leaf_ids n \<noteq> []"
  by (simp add: leaf_ids_def)

lemma length_leaf_ids [simp]: "length (leaf_ids n) = countLeaves n"
  by (simp add: leaf_ids_def)

lemma leaf_ids_subset: "set (leaf_ids n) \<subseteq> set (node_ids n)"
  by (induction n) auto

lemma wf_tree_simps [simp]:
  "wf_tree (Leaf i d s)"
  "wf_tree (Split i dir a b z) \<longleftrightarrow> i \<notin> set (node_ids a) \<and> i \<notin> set (node_ids b) \<and>
     wf_tree a \<and> wf_tree b \<and> set (node_ids a) \<inter> set (node_ids b) = {}"
  by (auto simp: wf_tree_def)

lemma distinct_leaf_ids [intro]: "wf_tree n \<Longrightarrow> distinct (leaf_ids n)"
proof (induction n)
  case (Split i dir a b z)
  then show ?case using leaf_ids_subset [of a] leaf_ids_subset [of b] by auto
qed simp

lemma pane_id_in_node_ids [simp]: "pane_id n \<in> set (node_ids n)"
  by (cases n) auto

lemma findPane_None_iff: "findPane n k = None \<longleftrightarrow> k \<notin> set (node_ids n)"
  by (induction n) (auto split: option.splits)

lemma findPane_Some_id: "findPane n k = Some m \<Longrightarrow> pane_id m = k"
  by (induction n) (auto split: if_splits option.splits)

lemma findPane_leaf:
  "wf_tree n \<Longrightarrow> Leaf k d s \<in> set (getLeaves n) \<Longrightarrow> findPane n k = Some (Leaf k d s)"
proof (induction n)
  case (Split i dir a b z)
  have ka: "k \<in> set (node_ids a)" if "Leaf k d s \<in> set (getLeaves a)"
    using that leaf_ids_subset [of a] by (force simp: leaf_ids_def)
  have kb: "k \<in> set (node_ids b)" if "Leaf k d s \<in> set (getLeaves b)"
    using that leaf_ids_subset [of b] by (force simp: leaf_ids_def)
  from Split ka kb show ?case
    by (auto split: option.splits simp: findPane_None_iff [symmetric])
       (metis IntI empty_iff findPane_None_iff option.distinct(1))+
qed simp

lemma findPane_leafD: "findPane n k = Some (Leaf i d s) \<Longrightarrow> Leaf k d s \<in> set (getLeaves n) \<and> i = k"
  by (induction n) (auto split: if_splits option.splits)

lemma leaf_ids_iff: "k \<in> set (leaf_ids n) \<longleftrightarrow> (\<exists>d s. Leaf k d s \<in> set (getLeaves n))"
  by (induction n) auto

lemma findPane_leaf_iff:
  "wf_tree n \<Longrightarrow> k \<in> set (leaf_ids n) \<longleftrightarrow> (\<exists>i d s. findPane n k = Some (Leaf i d s))"
  unfolding leaf_ids_iff using findPane_leaf findPane_leafD by blast

section \<open>Effect of the mutations on the leaves\<close>

lemma replaceNode_absent [simp]: "k \<notin> set (node_ids n) \<Longrightarrow> replaceNode n k f st = (n, st)"
  by (induction n arbitrary: st) auto

lemma replaceNode_hit: "replaceNode n (pane_id n) f st = f n st"
  by (cases n) simp_all

lemma replaceNode_Split:
  "i \<noteq> k \<Longrightarrow> replaceNode (Split i dir a b z) k f st =
     (Split i dir (fst (replaceNode a k f st))
        (fst (replaceNode b k f (snd (replaceNode a k f st)))) z,
      snd (replaceNode b k f (snd (replaceNode a k f st))))"
  by (auto simp: Let_def split: prod.splits)

declare replaceNode.simps(2) [simp del]

lemma replaceNode_pure_simps [simp]:
  "replaceNode_pure (Leaf i d s) k f = (if i = k then f (Leaf i d s) else Leaf i d s)"
  "replaceNode_pure (Split i dir a b z) k f =
     (if i = k then f (Split i dir a b z)
      else Split i dir (replaceNode_pure a k f) (replaceNode_pure b k f) z)"
  using replaceNode_hit [of "Split i dir a b z" "\<lambda>n (st::unit). (f n, st)"]
  by (auto simp: replaceNode_pure_def replaceNode_Split)

lemma replaceNode_pure_absent [simp]: "k \<notin> set (node_ids n) \<Longrightarrow> replaceNode_pure n k f = n"
  by (simp add: replaceNode_pure_def)

text \<open>In a tree with distinct ids the transform runs at most once, so the threaded state
  is the one the single matching node leaves behind.\<close>

lemma replaceNode_wf:
  "wf_tree n \<Longrightarrow> replaceNode n k f st =
     (replaceNode_pure n k (\<lambda>m. fst (f m st)),
      case findPane n k of None \<Rightarrow> st | Some m \<Rightarrow> snd (f m st))"
proof (induction n arbitrary: st)
  case (Split i dir a b z)
  show ?case
  proof (cases "i = k")
    case True
    then show ?thesis using replaceNode_hit [of "Split i dir a b z" f st] by simp
  next
    case False
    consider (a) "k \<notin> set (node_ids a)" | (b) "k \<notin> set (node_ids b)" using Split.prems by auto
    then show ?thesis
    proof cases
      case a
      with False Split show ?thesis
        by (simp add: replaceNode_Split findPane_None_iff [THEN iffD2])
    next
      case b
      with False Split show ?thesis
        by (auto simp: replaceNode_Split findPane_None_iff [THEN iffD2] split: option.splits)
    qed
  qed
qed simp

text \<open>The transforms of \<open>openDocumentInPane\<close>, \<open>updateScrollPosition\<close> and \<open>resizePane\<close>
  keep a node's kind, its id and everything below it.\<close>

fun same_shape :: "pane_node \<Rightarrow> pane_node \<Rightarrow> bool" where
  "same_shape (Leaf i d s) m = (\<exists>d' s'. m = Leaf i d' s')"
| "same_shape (Split i dir a b z) m = (\<exists>z'. m = Split i dir a b z')"

definition shape_keeping :: "(pane_node \<Rightarrow> pane_node) \<Rightarrow> bool" where
  "shape_keeping f \<longleftrightarrow> (\<forall>n. same_shape n (f n))"

lemma shape_keeping_intros [simp, intro]:
  "shape_keeping (set_document d)" "shape_keeping (set_scroll sp)" "shape_keeping (set_sizes z)"
proof -
  have "same_shape n (set_document d n)" "same_shape n (set_scroll sp n)"
    "same_shape n (set_sizes z n)" for n by (cases n; simp)+
  then show "shape_keeping (set_document d)" "shape_keeping (set_scroll sp)"
    "shape_keeping (set_sizes z)" by (auto simp: shape_keeping_def)
qed

lemma shape_keeping_transform:
  assumes "shape_keeping f"
  shows "node_ids (f n) = node_ids n" "leaf_ids (f n) = leaf_ids n"
    "countLeaves (f n) = countLeaves n" "pane_id (f n) = pane_id n"
  using assms unfolding shape_keeping_def by (cases n; fastforce dest: spec [of _ n])+

lemma node_ids_replace_pure [simp]:
  "shape_keeping f \<Longrightarrow> node_ids (replaceNode_pure n k f) = node_ids n"
  by (induction n) (auto simp: shape_keeping_transform)

lemma wf_tree_replace_pure [simp]:
  "shape_keeping f \<Longrightarrow> wf_tree (replaceNode_pure n k f) = wf_tree n"
  by (simp add: wf_tree_def)

lemma countLeaves_replace_pure [simp]:
  "shape_keeping f \<Longrightarrow> countLeaves (replaceNode_pure n k f) = countLeaves n"
  by (induction n) (auto simp: shape_keeping_transform)

lemma leaf_ids_replace_pure [simp]:
  "shape_keeping f \<Longrightarrow> leaf_ids (replaceNode_pure n k f) = leaf_ids n"
  by (induction n) (auto simp: shape_keeping_transform)

lemma getLeaves_id_in_node_ids: "l \<in> set (getLeaves n) \<Longrightarrow> pane_id l \<in> set (node_ids n)"
  using leaf_ids_subset [of n] by (auto simp: leaf_ids_def)

lemma concat_map_single: "(\<And>x. x \<in> set xs \<Longrightarrow> f x = [x]) \<Longrightarrow> concat (map f xs) = xs"
  by (induction xs) auto

text \<open>What a replacement does to the leaves, for any transform that leaves splits' leaves alone.\<close>

lemma getLeaves_replace_pure:
  assumes "\<And>i dir a b z. getLeaves (f (Split i dir a b z)) = getLeaves (Split i dir a b z)"
    and "wf_tree n"
  shows "getLeaves (replaceNode_pure n k f) =
    concat (map (\<lambda>l. if pane_id l = k then getLeaves (f l) else [l]) (getLeaves n))"
  using assms(2)
proof (induction n)
  case (Split i dir a b z)
  show ?case
  proof (cases "i = k")
    case True
    have "concat (map (\<lambda>l. if pane_id l = k then getLeaves (f l) else [l]) (getLeaves m)) = getLeaves m"
      if "k \<notin> set (node_ids m)" for m
      by (rule concat_map_single) (use that getLeaves_id_in_node_ids in force)
    with True Split.prems assms(1) show ?thesis by simp
  qed (use Split in simp)
qed simp

lemma getLeaves_openDocument:
  "wf_tree n \<Longrightarrow> getLeaves (openDocumentInPane n k d) =
     map (\<lambda>l. if pane_id l = k then set_document d l else l) (getLeaves n)"
proof -
  assume wf: "wf_tree n"
  have "getLeaves (openDocumentInPane n k d) =
    concat (map (\<lambda>l. if pane_id l = k then getLeaves (set_document d l) else [l]) (getLeaves n))"
    unfolding openDocumentInPane_def by (rule getLeaves_replace_pure) (simp_all add: wf)
  also have "\<dots> = concat (map (\<lambda>l. [if pane_id l = k then set_document d l else l]) (getLeaves n))"
    by (rule arg_cong [where f = concat], rule map_cong)
       (auto dest!: getLeaves_Leaf)
  also have "\<dots> = map (\<lambda>l. if pane_id l = k then set_document d l else l) (getLeaves n)"
    by simp
  finally show ?thesis .
qed

lemmas pane_mutation_defs =
  resizePane_def openDocumentInPane_def updateScrollPosition_def

lemma pane_mutation_ids [simp]:
  "node_ids (resizePane n k z) = node_ids n"
  "node_ids (openDocumentInPane n k d) = node_ids n"
  "node_ids (updateScrollPosition n k sp) = node_ids n"
  "leaf_ids (resizePane n k z) = leaf_ids n"
  "leaf_ids (openDocumentInPane n k d) = leaf_ids n"
  "leaf_ids (updateScrollPosition n k sp) = leaf_ids n"
  "countLeaves (resizePane n k z) = countLeaves n"
  "countLeaves (openDocumentInPane n k d) = countLeaves n"
  "countLeaves (updateScrollPosition n k sp) = countLeaves n"
  by (simp_all add: pane_mutation_defs)

lemma wf_tree_cong: "node_ids n = node_ids m \<Longrightarrow> wf_tree n = wf_tree m"
  by (simp add: wf_tree_def)

lemma move_swap_ids [simp]:
  "node_ids (moveDocumentBetweenPanes n i j) = node_ids n"
  "node_ids (swapPaneDocuments n i j) = node_ids n"
  "leaf_ids (moveDocumentBetweenPanes n i j) = leaf_ids n"
  "leaf_ids (swapPaneDocuments n i j) = leaf_ids n"
  "countLeaves (moveDocumentBetweenPanes n i j) = countLeaves n"
  "countLeaves (swapPaneDocuments n i j) = countLeaves n"
  by (auto simp: moveDocumentBetweenPanes_def swapPaneDocuments_def Let_def
      split: option.splits pane_node.splits)

subsection \<open>Splitting\<close>

abbreviation new_split_id :: "(nat \<Rightarrow> nat) \<Rightarrow> nat \<Rightarrow> string" where
  "new_split_id clock c \<equiv> pane_id_of (clock (Suc c)) (Suc c)"

abbreviation new_leaf_id :: "(nat \<Rightarrow> nat) \<Rightarrow> nat \<Rightarrow> string" where
  "new_leaf_id clock c \<equiv> pane_id_of (clock (Suc (Suc c))) (Suc (Suc c))"

lemma split_leaf_Leaf [simp]:
  "split_leaf clock dir (Leaf i d s) c =
     (Split (new_split_id clock c) dir (Leaf i d s) (Leaf (new_leaf_id clock c) None None) (50, 50),
      Suc (Suc c))"
  by (simp add: generatePaneId_def Let_def)

declare split_leaf.simps(1) [simp del]

definition split_root :: "(nat \<Rightarrow> nat) \<Rightarrow> pane_node \<Rightarrow> string \<Rightarrow> split_direction \<Rightarrow> nat \<Rightarrow> pane_node" where
  "split_root clock n k dir c = replaceNode_pure n k (\<lambda>m. fst (split_leaf clock dir m c))"

lemma split_root_simps:
  "split_root clock (Leaf k d s) k dir c = Split (new_split_id clock c) dir (Leaf k d s)
     (Leaf (new_leaf_id clock c) None None) (50, 50)"
  "i \<noteq> k \<Longrightarrow> split_root clock (Split i dir' a b z) k dir c =
     Split i dir' (split_root clock a k dir c) (split_root clock b k dir c) z"
  by (simp_all add: split_root_def)

lemma split_root_miss: "k \<notin> set (leaf_ids n) \<Longrightarrow> split_root clock n k dir c = n"
  by (induction n) (auto simp: split_root_def)

lemma leaf_in_one_child:
  assumes "wf_tree (Split i dir a b z)" "k \<in> set (leaf_ids (Split i dir a b z))"
  obtains "i \<noteq> k" "k \<in> set (leaf_ids a)" "k \<notin> set (node_ids b)" "k \<notin> set (leaf_ids b)"
  | "i \<noteq> k" "k \<in> set (leaf_ids b)" "k \<notin> set (node_ids a)" "k \<notin> set (leaf_ids a)"
  using assms leaf_ids_subset [of a] leaf_ids_subset [of b] by auto

lemma splitPane_wf:
  assumes "wf_tree n"
  shows "splitPane clock n k dir c =
     (if countLeaves n < MAX_PANES \<and> k \<in> set (leaf_ids n)
      then (split_root clock n k dir c, Suc (Suc c)) else (n, c))"
proof (cases "k \<in> set (leaf_ids n)")
  case True
  with assms obtain i d s where "findPane n k = Some (Leaf i d s)"
    by (auto simp: findPane_leaf_iff)
  with True assms show ?thesis by (simp add: splitPane_def replaceNode_wf split_root_def)
next
  case False
  have "snd (split_leaf clock dir m c) = c" if "findPane n k = Some m" for m
    using that False assms by (cases m) (auto simp: findPane_leaf_iff)
  with False assms split_root_miss [OF False, of clock dir c] show ?thesis
    by (simp add: splitPane_def replaceNode_wf split_root_def split: option.split)
qed

lemma getLeaves_split_root:
  assumes "wf_tree n"
  shows "getLeaves (split_root clock n k dir c) =
     concat (map (\<lambda>l. if pane_id l = k then [l, Leaf (new_leaf_id clock c) None None] else [l])
       (getLeaves n))"
proof -
  have "getLeaves (split_root clock n k dir c) = concat (map (\<lambda>l. if pane_id l = k
      then getLeaves (fst (split_leaf clock dir l c)) else [l]) (getLeaves n))"
    unfolding split_root_def by (rule getLeaves_replace_pure) (simp_all add: assms)
  also have "\<dots> = concat (map (\<lambda>l. if pane_id l = k then [l, Leaf (new_leaf_id clock c) None None] else [l])
       (getLeaves n))"
    by (rule arg_cong [where f = concat], rule map_cong) (auto dest!: getLeaves_Leaf)
  finally show ?thesis .
qed

lemma node_ids_split_root:
  "wf_tree n \<Longrightarrow> k \<in> set (leaf_ids n) \<Longrightarrow>
     set (node_ids (split_root clock n k dir c)) =
       insert (new_split_id clock c) (insert (new_leaf_id clock c) (set (node_ids n)))"
proof (induction n)
  case (Split i dir' a b z)
  from Split.prems have "wf_tree a" "wf_tree b" by simp_all
  with Split.IH show ?case
    by (rule_tac leaf_in_one_child [OF Split.prems])
       (simp_all add: split_root_simps split_root_miss insert_commute)
qed (simp add: split_root_simps insert_commute)

lemma wf_tree_split_root:
  assumes "wf_tree n" "k \<in> set (leaf_ids n)" "new_split_id clock c \<notin> set (node_ids n)"
    "new_leaf_id clock c \<notin> set (node_ids n)" "new_split_id clock c \<noteq> new_leaf_id clock c"
  shows "wf_tree (split_root clock n k dir c)"
  using assms
proof (induction n)
  case (Split i dir' a b z)
  from Split.prems have wf: "wf_tree a" "wf_tree b" by simp_all
  from leaf_in_one_child [OF Split.prems(1,2)] show ?case
  proof cases
    case 1
    with Split.IH(1) Split.prems wf node_ids_split_root [of a k clock dir c] show ?thesis
      by (auto simp: split_root_simps split_root_miss)
  next
    case 2
    with Split.IH(2) Split.prems wf node_ids_split_root [of b k clock dir c] show ?thesis
      by (auto simp: split_root_simps split_root_miss)
  qed
qed (auto simp: split_root_simps)

subsection \<open>Closing\<close>

lemma is_leaf_with_iff: "is_leaf_with n k \<longleftrightarrow> is_Leaf n \<and> k \<in> set (leaf_ids n)"
  by (cases n) auto

lemma closePaneInNode_None_iff:
  "closePaneInNode n k = None \<longleftrightarrow> is_Leaf n \<or> k \<notin> set (leaf_ids n)"
proof (induction n)
  case (Split i dir a b z)
  then show ?case by (auto simp: is_leaf_with_iff option.case_eq_if)
qed simp

lemma closePaneInNode_Split_cases:
  assumes "closePaneInNode (Split i dir a b z) k = Some m"
  obtains (first) "is_Leaf a" "k \<in> set (leaf_ids a)" "m = b"
  | (second) "is_Leaf b" "k \<in> set (leaf_ids b)" "m = a"
  | (left) a' where "closePaneInNode a k = Some a'" "m = Split i dir a' b z"
  | (right) b' where "closePaneInNode b k = Some b'" "m = Split i dir a b' z"
  using assms by (auto simp: is_leaf_with_iff split: if_splits option.splits)

lemma filter_leaves_absent:
  "k \<notin> set (node_ids n) \<Longrightarrow> filter (\<lambda>l. pane_id l \<noteq> k) (getLeaves n) = getLeaves n"
  using getLeaves_id_in_node_ids by (force simp: filter_id_conv)

lemma filter_leaves_single:
  "is_Leaf n \<Longrightarrow> k \<in> set (leaf_ids n) \<Longrightarrow> filter (\<lambda>l. pane_id l \<noteq> k) (getLeaves n) = []"
  by (cases n) auto

lemma closePaneInNode_Some:
  "wf_tree n \<Longrightarrow> closePaneInNode n k = Some m \<Longrightarrow>
     getLeaves m = filter (\<lambda>l. pane_id l \<noteq> k) (getLeaves n) \<and>
     set (node_ids m) \<subseteq> set (node_ids n) \<and> wf_tree m"
proof (induction n arbitrary: m)
  case (Split i dir a b z)
  have "k \<in> set (leaf_ids (Split i dir a b z))"
    using Split.prems(2) closePaneInNode_None_iff [of "Split i dir a b z" k] by auto
  then have one: "k \<in> set (leaf_ids a) \<and> k \<notin> set (node_ids b) \<and> k \<notin> set (leaf_ids b) \<or>
      k \<in> set (leaf_ids b) \<and> k \<notin> set (node_ids a) \<and> k \<notin> set (leaf_ids a)"
    by (rule leaf_in_one_child [OF Split.prems(1)]) simp_all
  from Split.prems have wf: "wf_tree a" "wf_tree b" "set (node_ids a) \<inter> set (node_ids b) = {}"
    "i \<notin> set (node_ids a)" "i \<notin> set (node_ids b)" by simp_all
  have inl: "k \<in> set (leaf_ids x)" if "closePaneInNode x k = Some y" for x y
    using that closePaneInNode_None_iff [of x k] by auto
  from Split.prems(2) show ?case
  proof (cases rule: closePaneInNode_Split_cases)
    case first
    with one wf show ?thesis
      by (auto simp: filter_leaves_single filter_leaves_absent)
  next
    case second
    with one wf show ?thesis
      by (auto simp: filter_leaves_single filter_leaves_absent)
  next
    case (left a')
    with Split.IH(1) [OF wf(1) left(1)] one wf inl [OF left(1)] show ?thesis
      by (auto simp: filter_leaves_absent)
  next
    case (right b')
    with Split.IH(2) [OF wf(2) right(1)] one wf inl [OF right(1)] show ?thesis
      by (auto simp: filter_leaves_absent)
  qed
qed simp

lemma closePane_wf:
  "closePane n k =
     (if countLeaves n > 1 \<and> k \<in> set (leaf_ids n) then the (closePaneInNode n k) else n)"
proof (cases n)
  case (Split i dir a b z)
  have "countLeaves n > 1"
    using Split countLeaves_pos [of a] countLeaves_pos [of b] by (simp del: countLeaves_pos)
  with Split closePaneInNode_None_iff [of n k] show ?thesis
    by (auto simp: closePane_def simp del: closePaneInNode.simps split: option.splits)
qed (simp add: closePane_def)

lemma getLeaves_closePane:
  assumes "wf_tree n" "countLeaves n > 1"
  shows "getLeaves (closePane n k) = filter (\<lambda>l. pane_id l \<noteq> k) (getLeaves n)"
proof (cases "k \<in> set (leaf_ids n)")
  case True
  with assms have "closePaneInNode n k \<noteq> None"
    by (cases n) (auto simp: closePaneInNode_None_iff simp del: closePaneInNode.simps)
  with True assms closePaneInNode_Some [OF assms(1), of k] show ?thesis
    by (auto simp: closePane_wf)
next
  case False
  then have "filter (\<lambda>l. pane_id l \<noteq> k) (getLeaves n) = getLeaves n"
    by (auto simp: filter_id_conv leaf_ids_def)
  with False show ?thesis by (simp add: closePane_wf)
qed

lemma closePane_inv:
  assumes "wf_tree n"
  shows "wf_tree (closePane n k)" "set (node_ids (closePane n k)) \<subseteq> set (node_ids n)"
  using assms closePaneInNode_Some [OF assms, of k] closePaneInNode_None_iff [of n k]
  by (auto simp: closePane_wf simp del: closePaneInNode.simps) (cases n; fastforce)+

subsection \<open>Fresh identifiers\<close>

lemma pane_id_of_inject [simp]: "pane_id_of t c = pane_id_of t' c' \<longleftrightarrow> t = t' \<and> c = c'"
proof
  assume "pane_id_of t c = pane_id_of t' c'"
  then have "nat_str t @ CHR ''-'' # nat_str c = nat_str t' @ CHR ''-'' # nat_str c'"
    by (simp add: pane_id_of_def)
  from append_sep_inject [OF this nat_str_no_dash nat_str_no_dash]
  show "t = t' \<and> c = c'" by simp
qed simp

text \<open>The ids of a session: every id of the tree was produced by one of the first \<open>c\<close> calls
  or was there when the layout was restored.\<close>

definition ids_below :: "(nat \<Rightarrow> nat) \<Rightarrow> nat \<Rightarrow> pane_node \<Rightarrow> bool" where
  "ids_below clock c n \<longleftrightarrow> (\<forall>j>c. pane_id_of (clock j) j \<notin> set (node_ids n))"

lemma wf_tree_splitPane:
  assumes "wf_tree n" "ids_below clock c n"
  shows "wf_tree (fst (splitPane clock n k dir c))"
  using assms wf_tree_split_root [OF assms(1), of k clock c dir]
  by (simp add: splitPane_wf ids_below_def)

lemma ids_below_mono: "ids_below clock c n \<Longrightarrow> c \<le> c' \<Longrightarrow> set (node_ids m) \<subseteq> set (node_ids n) \<Longrightarrow>
    ids_below clock c' m"
  by (auto simp: ids_below_def)

lemma ids_below_splitPane:
  assumes "wf_tree n" "ids_below clock c n"
  shows "ids_below clock (snd (splitPane clock n k dir c)) (fst (splitPane clock n k dir c))"
  using assms by (auto simp: splitPane_wf ids_below_def node_ids_split_root)

lemma close_new_leaf:
  assumes "wf_tree n" "k \<in> set (leaf_ids n)" "new_leaf_id clock c \<notin> set (node_ids n)"
    "new_split_id clock c \<noteq> new_leaf_id clock c"
  shows "closePaneInNode (split_root clock n k dir c) (new_leaf_id clock c) = Some n"
  using assms
proof (induction n)
  case (Split i dir' a b z)
  from Split.prems have wf: "wf_tree a" "wf_tree b" and
    absent: "new_leaf_id clock c \<notin> set (leaf_ids a)" "new_leaf_id clock c \<notin> set (leaf_ids b)"
    using leaf_ids_subset [of a] leaf_ids_subset [of b] by auto
  have noleaf: "\<not> is_leaf_with (split_root clock x k dir c) (new_leaf_id clock c)"
    if "k \<in> set (leaf_ids x)" "new_leaf_id clock c \<notin> set (leaf_ids x)" for x
    using that by (cases x) (auto simp: split_root_def)
  have absent_None: "closePaneInNode x (new_leaf_id clock c) = None"
    if "new_leaf_id clock c \<notin> set (leaf_ids x)" for x
    using that by (simp add: closePaneInNode_None_iff)
  from leaf_in_one_child [OF Split.prems(1,2)] show ?case
  proof cases
    case 1
    with Split.IH(1) Split.prems wf absent noleaf [of a] show ?thesis
      by (simp add: split_root_simps split_root_miss is_leaf_with_iff)
  next
    case 2
    with Split.IH(2) Split.prems wf absent noleaf [of b] show ?thesis
      by (simp add: split_root_simps split_root_miss is_leaf_with_iff absent_None)
  qed
qed (simp add: split_root_simps)

subsection \<open>The documents of a tree\<close>

text \<open>What the panes show, read off the leaves: \<open>None\<close> where there is no such leaf,
  \<open>Some None\<close> for an empty pane.\<close>

definition docs :: "pane_node \<Rightarrow> string \<Rightarrow> string option option" where
  "docs n = map_of (map (\<lambda>l. (pane_id l, documentPath l)) (getLeaves n))"

lemma dom_docs: "dom (docs n) = set (leaf_ids n)"
  by (auto simp: docs_def dom_map_of_conv_image_fst leaf_ids_def image_image)

lemma docs_None_iff: "docs n k = None \<longleftrightarrow> k \<notin> set (leaf_ids n)"
  using dom_docs [of n] by auto

lemma docs_Some_iff: "wf_tree n \<Longrightarrow> docs n k = Some d \<longleftrightarrow> (\<exists>s. Leaf k d s \<in> set (getLeaves n))"
proof -
  assume "wf_tree n"
  then have "distinct (map fst (map (\<lambda>l. (pane_id l, documentPath l)) (getLeaves n)))"
    using distinct_leaf_ids [of n] by (simp add: leaf_ids_def comp_def)
  then have "docs n k = Some d \<longleftrightarrow> (\<exists>l\<in>set (getLeaves n). pane_id l = k \<and> documentPath l = d)"
    unfolding docs_def by (auto simp del: map_map)
  also have "\<dots> \<longleftrightarrow> (\<exists>s. Leaf k d s \<in> set (getLeaves n))"
    by (metis getLeaves_Leaf pane_node.sel)
  finally show ?thesis .
qed

lemma docs_findPane:
  "wf_tree n \<Longrightarrow> docs n k = Some d \<longleftrightarrow> (\<exists>i s. findPane n k = Some (Leaf i d s))"
  using docs_Some_iff findPane_leaf findPane_leafD by blast

lemma docs_cong_leaves:
  "map (\<lambda>l. (pane_id l, documentPath l)) (getLeaves n) = map (\<lambda>l. (pane_id l, documentPath l)) (getLeaves m)
    \<Longrightarrow> docs n = docs m"
  by (simp add: docs_def)

lemma map_of_update_all:
  "map_of (map (\<lambda>l. (f l, if f l = k then d else g l)) xs) =
     (if k \<in> f ` set xs then (map_of (map (\<lambda>l. (f l, g l)) xs))(k \<mapsto> d)
      else map_of (map (\<lambda>l. (f l, g l)) xs))"
  by (induction xs) (auto simp: fun_eq_iff)

lemma docs_openDocument:
  assumes "wf_tree n"
  shows "docs (openDocumentInPane n k d) = (if docs n k = None then docs n else (docs n)(k \<mapsto> d))"
proof -
  have "map (\<lambda>l. (pane_id l, documentPath l)) (getLeaves (openDocumentInPane n k d)) =
      map (\<lambda>l. (pane_id l, if pane_id l = k then d else documentPath l)) (getLeaves n)"
    by (auto simp: getLeaves_openDocument [OF assms] dest!: getLeaves_Leaf)
  then show ?thesis
    by (simp add: docs_def map_of_update_all docs_None_iff [unfolded docs_def] leaf_ids_def)
qed

lemma set_document_same:
  "wf_tree n \<Longrightarrow> Leaf k d s \<in> set (getLeaves n) \<Longrightarrow> replaceNode_pure n k (set_document d) = n"
proof (induction n)
  case (Split i dir a b z)
  from Split.prems have leaf: "k \<in> set (leaf_ids (Split i dir a b z))" by (auto simp: leaf_ids_iff)
  from leaf_in_one_child [OF Split.prems(1) leaf] show ?case
  proof cases
    case 1
    then have "Leaf k d s \<in> set (getLeaves a)"
      using Split.prems(2) by (auto simp: leaf_ids_iff)
    with 1 Split.IH(1) Split.prems(1) show ?thesis by simp
  next
    case 2
    then have "Leaf k d s \<in> set (getLeaves b)"
      using Split.prems(2) by (auto simp: leaf_ids_iff)
    with 2 Split.IH(2) Split.prems(1) show ?thesis by simp
  qed
qed auto

text \<open>A collection of named slots: what a pane tree promises to the operations that move
  documents around.\<close>

locale document_slots =
  fixes slots :: "'t \<Rightarrow> 'k \<Rightarrow> 'd option"
    and put :: "'t \<Rightarrow> 'k \<Rightarrow> 'd \<Rightarrow> 't"
    and inv :: "'t \<Rightarrow> bool"
  assumes inv_put: "inv t \<Longrightarrow> inv (put t k d)"
    and slots_put: "inv t \<Longrightarrow> slots (put t k d) = (if slots t k = None then slots t else (slots t)(k \<mapsto> d))"
    and put_put: "inv t \<Longrightarrow> put (put t k d) k d' = put t k d'"
    and put_commute: "inv t \<Longrightarrow> k \<noteq> k' \<Longrightarrow> put (put t k d) k' d' = put (put t k' d') k d"
    and put_same: "inv t \<Longrightarrow> slots t k = Some d \<Longrightarrow> put t k d = t"
begin

lemma slots_exchange:
  assumes "inv t" "slots t i = Some a" "slots t j = Some b"
  shows "slots (put (put t i b) j a) = (slots t)(i \<mapsto> b, j \<mapsto> a)"
  using assms by (auto simp: slots_put inv_put)

lemma exchange_twice:
  assumes "inv t" "slots t i = Some a" "slots t j = Some b"
  shows "put (put (put (put t i b) j a) i a) j b = t"
proof (cases "i = j")
  case True
  with assms show ?thesis by (simp add: put_put put_same inv_put)
next
  case False
  have "put (put (put t i b) j a) i a = put (put t i a) j a"
    using assms False put_commute [of "put t i b" j i a a] by (simp add: inv_put put_put)
  then show ?thesis using assms by (simp add: put_put put_same inv_put)
qed

lemma slots_transfer:
  assumes "inv t" "slots t i = Some a" "slots t j \<noteq> None" "i \<noteq> j"
  shows "slots (put (put t i e) j a) = (slots t)(i \<mapsto> e, j \<mapsto> a)"
  using assms by (auto simp: slots_put inv_put)

end

interpretation panes: document_slots docs openDocumentInPane wf_tree
proof unfold_locales
  fix n k k' :: _ and d d'
  assume wf: "wf_tree n"
  show "wf_tree (openDocumentInPane n k d)"
    using wf wf_tree_cong [of "openDocumentInPane n k d" n] by simp
  show "docs (openDocumentInPane n k d) = (if docs n k = None then docs n else (docs n)(k \<mapsto> d))"
    using wf by (rule docs_openDocument)
  show "openDocumentInPane (openDocumentInPane n k d) k d' = openDocumentInPane n k d'"
    unfolding openDocumentInPane_def by (induction n) auto
  show "openDocumentInPane (openDocumentInPane n k d) k' d' =
      openDocumentInPane (openDocumentInPane n k' d') k d" if "k \<noteq> k'"
    unfolding openDocumentInPane_def using that by (induction n) auto
  show "openDocumentInPane n k d = n" if "docs n k = Some d"
  proof -
    from wf that obtain s where "Leaf k d s \<in> set (getLeaves n)" by (auto simp: docs_Some_iff)
    with wf show ?thesis unfolding openDocumentInPane_def by (rule set_document_same)
  qed
qed

subsection \<open>Cycling through the leaves\<close>

lemma findIndex_distinct:
  assumes "distinct (map f xs)" "j < length xs"
  shows "findIndex (\<lambda>x. f x = f (xs ! j)) xs = int j"
proof -
  have "findIndex (\<lambda>x. f x = f (xs ! j)) xs \<noteq> -1"
    using assms(2) by (force simp: findIndex_neg_iff)
  from findIndex_split [OF this] obtain pre x post where
    xs: "xs = pre @ x # post" and x: "f x = f (xs ! j)" and
    idx: "findIndex (\<lambda>x. f x = f (xs ! j)) xs = int (length pre)" by metis
  have lt: "length pre < length xs" using xs by simp
  moreover have "xs ! length pre = x" using xs by simp
  ultimately have "map f xs ! length pre = map f xs ! j"
    using x assms(2) by simp
  with lt have "map f xs ! length pre = map f xs ! j" "length pre < length xs" by simp_all
  then have "length pre = j"
    using assms by (simp add: nth_eq_iff_index_eq [symmetric] del: nth_map)
  with idx show ?thesis by simp
qed

lemma leaf_index:
  assumes "wf_tree n" "j < countLeaves n"
  shows "findIndex (\<lambda>l. pane_id l = leaf_ids n ! j) (getLeaves n) = int j"
  using findIndex_distinct [of pane_id "getLeaves n" j] assms distinct_leaf_ids [of n]
  by (simp add: leaf_ids_def)

lemma getNextLeafId_nth:
  assumes "wf_tree n" "j < countLeaves n" "countLeaves n > 1"
  shows "getNextLeafId n (leaf_ids n ! j) = Some (leaf_ids n ! (Suc j mod countLeaves n))"
proof -
  have "nat ((int j + 1) mod int (countLeaves n)) = Suc j mod countLeaves n"
    by (simp add: nat_mod_distrib nat_add_distrib)
  with assms show ?thesis
    by (simp add: getNextLeafId_def Let_def leaf_index) (simp add: leaf_ids_def)
qed

lemma getPreviousLeafId_nth:
  assumes "wf_tree n" "j < countLeaves n" "countLeaves n > 1"
  shows "getPreviousLeafId n (leaf_ids n ! j) =
    Some (leaf_ids n ! ((j + countLeaves n - 1) mod countLeaves n))"
proof -
  have "int j - 1 + int (countLeaves n) = int (j + countLeaves n - 1)" using assms by simp
  then have "nat ((int j - 1 + int (countLeaves n)) mod int (countLeaves n)) =
      (j + countLeaves n - 1) mod countLeaves n"
    by (metis nat_int of_nat_mod)
  with assms show ?thesis
    by (simp add: getPreviousLeafId_def Let_def leaf_index) (simp add: leaf_ids_def)
qed

lemma getNextLeafId_iterate:
  assumes "wf_tree n" "j < countLeaves n" "countLeaves n > 1"
  shows "((\<lambda>p. Option.bind p (getNextLeafId n)) ^^ m) (Some (leaf_ids n ! j)) =
    Some (leaf_ids n ! ((j + m) mod countLeaves n))"
proof (induction m)
  case (Suc m)
  from assms have "(j + m) mod countLeaves n < countLeaves n" by simp
  from getNextLeafId_nth [OF assms(1) this assms(3)] Suc show ?case
    by (simp add: mod_Suc_eq)
qed (use assms in simp)

subsection \<open>Directional navigation\<close>

lemma getPathToLeaf_None_iff: "getPathToLeaf n k = None \<longleftrightarrow> k \<notin> set (leaf_ids n)"
  by (induction n) (auto split: option.splits)

fun subtrees :: "pane_node \<Rightarrow> pane_node set" where
  "subtrees (Leaf i d s) = {Leaf i d s}"
| "subtrees (Split i dir a b z) = insert (Split i dir a b z) (subtrees a \<union> subtrees b)"

lemma subtrees_refl [simp, intro]: "n \<in> subtrees n"
  by (cases n) auto

text \<open>Every step of a path is a split of the tree whose chosen child leads on to the leaf.\<close>

lemma getPathToLeaf_step:
  "getPathToLeaf n k = Some p \<Longrightarrow> (sp, ci) \<in> set p \<Longrightarrow>
    sp \<in> subtrees n \<and> \<not> is_Leaf sp \<and>
    (ci = 0 \<and> k \<in> set (leaf_ids (child0 sp)) \<or> ci = 1 \<and> k \<in> set (leaf_ids (child1 sp)))"
proof (induction n arbitrary: p)
  case (Split i dir a b z)
  have hit: "k \<in> set (leaf_ids x)" if "getPathToLeaf x k = Some q" for x q
    using that getPathToLeaf_None_iff [of x k] by auto
  show ?case
  proof (cases "getPathToLeaf a k")
    case None
    with Split.prems obtain q where "getPathToLeaf b k = Some q" "p = (Split i dir a b z, 1) # q"
      by (auto split: option.splits)
    with Split.IH(2) [of q] Split.prems hit [of b q] show ?thesis by auto
  next
    case (Some q)
    with Split.prems Split.IH(1) [of q] hit [of a q] show ?thesis by auto
  qed
qed (auto split: if_splits)

lemma wf_subtrees:
  "wf_tree n \<Longrightarrow> m \<in> subtrees n \<Longrightarrow> wf_tree m \<and> set (leaf_ids m) \<subseteq> set (leaf_ids n)"
  by (induction n) auto

lemma hd_last_leaf_ids:
  "pane_id (hd (getLeaves n)) \<in> set (leaf_ids n)" "pane_id (last (getLeaves n)) \<in> set (leaf_ids n)"
  by (simp_all add: leaf_ids_def)

lemma find_SomeD: "find P xs = Some x \<Longrightarrow> x \<in> set xs \<and> P x"
  by (auto simp: find_Some_iff)

lemma getPaneInDirection_step:
  assumes "getPaneInDirection rt current dir = Some target"
  obtains sp ci path where "getPathToLeaf rt current = Some path" "(sp, ci) \<in> set path"
    "direction sp = (if dir \<in> {DirLeft, DirRight} then Horizontal else Vertical)"
    "ci = (if dir \<in> {DirLeft, DirUp} then 1 else 0)"
    "target = (if dir \<in> {DirLeft, DirUp} then pane_id (last (getLeaves (child0 sp)))
      else pane_id (hd (getLeaves (child1 sp))))"
  using assms
  by (cases dir) (fastforce simp: getPaneInDirection_def simp del: find.simps
    split: option.splits list.splits prod.splits dest!: find_SomeD)+

lemma countLeaves_split_root:
  assumes "wf_tree n" "k \<in> set (leaf_ids n)"
  shows "countLeaves (split_root clock n k dir c) = Suc (countLeaves n)"
  using assms
proof (induction n)
  case (Split i dir' a b z)
  from Split.prems have "wf_tree a" "wf_tree b" by simp_all
  with Split.IH show ?case
    by (rule_tac leaf_in_one_child [OF Split.prems])
       (simp_all add: split_root_simps split_root_miss)
qed (simp add: split_root_simps)

section \<open>Properties\<close>


text \<open>C6. Closing a pane of a tree with at least two leaves removes exactly that leaf, keeps the
  order and the contents of the others, and keeps ids distinct; the only pane is never closed.\<close>

theorem closePane_correct:
  assumes "wf_tree rt"
  shows "wf_tree (closePane rt paneId) \<and>
    getLeaves (closePane rt paneId) =
      (if countLeaves rt > 1 then filter (\<lambda>l. pane_id l \<noteq> paneId) (getLeaves rt) else getLeaves rt)"
  using assms closePane_inv [OF assms] getLeaves_closePane [OF assms]
  by (simp add: closePane_wf)

text \<open>Closing the pane that a split just created gives back the tree before the split.\<close>

theorem closePane_splitPane:
  assumes "wf_tree rt" "ids_below clock c rt" "countLeaves rt < MAX_PANES" "paneId \<in> set (leaf_ids rt)"
  shows "closePane (fst (splitPane clock rt paneId dir c)) (pane_id_of (clock (c + 2)) (c + 2)) = rt"
proof -
  have "closePaneInNode (split_root clock rt paneId dir c) (new_leaf_id clock c) = Some rt"
    using assms by (intro close_new_leaf) (simp_all add: ids_below_def)
  then have "closePane (split_root clock rt paneId dir c) (new_leaf_id clock c) = rt"
    by (cases "split_root clock rt paneId dir c")
       (simp_all add: closePane_def del: closePaneInNode.simps(2))
  then show ?thesis
    using assms by (simp add: splitPane_wf)
qed

text \<open>Swapping the documents of two panes exchanges exactly these two entries of the
  pane-to-document map, and swapping the same two panes again restores the tree.\<close>

theorem swapPaneDocuments_correct:
  assumes "wf_tree rt" "docs rt idA = Some a" "docs rt idB = Some b"
  shows "docs (swapPaneDocuments rt idA idB) = (docs rt)(idA \<mapsto> b, idB \<mapsto> a) \<and>
    swapPaneDocuments (swapPaneDocuments rt idA idB) idA idB = rt"
proof -
  have swap: "swapPaneDocuments n idA idB = openDocumentInPane (openDocumentInPane n idA y) idB x"
    if "wf_tree n" "docs n idA = Some x" "docs n idB = Some y" for n x y
    using that by (auto simp: docs_findPane swapPaneDocuments_def)
  let ?t = "openDocumentInPane (openDocumentInPane rt idA b) idB a"
  have one: "swapPaneDocuments rt idA idB = ?t" using assms by (rule swap)
  have dt: "docs ?t = (docs rt)(idA \<mapsto> b, idB \<mapsto> a)" using assms by (rule panes.slots_exchange)
  have "swapPaneDocuments ?t idA idB = openDocumentInPane (openDocumentInPane ?t idA a) idB b"
  proof (rule swap)
    show "wf_tree ?t" using assms by (simp add: panes.inv_put)
    show "docs ?t idA = Some b" "docs ?t idB = Some a"
      using dt assms by auto
  qed
  then show ?thesis using one dt panes.exchange_twice [OF assms] by simp
qed

text \<open>Moving a document to another leaf empties the source pane, shows the document in the
  target pane and touches no other pane.\<close>

theorem moveDocument_correct:
  assumes "wf_tree rt" "docs rt source = Some d" "target \<in> set (leaf_ids rt)" "source \<noteq> target"
  shows "docs (moveDocumentBetweenPanes rt source target) = (docs rt)(source \<mapsto> None, target \<mapsto> d)"
proof -
  have "moveDocumentBetweenPanes rt source target =
      openDocumentInPane (openDocumentInPane rt source None) target d"
    using assms(1,2) by (auto simp: docs_findPane moveDocumentBetweenPanes_def)
  then show ?thesis
    using panes.slots_transfer [of rt source d target None] assms by (simp add: docs_None_iff)
qed

text \<open>Cycling with \<open>next pane\<close> from the \<open>j\<close>-th leaf visits the leaves in order and wraps
  around, so after as many steps as there are leaves the focus is back where it was, and
  \<open>previous pane\<close> undoes \<open>next pane\<close>.\<close>

theorem leaf_cycle:
  assumes "wf_tree rt" "j < countLeaves rt" "countLeaves rt > 1"
  shows "((\<lambda>p. Option.bind p (getNextLeafId rt)) ^^ m) (Some (leaf_ids rt ! j)) =
      Some (leaf_ids rt ! ((j + m) mod countLeaves rt)) \<and>
    Option.bind (getNextLeafId rt (leaf_ids rt ! j)) (getPreviousLeafId rt) = Some (leaf_ids rt ! j)"
proof
  show "((\<lambda>p. Option.bind p (getNextLeafId rt)) ^^ m) (Some (leaf_ids rt ! j)) =
      Some (leaf_ids rt ! ((j + m) mod countLeaves rt))"
    using assms by (rule getNextLeafId_iterate)
  have "(Suc j mod countLeaves rt + countLeaves rt - 1) mod countLeaves rt = j"
    using assms by (cases "Suc j = countLeaves rt") simp_all
  with assms show "Option.bind (getNextLeafId rt (leaf_ids rt ! j)) (getPreviousLeafId rt) = Some (leaf_ids rt ! j)"
    by (simp add: getNextLeafId_nth getPreviousLeafId_nth)
qed

text \<open>Directional navigation always lands on another leaf of the tree, on the other side of
  a split of the right orientation that contains the current pane.\<close>

theorem getPaneInDirection_correct:
  assumes "wf_tree rt" "getPaneInDirection rt current dir = Some target"
  shows "target \<in> set (leaf_ids rt) \<and> target \<noteq> current \<and>
    (\<exists>i a b z. Split i (if dir \<in> {DirLeft, DirRight} then Horizontal else Vertical) a b z \<in> subtrees rt \<and>
      (if dir \<in> {DirLeft, DirUp}
       then current \<in> set (leaf_ids b) \<and> target = last (leaf_ids a)
       else current \<in> set (leaf_ids a) \<and> target = hd (leaf_ids b)))"
proof -
  obtain sp ci path where path: "getPathToLeaf rt current = Some path" "(sp, ci) \<in> set path"
    and dirs: "direction sp = (if dir \<in> {DirLeft, DirRight} then Horizontal else Vertical)"
      "ci = (if dir \<in> {DirLeft, DirUp} then 1 else 0)"
    and t: "target = (if dir \<in> {DirLeft, DirUp} then pane_id (last (getLeaves (child0 sp)))
      else pane_id (hd (getLeaves (child1 sp))))"
    using assms(2) by (rule getPaneInDirection_step)
  from getPathToLeaf_step [OF path] obtain i a b z where
    sp: "sp = Split i (direction sp) a b z" "sp \<in> subtrees rt"
    and cur: "current \<in> set (leaf_ids (if dir \<in> {DirLeft, DirUp} then b else a))"
    using dirs(2) by (cases sp) (auto split: if_splits)
  have tgt: "target = (if dir \<in> {DirLeft, DirUp} then last (leaf_ids a) else hd (leaf_ids b))"
    using t sp(1) by (cases sp) (auto simp: leaf_ids_def last_map hd_map)
  have wf: "wf_tree (Split i (direction sp) a b z)" "set (leaf_ids (Split i (direction sp) a b z)) \<subseteq> set (leaf_ids rt)"
    using wf_subtrees [OF assms(1) sp(2)] sp(1) by simp_all
  then have "set (leaf_ids a) \<inter> set (leaf_ids b) = {}"
    using leaf_ids_subset [of a] leaf_ids_subset [of b] by auto
  then have "last (leaf_ids a) \<notin> set (leaf_ids b)" "hd (leaf_ids b) \<notin> set (leaf_ids a)"
    by (meson disjoint_iff last_in_set hd_in_set leaf_ids_nonempty)+
  then have "target \<in> set (leaf_ids rt)" "target \<noteq> current"
    using wf cur tgt by (auto split: if_splits)
  moreover have "Split i (if dir \<in> {DirLeft, DirRight} then Horizontal else Vertical) a b z \<in> subtrees rt"
    using sp dirs(1) by simp
  moreover have "if dir \<in> {DirLeft, DirUp} then current \<in> set (leaf_ids b) \<and> target = last (leaf_ids a)
      else current \<in> set (leaf_ids a) \<and> target = hd (leaf_ids b)"
    using cur tgt by (cases "dir \<in> {DirLeft, DirUp}") simp_all
  ultimately show ?thesis by blast
qed

section \<open>Witnesses\<close>

text \<open>A tree with three panes, the middle one empty.\<close>

definition sample_tree :: pane_node where
  "sample_tree = Split ''s'' Horizontal (Leaf ''a'' (Some ''x.json'') None)
     (Split ''t'' Horizontal (Leaf ''b'' None None) (Leaf ''c'' (Some ''y.json'') None) (30, 70)) (50, 50)"

lemma sample_tree_ids: "node_ids sample_tree = [''s'', ''a'', ''t'', ''b'', ''c'']"
  by (simp add: sample_tree_def)

lemma sample_tree_leaf_ids: "leaf_ids sample_tree = [''a'', ''b'', ''c'']"
  by (simp add: sample_tree_def)

lemma sample_tree_wf: "wf_tree sample_tree"
  by (simp add: wf_tree_def sample_tree_ids)

lemma sample_tree_below: "ids_below (\<lambda>_. 7) c sample_tree"
  by (auto simp: ids_below_def sample_tree_ids pane_id_of_def)

lemma sample_tree_count: "countLeaves sample_tree = 3"
  by (simp add: sample_tree_def)

lemma sample_tree_docs:
  "docs sample_tree ''a'' = Some (Some ''x.json'')" "docs sample_tree ''b'' = Some None"
  by (simp_all add: docs_def sample_tree_def)

lemma sample_tree_leaves: "getLeaves sample_tree =
    [Leaf ''a'' (Some ''x.json'') None, Leaf ''b'' None None, Leaf ''c'' (Some ''y.json'') None]"
  by (simp add: sample_tree_def)


theorem closePane_correct_witness:
  "leaf_ids (closePane sample_tree ''b'') = [''a'', ''c'']"
  using closePane_correct [OF sample_tree_wf, of "''b''"]
  by (simp add: leaf_ids_def sample_tree_count sample_tree_leaves)

theorem closePane_splitPane_witness:
  "closePane (fst (splitPane (\<lambda>_. 7) sample_tree ''b'' Vertical 0)) (pane_id_of 7 2) = sample_tree"
  using closePane_splitPane [OF sample_tree_wf sample_tree_below [of 0], of "''b''" Vertical]
  by (simp add: sample_tree_count sample_tree_leaf_ids MAX_PANES_def numeral_2_eq_2)

theorem swapPaneDocuments_witness:
  "docs (swapPaneDocuments sample_tree ''a'' ''b'') ''b'' = Some (Some ''x.json'')"
  using swapPaneDocuments_correct [OF sample_tree_wf sample_tree_docs] by simp

theorem moveDocument_witness:
  "docs (moveDocumentBetweenPanes sample_tree ''a'' ''b'') ''a'' = Some None"
  using moveDocument_correct [OF sample_tree_wf sample_tree_docs(1), of "''b''"]
  by (simp add: sample_tree_leaf_ids)

theorem leaf_cycle_witness:
  "((\<lambda>p. Option.bind p (getNextLeafId sample_tree)) ^^ 4) (Some ''c'') = Some ''a''"
  using leaf_cycle [OF sample_tree_wf, of 2 4] by (simp add: sample_tree_count sample_tree_leaf_ids)

text \<open>The witness is also the case in which the outermost split wins over the nearest one:
  from the rightmost of three panes in a row, \<open>left\<close> leads to the leftmost.\<close>

theorem getPaneInDirection_witness:
  "getPaneInDirection sample_tree ''c'' DirLeft = Some ''a'' \<and> ''a'' \<in> set (leaf_ids sample_tree)"
proof -
  have "getPaneInDirection sample_tree ''c'' DirLeft = Some ''a''"
    by (simp add: getPaneInDirection_def sample_tree_def)
  with getPaneInDirection_correct [OF sample_tree_wf this] show ?thesis by simp
qed

end
