(* ===== verification/Pane_Layout.thy ===== *)
theory Pane_Layout
  imports Pane_Tree
begin

text \<open>
  The pane layout of the open document: \<open>pane/types.ts\<close> (\<open>PaneLayoutState\<close>),
  \<open>pane/utils/paneLayoutValidation.ts\<close>, \<open>shared/stores/paneLayout.store.ts\<close> and
  \<open>pane/context/PaneLayoutContext.tsx\<close>.  Persisted layouts are untyped JSON, so validation and
  the store work on \<open>json\<close>; \<open>layout_of_json\<close> is the cast \<open>as PaneLayoutState\<close>, defined
  only where the data has the declared types.  A value that went through \<open>JSON.stringify\<close> and
  \<open>JSON.parse\<close> is the same \<open>json\<close>.
\<close>

section \<open>State\<close>

record pane_layout =
  layout_root :: pane_node
  activePaneId :: string
  primaryDocumentPath :: "string option"

definition createDefaultPaneLayout :: pane_layout where
  "createDefaultPaneLayout =
     \<lparr> layout_root = Leaf ''pane-1'' None None, activePaneId = ''pane-1'', primaryDocumentPath = None \<rparr>"

section \<open>Layouts as JSON\<close>

fun direction_json :: "split_direction \<Rightarrow> json" where
  "direction_json Horizontal = JStr ''horizontal''"
| "direction_json Vertical = JStr ''vertical''"

fun path_json :: "string option \<Rightarrow> json" where
  "path_json None = JNull"
| "path_json (Some p) = JStr p"

fun scroll_json :: "scroll_position \<Rightarrow> json" where
  "scroll_json sp = JObj [(''top'', JNum (sp_top sp)), (''left'', JNum (sp_left sp))]"

fun node_json :: "pane_node \<Rightarrow> json" where
  "node_json (Leaf i d s) =
     JObj ([(''type'', JStr ''leaf''), (''id'', JStr i), (''documentPath'', path_json d)] @
       (case s of None \<Rightarrow> [] | Some sp \<Rightarrow> [(''scrollPosition'', scroll_json sp)]))"
| "node_json (Split i dir a b z) =
     JObj [(''type'', JStr ''split''), (''id'', JStr i), (''direction'', direction_json dir),
       (''children'', JArr [node_json a, node_json b]), (''sizes'', JArr [JNum (fst z), JNum (snd z)])]"

definition entry_json :: "pane_layout \<Rightarrow> json" where
  "entry_json st =
     JObj [(''root'', node_json (layout_root st)), (''activePaneId'', JStr (activePaneId st))]"

definition layout_json :: "pane_layout \<Rightarrow> json" where
  "layout_json st =
     JObj [(''root'', node_json (layout_root st)), (''activePaneId'', JStr (activePaneId st)),
       (''primaryDocumentPath'', path_json (primaryDocumentPath st))]"

text \<open>Indexing with \<open>v[i]\<close>; \<open>None\<close> is \<open>undefined\<close>.\<close>

fun get_index :: "json \<Rightarrow> nat \<Rightarrow> json option" where
  "get_index (JArr xs) i = (if i < length xs then Some (xs ! i) else None)"
| "get_index (JStr s) i = (if i < length s then Some (JStr [s ! i]) else None)"
| "get_index (JObj m) i = map_of m (nat_str i)"
| "get_index _ i = None"

lemma size_map_of: "map_of m k = Some (c :: json) \<Longrightarrow> size c < size (JObj m)"
  by (induction m) (auto split: if_splits)

lemma size_get_prop: "get_prop j k = Some c \<Longrightarrow> k \<noteq> ''length'' \<Longrightarrow> size c < size j"
  by (cases j) (auto split: if_splits dest: size_map_of)

lemma size_get_index: "get_index c i = Some a \<Longrightarrow> size a \<le> size c"
proof (cases c)
  case (JArr xs)
  moreover assume "get_index c i = Some a"
  ultimately have "a \<in> set xs" by (auto split: if_splits)
  then have "size a < Suc (size_list size xs)" by (induction xs) auto
  with JArr show ?thesis by simp
qed (auto split: if_splits dest: size_map_of)

lemma size_child:
  "get_prop j ''children'' = Some c \<Longrightarrow> get_index c i = Some a \<Longrightarrow> size a < size j"
  using size_get_prop [of j "''children''" c] size_get_index [of c i a] by simp

abbreviation has_length2 :: "json \<Rightarrow> bool" where
  "has_length2 c \<equiv> get_prop c ''length'' = Some (JNum 2)"

section \<open>Validation\<close>

function validateNode :: "json \<Rightarrow> bool" where
  "validateNode node =
     (if \<not> truthy (Some node) \<or> \<not> truthy (get_prop node ''type'') \<or> \<not> truthy (get_prop node ''id'') then False
      else if get_prop node ''type'' = Some (JStr ''leaf'') then True
      else if get_prop node ''type'' = Some (JStr ''split'') then
        (case get_prop node ''children'' of
           None \<Rightarrow> False
         | Some children \<Rightarrow>
             if \<not> truthy (get_prop node ''direction'') \<or> \<not> truthy (Some children) \<or> \<not> has_length2 children
             then False
             else
               (case get_prop node ''sizes'' of
                  None \<Rightarrow> False
                | Some z \<Rightarrow>
                    if \<not> truthy (Some z) \<or> \<not> has_length2 z \<or>
                       \<not> is_number (get_index z 0) \<or> \<not> is_number (get_index z 1)
                    then False
                    else
                      (case get_index children 0 of None \<Rightarrow> False | Some a \<Rightarrow> validateNode a) \<and>
                      (case get_index children 1 of None \<Rightarrow> False | Some b \<Rightarrow> validateNode b)))
      else False)"
  by pat_completeness auto
termination
  by (relation "measure size") (auto dest: size_child)

declare validateNode.simps [simp del]

text \<open>The tree queries on untyped data: \<open>None\<close> is the \<open>TypeError\<close> of reading a property of
  \<open>undefined\<close> or \<open>null\<close>.\<close>

fun strict_eq :: "json option \<Rightarrow> json option \<Rightarrow> bool" where
  "strict_eq (Some (JStr a)) (Some (JStr b)) = (a = b)"
| "strict_eq (Some (JNum a)) (Some (JNum b)) = (a = b)"
| "strict_eq (Some (JBool a)) (Some (JBool b)) = (a = b)"
| "strict_eq (Some JNull) (Some JNull) = True"
| "strict_eq None None = True"
| "strict_eq _ _ = False"

function json_leaves :: "json \<Rightarrow> json list option" where
  "json_leaves node =
     (if node = JNull then None
      else if get_prop node ''type'' = Some (JStr ''leaf'') then Some [node]
      else
        (case get_prop node ''children'' of
           None \<Rightarrow> None
         | Some children \<Rightarrow>
             (case get_index children 0 of
                None \<Rightarrow> None
              | Some a \<Rightarrow>
                  (case json_leaves a of
                     None \<Rightarrow> None
                   | Some as \<Rightarrow>
                       (case get_index children 1 of
                          None \<Rightarrow> None
                        | Some b \<Rightarrow>
                            (case json_leaves b of
                               None \<Rightarrow> None
                             | Some bs \<Rightarrow> Some (as @ bs)))))))"
  by pat_completeness auto
termination
  by (relation "measure size") (auto dest: size_child)

function json_findPane :: "json \<Rightarrow> json option \<Rightarrow> json option option" where
  "json_findPane node k =
     (if node = JNull then None
      else if strict_eq (get_prop node ''id'') k then Some (Some node)
      else if get_prop node ''type'' = Some (JStr ''split'') then
        (case get_prop node ''children'' of
           None \<Rightarrow> None
         | Some children \<Rightarrow>
             (case get_index children 0 of
                None \<Rightarrow> None
              | Some a \<Rightarrow>
                  (case json_findPane a k of
                     None \<Rightarrow> None
                   | Some (Some n) \<Rightarrow> Some (Some n)
                   | Some None \<Rightarrow>
                       (case get_index children 1 of
                          None \<Rightarrow> None
                        | Some b \<Rightarrow> json_findPane b k))))
      else Some None)"
  by pat_completeness auto
termination
  by (relation "measure (size \<circ> fst)") (auto dest: size_child)

declare json_leaves.simps [simp del] json_findPane.simps [simp del]

text \<open>\<open>validateLayout\<close>; \<open>None\<close> is a thrown exception.\<close>

definition validateLayout :: "json \<Rightarrow> bool option" where
  "validateLayout state =
     (if \<not> truthy (Some state) then Some False
      else
        (case get_prop state ''root'' of
           None \<Rightarrow> Some False
         | Some rt \<Rightarrow>
             if \<not> truthy (Some rt) \<or> \<not> truthy (get_prop state ''activePaneId'') then Some False
             else if \<not> validateNode rt then Some False
             else
               (case json_leaves rt of
                  None \<Rightarrow> None
                | Some leaves \<Rightarrow>
                    if length leaves = 0 \<or> length leaves > MAX_PANES then Some False
                    else
                      (case json_findPane rt (get_prop state ''activePaneId'') of
                         None \<Rightarrow> None
                       | Some None \<Rightarrow> Some False
                       | Some (Some activeLeaf) \<Rightarrow>
                           Some (get_prop activeLeaf ''type'' = Some (JStr ''leaf''))))))"

definition restoreLayout :: "json \<Rightarrow> json" where
  "restoreLayout data =
     (if validateLayout data = Some True then data else layout_json createDefaultPaneLayout)"

section \<open>The cast to a typed layout\<close>

fun path_of_json :: "json option \<Rightarrow> string option option" where
  "path_of_json (Some JNull) = Some None"
| "path_of_json (Some (JStr p)) = Some (Some p)"
| "path_of_json _ = None"

definition scroll_of_json :: "json option \<Rightarrow> scroll_position option option" where
  "scroll_of_json v =
     (case v of
        None \<Rightarrow> Some None
      | Some j \<Rightarrow>
          if is_number (get_prop j ''top'') \<and> is_number (get_prop j ''left'')
          then Some (Some \<lparr> sp_top = num_of (get_prop j ''top''), sp_left = num_of (get_prop j ''left'') \<rparr>)
          else None)"

fun direction_of_json :: "json option \<Rightarrow> split_direction option" where
  "direction_of_json (Some (JStr s)) =
     (if s = ''horizontal'' then Some Horizontal else if s = ''vertical'' then Some Vertical else None)"
| "direction_of_json _ = None"

function node_of_json :: "json \<Rightarrow> pane_node option" where
  "node_of_json node =
     (if \<not> is_string (get_prop node ''id'') then None
      else if get_prop node ''type'' = Some (JStr ''leaf'') then
        (case (path_of_json (get_prop node ''documentPath''), scroll_of_json (get_prop node ''scrollPosition'')) of
           (Some d, Some sp) \<Rightarrow> Some (Leaf (str_of (get_prop node ''id'')) d sp)
         | _ \<Rightarrow> None)
      else if get_prop node ''type'' = Some (JStr ''split'') then
        (case get_prop node ''children'' of
           None \<Rightarrow> None
         | Some children \<Rightarrow>
             (case (direction_of_json (get_prop node ''direction''), get_prop node ''sizes'',
                    get_index children 0, get_index children 1) of
                (Some dir, Some z, Some a, Some b) \<Rightarrow>
                  (case (node_of_json a, node_of_json b) of
                     (Some na, Some nb) \<Rightarrow>
                       if is_number (get_index z 0) \<and> is_number (get_index z 1)
                       then Some (Split (str_of (get_prop node ''id'')) dir na nb
                              (num_of (get_index z 0), num_of (get_index z 1)))
                       else None
                   | _ \<Rightarrow> None)
              | _ \<Rightarrow> None))
      else None)"
  by pat_completeness auto
termination
  by (relation "measure size") (auto dest!: sym [of "Some _" "get_index _ _"] dest: size_child)

declare node_of_json.simps [simp del]

definition layout_of_json :: "json \<Rightarrow> pane_layout option" where
  "layout_of_json j =
     (case get_prop j ''root'' of
        None \<Rightarrow> None
      | Some r \<Rightarrow>
          (case (node_of_json r, path_of_json (get_prop j ''primaryDocumentPath'')) of
             (Some n, Some p) \<Rightarrow>
               if is_string (get_prop j ''activePaneId'')
               then Some \<lparr> layout_root = n, activePaneId = str_of (get_prop j ''activePaneId''),
                 primaryDocumentPath = p \<rparr>
               else None
           | _ \<Rightarrow> None))"

section \<open>The persisted store\<close>

definition PERSISTENCE_VERSION :: rat where
  "PERSISTENCE_VERSION = 1"

definition getDefaultLayoutMap :: json where
  "getDefaultLayoutMap = JObj [(''version'', JNum PERSISTENCE_VERSION), (''layouts'', JObj [])]"

text \<open>\<open>typeof v === "object"\<close> also holds of \<open>null\<close> and of arrays.\<close>

fun typeof_object :: "json option \<Rightarrow> bool" where
  "typeof_object (Some JNull) = True"
| "typeof_object (Some (JArr _)) = True"
| "typeof_object (Some (JObj _)) = True"
| "typeof_object _ = False"

definition validateLayoutMap :: "json \<Rightarrow> json option" where
  "validateLayoutMap data =
     (if \<not> is_record data \<or> get_prop data ''version'' \<noteq> Some (JNum PERSISTENCE_VERSION) \<or>
         \<not> typeof_object (get_prop data ''layouts'')
      then None else Some data)"

text \<open>What \<open>persist\<close> puts into the store at start-up; \<open>None\<close> stands for a missing, empty
  or unparsable item.\<close>

definition paneLayout_getItem :: "json option \<Rightarrow> json option" where
  "paneLayout_getItem raw = (case raw of None \<Rightarrow> None | Some parsed \<Rightarrow> validateLayoutMap parsed)"

definition rehydrate :: "json option \<Rightarrow> json" where
  "rehydrate raw = (case paneLayout_getItem raw of None \<Rightarrow> getDefaultLayoutMap | Some m \<Rightarrow> m)"

definition saveLayoutForDocument :: "string \<Rightarrow> pane_layout \<Rightarrow> json \<Rightarrow> json" where
  "saveLayoutForDocument docPath st lm =
     JObj (map_set ''layouts''
       (JObj (map_set docPath (entry_json st) (spread (get_prop lm ''layouts''))))
       (spread (Some lm)))"

definition clearLayoutForDocument :: "string \<Rightarrow> json \<Rightarrow> json" where
  "clearLayoutForDocument docPath lm =
     JObj (map_set ''layouts'' (JObj (map_delete docPath (spread (get_prop lm ''layouts''))))
       (spread (Some lm)))"

text \<open>\<open>None\<close> is the \<open>TypeError\<close> of reading an entry of \<open>null\<close> layouts,
  \<open>Some None\<close> the result \<open>null\<close>.\<close>

definition getLayoutForDocument :: "string \<Rightarrow> json \<Rightarrow> json option option" where
  "getLayoutForDocument docPath lm =
     (case get_prop lm ''layouts'' of
        None \<Rightarrow> None
      | Some JNull \<Rightarrow> None
      | Some layouts \<Rightarrow>
          (case get_prop layouts docPath of
             None \<Rightarrow> Some None
           | Some entry \<Rightarrow>
               if \<not> truthy (Some entry) \<or> \<not> truthy (get_prop entry ''root'') \<or>
                  \<not> is_string (get_prop entry ''activePaneId'')
               then Some None
               else
                 let restored = restoreLayout (JObj [(''root'', the (get_prop entry ''root'')),
                       (''activePaneId'', the (get_prop entry ''activePaneId''))])
                 in Some (Some (JObj (map_set ''primaryDocumentPath'' (JStr docPath) (spread (Some restored)))))))"

definition savePaneLayout :: "pane_layout \<Rightarrow> json \<Rightarrow> json" where
  "savePaneLayout st lm =
     (case primaryDocumentPath st of
        None \<Rightarrow> lm
      | Some p \<Rightarrow> if p = [] then lm else saveLayoutForDocument p st lm)"

section \<open>The reducer\<close>

datatype pane_action =
    SPLIT_PANE string split_direction
  | SPLIT_AND_OPEN_DOCUMENT string split_direction string
  | CLOSE_PANE string
  | RESIZE_PANE string "rat \<times> rat"
  | OPEN_DOCUMENT string "string option"
  | SET_ACTIVE_PANE string
  | MOVE_DOCUMENT string string
  | SWAP_DOCUMENTS string string
  | UPDATE_SCROLL_POSITION string scroll_position
  | RESTORE_LAYOUT pane_layout
  | RESET_LAYOUT "string option"

definition new_pane :: "pane_node \<Rightarrow> pane_node \<Rightarrow> pane_node option" where
  "new_pane old new = find (\<lambda>l. pane_id l \<notin> set (map pane_id (getLeaves old))) (getLeaves new)"

definition with_root :: "pane_layout \<Rightarrow> pane_node \<Rightarrow> pane_layout" where
  "with_root st newRoot = (if newRoot = layout_root st then st else st\<lparr>layout_root := newRoot\<rparr>)"

fun paneLayoutReducer ::
  "(nat \<Rightarrow> nat) \<Rightarrow> pane_layout \<Rightarrow> pane_action \<Rightarrow> nat \<Rightarrow> pane_layout \<times> nat" where
  "paneLayoutReducer clock st (SPLIT_PANE paneId dir) c =
     (let (newRoot, c') = splitPane clock (layout_root st) paneId dir c in
      if newRoot = layout_root st then (st, c')
      else (st\<lparr>layout_root := newRoot,
        activePaneId := (case new_pane (layout_root st) newRoot of
           Some p \<Rightarrow> pane_id p | None \<Rightarrow> activePaneId st)\<rparr>, c'))"
| "paneLayoutReducer clock st (SPLIT_AND_OPEN_DOCUMENT paneId dir doc) c =
     (let (splitRoot, c') = splitPane clock (layout_root st) paneId dir c in
      if splitRoot = layout_root st then (st, c')
      else
        let targetPaneId = (case new_pane (layout_root st) splitRoot of Some p \<Rightarrow> pane_id p | None \<Rightarrow> paneId);
            newRoot = openDocumentInPane splitRoot targetPaneId (Some doc)
        in (st\<lparr>layout_root := newRoot, activePaneId := targetPaneId\<rparr>, c'))"
| "paneLayoutReducer clock st (CLOSE_PANE paneId) c =
     (let newRoot = closePane (layout_root st) paneId in
      if newRoot = layout_root st then (st, c)
      else
        let leaves = getLeaves newRoot;
            activeStillExists = list_ex (\<lambda>l. pane_id l = activePaneId st) leaves
        in (st\<lparr>layout_root := newRoot,
              activePaneId := (if activeStillExists then activePaneId st else pane_id (hd leaves))\<rparr>, c))"
| "paneLayoutReducer clock st (RESIZE_PANE splitId z) c =
     (with_root st (resizePane (layout_root st) splitId z), c)"
| "paneLayoutReducer clock st (OPEN_DOCUMENT paneId doc) c =
     (with_root st (openDocumentInPane (layout_root st) paneId doc), c)"
| "paneLayoutReducer clock st (SET_ACTIVE_PANE paneId) c =
     (if activePaneId st = paneId then (st, c)
      else
        (case findPane (layout_root st) paneId of
           Some (Leaf i d s) \<Rightarrow> (st\<lparr>activePaneId := paneId\<rparr>, c)
         | _ \<Rightarrow> (st, c)))"
| "paneLayoutReducer clock st (MOVE_DOCUMENT source target) c =
     (with_root st (moveDocumentBetweenPanes (layout_root st) source target), c)"
| "paneLayoutReducer clock st (SWAP_DOCUMENTS a b) c =
     (with_root st (swapPaneDocuments (layout_root st) a b), c)"
| "paneLayoutReducer clock st (UPDATE_SCROLL_POSITION paneId sp) c =
     (with_root st (updateScrollPosition (layout_root st) paneId sp), c)"
| "paneLayoutReducer clock st (RESTORE_LAYOUT st') c = (st', c)"
| "paneLayoutReducer clock st (RESET_LAYOUT p) c =
     (createDefaultPaneLayout\<lparr>primaryDocumentPath := p\<rparr>, c)"

section \<open>The provider\<close>

text \<open>
  The provider's state: the reducer state, the id counter, the persisted map and the debounce
  timer of \<open>usePanePersistence\<close> with the state it captured.
\<close>

record pane_session =
  layout :: pane_layout
  counter :: nat
  layoutMap :: json
  debounced :: "pane_layout option"

definition initial_session :: "json \<Rightarrow> pane_session" where
  "initial_session lm =
     \<lparr> layout = createDefaultPaneLayout, counter = 0, layoutMap = lm, debounced = None \<rparr>"

text \<open>The persistence effect, run when the reducer produced a new state object: the cleanup of the previous
  effect clears the timer, and a new one is started if the layout belongs to a document.\<close>

definition persistence_effect :: "pane_session \<Rightarrow> pane_session" where
  "persistence_effect s =
     (case primaryDocumentPath (layout s) of
        None \<Rightarrow> s\<lparr>debounced := None\<rparr>
      | Some p \<Rightarrow> if p = [] then s\<lparr>debounced := None\<rparr> else s\<lparr>debounced := Some (layout s)\<rparr>)"

definition dispatch :: "(nat \<Rightarrow> nat) \<Rightarrow> pane_action \<Rightarrow> pane_session \<Rightarrow> pane_session" where
  "dispatch clock a s =
     (let (st, c) = paneLayoutReducer clock (layout s) a (counter s) in s\<lparr>layout := st, counter := c\<rparr>)"

definition fire_timer :: "pane_session \<Rightarrow> pane_session" where
  "fire_timer s =
     (case debounced s of
        None \<Rightarrow> s
      | Some st \<Rightarrow> s\<lparr>layoutMap := savePaneLayout st (layoutMap s), debounced := None\<rparr>)"

text \<open>\<open>None\<close> when the lookup throws or the stored data passes validation without having the
  declared types.\<close>

definition loadAndRestoreLayout :: "(nat \<Rightarrow> nat) \<Rightarrow> string \<Rightarrow> pane_session \<Rightarrow> pane_session option" where
  "loadAndRestoreLayout clock docPath s =
     (let s1 = s\<lparr>layoutMap := savePaneLayout (layout s) (layoutMap s)\<rparr> in
      case getLayoutForDocument docPath (layoutMap s1) of
        None \<Rightarrow> None
      | Some None \<Rightarrow>
          Some (dispatch clock (OPEN_DOCUMENT ''pane-1'' (Some docPath))
            (dispatch clock (RESET_LAYOUT (Some docPath)) s1))
      | Some (Some j) \<Rightarrow>
          (case layout_of_json j of
             None \<Rightarrow> None
           | Some st \<Rightarrow> Some (dispatch clock (RESTORE_LAYOUT st) s1)))"

text \<open>
  Everything that can happen to the provider.  User actions exclude \<open>RESTORE_LAYOUT\<close>, which
  only \<open>loadAndRestoreLayout\<close> dispatches.  The effect runs whenever React saw a new state object, which
  may also be one with the same contents.
\<close>

definition user_action :: "pane_action \<Rightarrow> bool" where
  "user_action a \<longleftrightarrow> (\<forall>st. a \<noteq> RESTORE_LAYOUT st)"

inductive pane_step :: "(nat \<Rightarrow> nat) \<Rightarrow> pane_session \<Rightarrow> pane_session \<Rightarrow> bool" for clock where
  act: "user_action a \<Longrightarrow> pane_step clock s (dispatch clock a s)"
| effect: "pane_step clock s (persistence_effect s)"
| timer: "pane_step clock s (fire_timer s)"
| load: "loadAndRestoreLayout clock docPath s = Some s' \<Longrightarrow> pane_step clock s s'"

inductive pane_reachable :: "(nat \<Rightarrow> nat) \<Rightarrow> json \<Rightarrow> pane_session \<Rightarrow> bool" for clock lm where
  start: "pane_reachable clock lm (initial_session lm)"
| step: "pane_reachable clock lm s \<Longrightarrow> pane_step clock s s' \<Longrightarrow> pane_reachable clock lm s'"

inductive_cases pane_stepE: "pane_step clock s s'"

section \<open>Typed layouts and their JSON\<close>

lemma node_json_props [simp]:
  "get_prop (node_json n) ''id'' = Some (JStr (pane_id n))"
  "get_prop (node_json n) ''type'' = Some (JStr (if is_Leaf n then ''leaf'' else ''split''))"
  "truthy (Some (node_json n))" "node_json n \<noteq> JNull"
  by (cases n; simp)+

lemma node_json_Leaf_props:
  "get_prop (node_json (Leaf i d s)) ''documentPath'' = Some (path_json d)"
  "get_prop (node_json (Leaf i d s)) ''scrollPosition'' = map_option scroll_json s"
  by (simp_all split: option.split)

lemma node_json_Split_props:
  "get_prop (node_json (Split i dir a b z)) ''direction'' = Some (direction_json dir)"
  "get_prop (node_json (Split i dir a b z)) ''children'' = Some (JArr [node_json a, node_json b])"
  "get_prop (node_json (Split i dir a b z)) ''sizes'' = Some (JArr [JNum (fst z), JNum (snd z)])"
  by simp_all

declare node_json.simps [simp del]

lemmas node_json_reads = node_json_props node_json_Leaf_props node_json_Split_props

lemma direction_json_roundtrip [simp]: "direction_of_json (Some (direction_json dir)) = Some dir"
  by (cases dir) simp_all

lemma truthy_direction [simp]: "truthy (Some (direction_json dir))"
  by (cases dir) simp_all

lemma path_json_roundtrip [simp]: "path_of_json (Some (path_json d)) = Some d"
  by (cases d) simp_all

lemma scroll_json_roundtrip [simp]: "scroll_of_json (map_option scroll_json s) = Some s"
  by (cases s) (simp_all add: scroll_of_json_def)

lemma validateNode_json: "[] \<notin> set (node_ids n) \<Longrightarrow> validateNode (node_json n)"
proof (induction n)
  case (Leaf i d s)
  then show ?case by (subst validateNode.simps) (simp add: node_json_reads)
next
  case (Split i dir a b z)
  then show ?case by (subst validateNode.simps) (auto simp: node_json_reads)
qed

lemma json_leaves_json: "json_leaves (node_json n) = Some (map node_json (getLeaves n))"
proof (induction n)
  case (Leaf i d s)
  then show ?case by (subst json_leaves.simps) (simp add: node_json_reads)
next
  case (Split i dir a b z)
  then show ?case by (subst json_leaves.simps) (simp add: node_json_reads)
qed

lemma json_findPane_json:
  "json_findPane (node_json n) (Some (JStr k)) = Some (map_option node_json (findPane n k))"
proof (induction n)
  case (Leaf i d s)
  then show ?case by (subst json_findPane.simps) (simp add: node_json_reads)
next
  case (Split i dir a b z)
  then show ?case
    by (subst json_findPane.simps) (simp add: node_json_reads split: option.split)
qed

lemma node_json_roundtrip [simp]: "node_of_json (node_json n) = Some n"
proof (induction n)
  case (Leaf i d s)
  then show ?case by (subst node_of_json.simps) (simp add: node_json_reads)
next
  case (Split i dir a b z)
  then show ?case by (subst node_of_json.simps) (simp add: node_json_reads)
qed

text \<open>Validation never throws: once the node check has passed, the queries are total.\<close>

lemma validateNode_cases:
  assumes "validateNode j"
  obtains (leaf) "j \<noteq> JNull" "get_prop j ''type'' = Some (JStr ''leaf'')"
  | (split) c a b where "j \<noteq> JNull" "get_prop j ''type'' = Some (JStr ''split'')"
      "get_prop j ''children'' = Some c" "get_index c 0 = Some a" "get_index c 1 = Some b"
      "validateNode a" "validateNode b"
proof -
  have "j \<noteq> JNull" using assms validateNode.simps [of JNull] by auto
  then show ?thesis
    using assms [unfolded validateNode.simps [of j]] leaf split
    by (auto split: if_splits option.splits)
qed

lemma json_leaves_total: "validateNode j \<Longrightarrow> \<exists>ls. json_leaves j = Some ls"
proof (induction "size j" arbitrary: j rule: less_induct)
  case less
  from less.prems show ?case
  proof (cases rule: validateNode_cases)
    case leaf
    then show ?thesis by (subst json_leaves.simps) simp
  next
    case (split c a b)
    obtain la lb where "json_leaves a = Some la" "json_leaves b = Some lb"
      using split less.hyps [of a] less.hyps [of b] size_child by blast
    with split show ?thesis
      by (subst json_leaves.simps) simp
  qed
qed

lemma json_findPane_total: "validateNode j \<Longrightarrow> \<exists>r. json_findPane j k = Some r"
proof (induction "size j" arbitrary: j rule: less_induct)
  case less
  from less.prems show ?case
  proof (cases rule: validateNode_cases)
    case leaf
    then show ?thesis by (subst json_findPane.simps) simp
  next
    case (split c a b)
    obtain ra rb where "json_findPane a k = Some ra" "json_findPane b k = Some rb"
      using split less.hyps [of a] less.hyps [of b] size_child by blast
    with split show ?thesis
      by (subst json_findPane.simps) (simp split: option.split)
  qed
qed

lemma validateLayout_total: "validateLayout j \<noteq> None"
proof -
  have "json_leaves r \<noteq> None" "json_findPane r k \<noteq> None" if "validateNode r" for r k
    using json_leaves_total [OF that] json_findPane_total [OF that, of k] by auto
  then show ?thesis by (auto simp: validateLayout_def simp del: not_None_eq split: option.split)
qed

section \<open>Well-formed layouts\<close>

definition good_layout :: "(nat \<Rightarrow> nat) \<Rightarrow> nat \<Rightarrow> pane_layout \<Rightarrow> bool" where
  "good_layout clock c st \<longleftrightarrow>
     wf_tree (layout_root st) \<and> activePaneId st \<in> set (leaf_ids (layout_root st)) \<and>
     countLeaves (layout_root st) \<le> MAX_PANES \<and> ids_below clock c (layout_root st) \<and>
     [] \<notin> set (node_ids (layout_root st))"

lemma good_layoutI:
  "wf_tree (layout_root st) \<Longrightarrow> activePaneId st \<in> set (leaf_ids (layout_root st)) \<Longrightarrow>
   countLeaves (layout_root st) \<le> MAX_PANES \<Longrightarrow> ids_below clock c (layout_root st) \<Longrightarrow>
   [] \<notin> set (node_ids (layout_root st)) \<Longrightarrow> good_layout clock c st"
  by (simp add: good_layout_def)

lemma good_layout_mono: "good_layout clock c st \<Longrightarrow> c \<le> c' \<Longrightarrow> good_layout clock c' st"
  using ids_below_mono by (auto simp: good_layout_def)

lemma good_layout_primary [simp]:
  "good_layout clock c (st\<lparr>primaryDocumentPath := p\<rparr>) = good_layout clock c st"
  by (simp add: good_layout_def)

lemma good_default [simp]: "good_layout clock c createDefaultPaneLayout"
proof -
  have "pane_id_of t i \<noteq> ''pane-1''" for t i
  proof
    assume "pane_id_of t i = ''pane-1''"
    then have "nat_str t @ CHR ''-'' # nat_str i = ''1''" by (simp add: pane_id_of_def)
    then have "CHR ''-'' \<in> set ''1''" by (metis in_set_conv_decomp)
    then show False by simp
  qed
  then show ?thesis
    by (simp add: good_layout_def createDefaultPaneLayout_def ids_below_def MAX_PANES_def)
qed

lemma validateLayout_json:
  assumes "good_layout clock c st" and "get_prop j ''root'' = Some (node_json (layout_root st))"
    "get_prop j ''activePaneId'' = Some (JStr (activePaneId st))" "is_record j"
  shows "validateLayout j = Some True"
proof -
  obtain i d s where leaf: "findPane (layout_root st) (activePaneId st) = Some (Leaf i d s)"
    using assms(1) by (auto simp: good_layout_def findPane_leaf_iff)
  have "activePaneId st \<in> set (node_ids (layout_root st))"
    using assms(1) leaf_ids_subset by (auto simp: good_layout_def)
  then have "activePaneId st \<noteq> []" using assms(1) by (auto simp: good_layout_def)
  moreover have "truthy (Some j)" using assms(4) by (cases j) simp_all
  moreover have "countLeaves (layout_root st) \<noteq> 0" using countLeaves_pos [of "layout_root st"] by linarith
  ultimately show ?thesis
    using assms leaf
    by (simp add: validateLayout_def validateNode_json json_leaves_json json_findPane_json good_layout_def)
qed

lemma restoreLayout_entry: "good_layout clock c st \<Longrightarrow> restoreLayout (entry_json st) = entry_json st"
  by (simp add: restoreLayout_def validateLayout_json [of clock c st] entry_json_def)

lemma restoreLayout_valid: "validateLayout (restoreLayout j) = Some True"
  by (simp add: restoreLayout_def validateLayout_json [of undefined 0 createDefaultPaneLayout] layout_json_def)

section \<open>The reducer keeps layouts well-formed\<close>

lemma new_pane_split:
  assumes "wf_tree n" "ids_below clock c n" "countLeaves n < MAX_PANES" "k \<in> set (leaf_ids n)"
  shows "new_pane n (split_root clock n k dir c) = Some (Leaf (new_leaf_id clock c) None None)"
proof -
  let ?new = "Leaf (new_leaf_id clock c) None None"
  have fresh: "new_leaf_id clock c \<notin> set (leaf_ids n)"
    using assms(2) leaf_ids_subset [of n] by (auto simp: ids_below_def)
  have "find (\<lambda>l. pane_id l \<notin> set (leaf_ids n))
      (concat (map (\<lambda>l. if pane_id l = k then [l, ?new] else [l]) ls)) = Some ?new"
    if "set (map pane_id ls) \<subseteq> set (leaf_ids n)" "k \<in> set (map pane_id ls)" for ls
    using that fresh by (induction ls) auto
  from this [of "getLeaves n"] show ?thesis
    using assms by (simp add: new_pane_def getLeaves_split_root leaf_ids_def)
qed

lemma split_root_neq:
  assumes "wf_tree n" "k \<in> set (leaf_ids n)"
  shows "split_root clock n k dir c \<noteq> n"
  using countLeaves_split_root [OF assms, of clock dir c] by auto

lemma new_leaf_in_split:
  assumes "wf_tree n" "k \<in> set (leaf_ids n)"
  shows "new_leaf_id clock c \<in> set (leaf_ids (split_root clock n k dir c))"
proof -
  from assms(2) obtain l where "l \<in> set (getLeaves n)" "pane_id l = k"
    by (auto simp: leaf_ids_def)
  then have "Leaf (new_leaf_id clock c) None None \<in> set (getLeaves (split_root clock n k dir c))"
    unfolding getLeaves_split_root [OF assms(1)] by auto
  then show ?thesis unfolding leaf_ids_iff by blast
qed

text \<open>What the two split actions do, in terms of the split tree.\<close>

lemma reducer_split:
  assumes "good_layout clock c st"
  shows "paneLayoutReducer clock st (SPLIT_PANE paneId dir) c =
    (if countLeaves (layout_root st) < MAX_PANES \<and> paneId \<in> set (leaf_ids (layout_root st))
     then (st\<lparr>layout_root := split_root clock (layout_root st) paneId dir c,
             activePaneId := new_leaf_id clock c\<rparr>, Suc (Suc c))
     else (st, c))"
  using assms by (simp add: good_layout_def splitPane_wf new_pane_split split_root_neq)

lemma reducer_split_open:
  assumes "good_layout clock c st"
  shows "paneLayoutReducer clock st (SPLIT_AND_OPEN_DOCUMENT paneId dir doc) c =
    (if countLeaves (layout_root st) < MAX_PANES \<and> paneId \<in> set (leaf_ids (layout_root st))
     then (st\<lparr>layout_root := openDocumentInPane (split_root clock (layout_root st) paneId dir c)
               (new_leaf_id clock c) (Some doc),
             activePaneId := new_leaf_id clock c\<rparr>, Suc (Suc c))
     else (st, c))"
  using assms by (simp add: good_layout_def splitPane_wf new_pane_split split_root_neq Let_def)

lemma good_split:
  assumes "good_layout clock c st" "countLeaves (layout_root st) < MAX_PANES"
    "paneId \<in> set (leaf_ids (layout_root st))"
  shows "good_layout clock (Suc (Suc c))
    (st\<lparr>layout_root := split_root clock (layout_root st) paneId dir c, activePaneId := new_leaf_id clock c\<rparr>)"
proof -
  have "[] \<noteq> pane_id_of t i" for t i by (simp add: pane_id_of_def)
  with assms wf_tree_split_root [of "layout_root st" paneId clock c dir] show ?thesis
    by (auto simp: good_layout_def ids_below_def node_ids_split_root countLeaves_split_root new_leaf_in_split)
qed

lemma good_same_ids:
  assumes "good_layout clock c st" "node_ids (layout_root st') = node_ids (layout_root st)"
    "leaf_ids (layout_root st') = leaf_ids (layout_root st)" "activePaneId st' = activePaneId st"
  shows "good_layout clock c st'"
  using assms length_leaf_ids [of "layout_root st'"] length_leaf_ids [of "layout_root st"] wf_tree_cong [OF assms(2)]
  by (simp add: good_layout_def ids_below_def)

lemma good_with_root:
  assumes "good_layout clock c st" "node_ids n = node_ids (layout_root st)"
    "leaf_ids n = leaf_ids (layout_root st)"
  shows "good_layout clock c (with_root st n)"
  by (rule good_same_ids [OF assms(1)]) (simp_all add: with_root_def assms)

lemma countLeaves_closePane: "wf_tree n \<Longrightarrow> countLeaves (closePane n k) \<le> countLeaves n"
proof (cases "countLeaves n > 1")
  case True
  moreover assume "wf_tree n"
  ultimately show ?thesis
    using length_filter_le [of "\<lambda>l. pane_id l \<noteq> k" "getLeaves n"] getLeaves_closePane [of n k]
    by (metis length_getLeaves)
qed (simp add: closePane_wf)

lemma good_close:
  assumes "good_layout clock c st"
  shows "good_layout clock c (fst (paneLayoutReducer clock st (CLOSE_PANE paneId) c))"
proof -
  let ?n = "closePane (layout_root st) paneId"
  have wf: "wf_tree (layout_root st)" using assms by (simp add: good_layout_def)
  have good: "good_layout clock c st'" if "layout_root st' = ?n" "activePaneId st' \<in> set (leaf_ids ?n)" for st'
    using that assms closePane_inv [OF wf, of paneId] countLeaves_closePane [OF wf, of paneId]
    by (auto simp: good_layout_def intro: ids_below_mono)
  have "list_ex (\<lambda>l. pane_id l = activePaneId st) (getLeaves ?n) \<longleftrightarrow> activePaneId st \<in> set (leaf_ids ?n)"
    by (force simp: list_ex_iff leaf_ids_def)
  then show ?thesis
    using assms by (simp add: Let_def good hd_last_leaf_ids)
qed

text \<open>Every user action keeps the layout well-formed; the counter only grows.\<close>

lemma good_reducer:
  assumes "good_layout clock c st" "user_action a"
  shows "good_layout clock (snd (paneLayoutReducer clock st a c)) (fst (paneLayoutReducer clock st a c)) \<and>
    c \<le> snd (paneLayoutReducer clock st a c)"
proof (cases a)
  case (SPLIT_PANE paneId dir)
  then show ?thesis using assms good_split [OF assms(1), of paneId dir] by (simp add: reducer_split del: paneLayoutReducer.simps)
next
  case (SPLIT_AND_OPEN_DOCUMENT paneId dir doc)
  then show ?thesis
    using assms by (auto simp: reducer_split_open simp del: paneLayoutReducer.simps
      intro: good_same_ids [OF good_split [OF assms(1), of paneId dir]])
next
  case (CLOSE_PANE paneId)
  moreover have "snd (paneLayoutReducer clock st (CLOSE_PANE paneId) c) = c" by (simp add: Let_def)
  ultimately show ?thesis
    using good_close [OF assms(1), of paneId] by (simp del: paneLayoutReducer.simps)
next
  case (SET_ACTIVE_PANE paneId)
  have "paneId \<in> set (leaf_ids (layout_root st))" if "findPane (layout_root st) paneId = Some (Leaf i d s)" for i d s
    using that findPane_leafD [OF that] by (auto simp: leaf_ids_iff)
  with SET_ACTIVE_PANE assms show ?thesis
    by (auto simp: good_layout_def split: option.split pane_node.split)
next
  case (RESTORE_LAYOUT st')
  with assms show ?thesis by (simp add: user_action_def)
qed (use assms in \<open>simp_all add: good_with_root\<close>)

section \<open>The persisted map\<close>

definition good_entries :: "(nat \<Rightarrow> nat) \<Rightarrow> nat \<Rightarrow> (string \<times> json) list \<Rightarrow> bool" where
  "good_entries clock c layouts \<longleftrightarrow>
     (\<forall>p e. map_of layouts p = Some e \<longrightarrow> (\<exists>st. good_layout clock c st \<and> e = entry_json st))"

definition good_map :: "(nat \<Rightarrow> nat) \<Rightarrow> nat \<Rightarrow> json \<Rightarrow> bool" where
  "good_map clock c lm \<longleftrightarrow> is_record lm \<and> get_prop lm ''version'' = Some (JNum PERSISTENCE_VERSION) \<and>
     (\<exists>layouts. get_prop lm ''layouts'' = Some (JObj layouts) \<and> good_entries clock c layouts)"

lemma good_map_mono: "good_map clock c lm \<Longrightarrow> c \<le> c' \<Longrightarrow> good_map clock c' lm"
  unfolding good_map_def good_entries_def using good_layout_mono by meson

lemma good_map_default: "good_map clock c getDefaultLayoutMap"
  by (simp add: good_map_def getDefaultLayoutMap_def good_entries_def)

lemma save_props:
  assumes "is_record lm" "get_prop lm ''layouts'' = Some (JObj layouts)"
  shows "get_prop (saveLayoutForDocument p st lm) k =
    (if k = ''layouts'' then Some (JObj (map_set p (entry_json st) layouts)) else get_prop lm k)"
  using assms by (cases lm) (simp_all add: saveLayoutForDocument_def js_maps)

lemma is_record_save [simp]: "is_record (saveLayoutForDocument p st lm)"
  by (simp add: saveLayoutForDocument_def)

lemma good_map_save:
  assumes "good_map clock c lm" "good_layout clock c st"
  shows "good_map clock c (saveLayoutForDocument p st lm)"
proof -
  from assms(1) obtain layouts where l: "is_record lm" "get_prop lm ''layouts'' = Some (JObj layouts)"
    "get_prop lm ''version'' = Some (JNum PERSISTENCE_VERSION)" "good_entries clock c layouts"
    by (auto simp: good_map_def)
  have "good_entries clock c (map_set p (entry_json st) layouts)"
    using l(4) assms(2) unfolding good_entries_def get_set by auto
  with l show ?thesis by (simp add: good_map_def save_props)
qed

lemma good_map_savePane:
  "good_map clock c lm \<Longrightarrow> good_layout clock c st \<Longrightarrow> good_map clock c (savePaneLayout st lm)"
  by (simp add: savePaneLayout_def good_map_save split: option.split)

lemma getLayout_entry:
  assumes "get_prop lm ''layouts'' = Some (JObj layouts)" "map_of layouts p = Some (entry_json st)"
    "good_layout clock c st"
  shows "getLayoutForDocument p lm = Some (Some (layout_json (st\<lparr>primaryDocumentPath := Some p\<rparr>)))"
proof -
  have "restoreLayout (JObj [(''root'', node_json (layout_root st)), (''activePaneId'', JStr (activePaneId st))]) =
      entry_json st"
    using restoreLayout_entry [OF assms(3)] by (simp add: entry_json_def)
  with assms show ?thesis
    by (simp add: getLayoutForDocument_def) (simp add: entry_json_def layout_json_def)
qed

lemma getLayout_saved:
  assumes "good_map clock c lm" "good_layout clock c st"
  shows "getLayoutForDocument p (saveLayoutForDocument p st lm) =
    Some (Some (layout_json (st\<lparr>primaryDocumentPath := Some p\<rparr>)))"
proof -
  from assms(1) obtain layouts where "is_record lm" "get_prop lm ''layouts'' = Some (JObj layouts)"
    by (auto simp: good_map_def)
  then show ?thesis
    using assms(2) by (intro getLayout_entry [where st = st and layouts = "map_set p (entry_json st) layouts"]) (simp_all add: save_props js_maps)
qed

lemma getLayout_save_other:
  assumes "good_map clock c lm" "p \<noteq> q"
  shows "getLayoutForDocument p (saveLayoutForDocument q st lm) = getLayoutForDocument p lm"
proof -
  from assms(1) obtain layouts where "is_record lm" "get_prop lm ''layouts'' = Some (JObj layouts)"
    by (auto simp: good_map_def)
  with assms(2) show ?thesis by (simp add: getLayoutForDocument_def save_props js_maps)
qed

lemma getLayout_savePane_other:
  "good_map clock c lm \<Longrightarrow> primaryDocumentPath st \<noteq> Some p \<Longrightarrow>
    getLayoutForDocument p (savePaneLayout st lm) = getLayoutForDocument p lm"
  by (auto simp: savePaneLayout_def getLayout_save_other split: option.split)

lemma getLayout_good:
  assumes "good_map clock c lm"
  shows "getLayoutForDocument p lm = Some None \<or>
    (\<exists>st. good_layout clock c st \<and> primaryDocumentPath st = Some p \<and>
       getLayoutForDocument p lm = Some (Some (layout_json st)))"
proof -
  from assms obtain layouts where l: "get_prop lm ''layouts'' = Some (JObj layouts)"
    "good_entries clock c layouts" by (auto simp: good_map_def)
  show ?thesis
  proof (cases "map_of layouts p")
    case None
    with l show ?thesis by (simp add: getLayoutForDocument_def)
  next
    case (Some e)
    with l obtain st where st: "good_layout clock c st" "e = entry_json st"
      unfolding good_entries_def by blast
    with Some l show ?thesis
      by (intro disjI2 exI [of _ "st\<lparr>primaryDocumentPath := Some p\<rparr>"])
         (simp add: getLayout_entry [of _ _ _ _ clock c])
  qed
qed

lemma layout_json_roundtrip [simp]: "layout_of_json (layout_json st) = Some st"
  by (simp add: layout_of_json_def layout_json_def)

section \<open>The provider keeps its invariant\<close>

definition good_session :: "(nat \<Rightarrow> nat) \<Rightarrow> pane_session \<Rightarrow> bool" where
  "good_session clock s \<longleftrightarrow> good_layout clock (counter s) (layout s) \<and> good_map clock (counter s) (layoutMap s) \<and>
     (\<forall>st. debounced s = Some st \<longrightarrow> good_layout clock (counter s) st)"

lemma good_dispatch:
  assumes "good_session clock s" "user_action a"
  shows "good_session clock (dispatch clock a s)"
proof -
  let ?r = "paneLayoutReducer clock (layout s) a (counter s)"
  have "good_layout clock (snd ?r) (fst ?r)" "counter s \<le> snd ?r"
    using good_reducer [of clock "counter s" "layout s" a] assms by (simp_all add: good_session_def)
  with assms(1) show ?thesis
    by (auto simp: dispatch_def good_session_def case_prod_beta intro: good_map_mono good_layout_mono)
qed

lemma good_effect: "good_session clock s \<Longrightarrow> good_session clock (persistence_effect s)"
  by (auto simp: persistence_effect_def good_session_def split: option.splits)

lemma good_timer: "good_session clock s \<Longrightarrow> good_session clock (fire_timer s)"
  by (auto simp: fire_timer_def good_session_def good_map_savePane split: option.splits)

lemma good_flush:
  "good_session clock s \<Longrightarrow> good_session clock (s\<lparr>layoutMap := savePaneLayout (layout s) (layoutMap s)\<rparr>)"
  by (simp add: good_session_def good_map_savePane)

lemma user_action_simps [simp]: "user_action (OPEN_DOCUMENT p d)" "user_action (RESET_LAYOUT q)"
  by (simp_all add: user_action_def)

lemma load_total:
  assumes "good_session clock s"
  shows "\<exists>s'. loadAndRestoreLayout clock docPath s = Some s' \<and> good_session clock s' \<and>
    primaryDocumentPath (layout s') = Some docPath \<and>
    layoutMap s' = savePaneLayout (layout s) (layoutMap s)"
proof -
  let ?s = "s\<lparr>layoutMap := savePaneLayout (layout s) (layoutMap s)\<rparr>"
  have good: "good_session clock ?s" using assms by (rule good_flush)
  then have "good_map clock (counter s) (layoutMap ?s)" by (simp add: good_session_def)
  from getLayout_good [OF this, of docPath] show ?thesis
  proof (elim disjE exE conjE)
    assume "getLayoutForDocument docPath (layoutMap ?s) = Some None"
    with good show ?thesis
      by (simp add: loadAndRestoreLayout_def good_dispatch)
         (simp add: dispatch_def with_root_def)
  next
    fix st
    assume "good_layout clock (counter s) st" "primaryDocumentPath st = Some docPath"
      "getLayoutForDocument docPath (layoutMap ?s) = Some (Some (layout_json st))"
    with good show ?thesis
      by (simp add: loadAndRestoreLayout_def) (simp add: dispatch_def good_session_def)
  qed
qed

lemma good_load: "good_session clock s \<Longrightarrow> loadAndRestoreLayout clock docPath s = Some s' \<Longrightarrow> good_session clock s'"
  using load_total [of clock s docPath] by auto

lemma good_step: "good_session clock s \<Longrightarrow> pane_step clock s s' \<Longrightarrow> good_session clock s'"
  by (elim pane_stepE) (auto simp: good_dispatch good_effect good_timer intro: good_load)

lemma good_reachable:
  assumes "good_map clock 0 lm" "pane_reachable clock lm s"
  shows "good_session clock s"
  using assms(2)
proof induction
  case start
  with assms(1) show ?case by (simp add: initial_session_def good_session_def)
next
  case (step s s')
  then show ?case by (rule_tac good_step)
qed

text \<open>Splitting adds one empty slot to the documents.\<close>

lemma map_of_split_slots:
  assumes "new \<notin> f ` set xs" "f n = new"
  shows "map_of (map (\<lambda>l. (f l, g l)) (concat (map (\<lambda>l. if f l = k then [l, n] else [l]) xs))) x =
    (if x = f n \<and> f n = new \<and> k \<in> f ` set xs then Some (g n)
     else map_of (map (\<lambda>l. (f l, g l)) xs) x)"
  using assms by (induction xs) (auto simp: image_iff)

lemma docs_split_root:
  assumes "wf_tree n" "k \<in> set (leaf_ids n)" "new_leaf_id clock c \<notin> set (leaf_ids n)"
  shows "docs (split_root clock n k dir c) = (docs n)(new_leaf_id clock c \<mapsto> None)"
proof
  fix x
  let ?new = "Leaf (new_leaf_id clock c) None None"
  have "docs (split_root clock n k dir c) x = map_of (map (\<lambda>l. (pane_id l, documentPath l))
      (concat (map (\<lambda>l. if pane_id l = k then [l, ?new] else [l]) (getLeaves n)))) x"
    by (simp add: docs_def getLeaves_split_root [OF assms(1)])
  also have "\<dots> = (if x = pane_id ?new \<and> pane_id ?new = new_leaf_id clock c \<and> k \<in> pane_id ` set (getLeaves n)
      then Some (documentPath ?new) else map_of (map (\<lambda>l. (pane_id l, documentPath l)) (getLeaves n)) x)"
    using assms(3) by (intro map_of_split_slots) (simp_all add: leaf_ids_def)
  finally show "docs (split_root clock n k dir c) x = ((docs n)(new_leaf_id clock c \<mapsto> None)) x"
    using assms(2) by (simp add: docs_def leaf_ids_def)
qed

section \<open>Properties\<close>

text \<open>C1. Whatever sequence of user actions, persistence effects, timer expiries and document
  switches the pane provider goes through, the layout it shows has distinct pane ids, between one and
  \<open>MAX_PANES\<close> panes and an active pane that is one of them, and switching to any document
  succeeds; provided the persisted map it starts from holds layouts of this kind.\<close>

theorem pane_session_invariant:
  assumes "good_map clock 0 lm" "pane_reachable clock lm s"
  shows "distinct (node_ids (layout_root (layout s))) \<and>
    activePaneId (layout s) \<in> set (leaf_ids (layout_root (layout s))) \<and>
    1 \<le> countLeaves (layout_root (layout s)) \<and> countLeaves (layout_root (layout s)) \<le> MAX_PANES \<and>
    (\<exists>s'. loadAndRestoreLayout clock docPath s = Some s' \<and> primaryDocumentPath (layout s') = Some docPath)"
proof -
  have good: "good_session clock s" using assms by (rule good_reachable)
  moreover have "1 \<le> countLeaves (layout_root (layout s))"
    using countLeaves_pos [of "layout_root (layout s)"] by linarith
  ultimately show ?thesis
    using load_total [OF good, of docPath] by (auto simp: good_session_def good_layout_def wf_tree_def)
qed

text \<open>C8. Switching to another document and back brings back exactly the layout that was on
  screen, active pane and scroll positions included.\<close>

theorem switch_away_and_back:
  assumes "good_session clock s" "primaryDocumentPath (layout s) = Some doc" "doc \<noteq> []" "other \<noteq> doc"
  shows "\<exists>s1 s2. loadAndRestoreLayout clock other s = Some s1 \<and>
    loadAndRestoreLayout clock doc s1 = Some s2 \<and> layout s2 = layout s"
proof -
  let ?lm = "savePaneLayout (layout s) (layoutMap s)"
  from load_total [OF assms(1), of other] obtain s1 where s1:
    "loadAndRestoreLayout clock other s = Some s1" "good_session clock s1"
    "primaryDocumentPath (layout s1) = Some other" "layoutMap s1 = ?lm" by auto
  have "getLayoutForDocument doc ?lm =
      Some (Some (layout_json ((layout s)\<lparr>primaryDocumentPath := Some doc\<rparr>)))"
    using assms by (simp add: savePaneLayout_def good_session_def getLayout_saved [of clock "counter s"])
  moreover have "(layout s)\<lparr>primaryDocumentPath := Some doc\<rparr> = layout s"
    using assms(2) by simp
  moreover have "getLayoutForDocument doc (savePaneLayout (layout s1) ?lm) = getLayoutForDocument doc ?lm"
    using s1 assms(4) by (intro getLayout_savePane_other [of clock "counter s1"]) (auto simp: good_session_def)
  ultimately have "\<exists>s2. loadAndRestoreLayout clock doc s1 = Some s2 \<and> layout s2 = layout s"
    using s1 by (simp add: loadAndRestoreLayout_def) (simp add: dispatch_def)
  with s1 show ?thesis by blast
qed


text \<open>The atomic split-and-open action: below the limit and on an existing pane it shows the
  document in a new pane that becomes active, and every other pane keeps its document; otherwise the
  state is returned unchanged.\<close>

theorem split_and_open_correct:
  assumes "good_layout clock c st"
  shows "fst (paneLayoutReducer clock st (SPLIT_AND_OPEN_DOCUMENT paneId dir doc) c) = st \<or>
    (let st' = fst (paneLayoutReducer clock st (SPLIT_AND_OPEN_DOCUMENT paneId dir doc) c) in
       activePaneId st' \<notin> set (leaf_ids (layout_root st)) \<and>
       docs (layout_root st') = (docs (layout_root st))(activePaneId st' \<mapsto> Some doc))"
proof (cases "countLeaves (layout_root st) < MAX_PANES \<and> paneId \<in> set (leaf_ids (layout_root st))")
  case True
  let ?rt = "layout_root st" and ?new = "new_leaf_id clock c"
  let ?sp = "split_root clock ?rt paneId dir c"
  have wf: "wf_tree ?rt" "wf_tree ?sp"
    using assms True good_split [OF assms, of paneId dir] by (simp_all add: good_layout_def)
  have fresh: "?new \<notin> set (leaf_ids ?rt)"
    using assms leaf_ids_subset [of ?rt] by (auto simp: good_layout_def ids_below_def)
  have new: "?new \<in> set (leaf_ids ?sp)" using new_leaf_in_split wf(1) True by blast
  have "docs (openDocumentInPane ?sp ?new (Some doc)) = (docs ?rt)(?new \<mapsto> Some doc)"
    using new fresh by (simp add: docs_openDocument [OF wf(2)] docs_None_iff docs_split_root wf(1) True)
  with True fresh show ?thesis
    by (simp add: reducer_split_open [OF assms] Let_def del: paneLayoutReducer.simps)
qed (auto simp: reducer_split_open [OF assms] simp del: paneLayoutReducer.simps)

section \<open>Witnesses\<close>

definition sample_session :: pane_session where
  "sample_session = (initial_session getDefaultLayoutMap)
     \<lparr>layout := createDefaultPaneLayout\<lparr>primaryDocumentPath := Some ''doc.json''\<rparr>\<rparr>"

lemma sample_session_good: "good_session clock sample_session"
  by (simp add: good_session_def sample_session_def initial_session_def good_map_default)

theorem pane_session_invariant_witness:
  "activePaneId (layout (dispatch (\<lambda>_. 7) (SPLIT_PANE ''pane-1'' Vertical) (initial_session getDefaultLayoutMap)))
    \<in> set (leaf_ids (layout_root (layout
        (dispatch (\<lambda>_. 7) (SPLIT_PANE ''pane-1'' Vertical) (initial_session getDefaultLayoutMap)))))"
proof -
  have "pane_reachable (\<lambda>_. 7) getDefaultLayoutMap
      (dispatch (\<lambda>_. 7) (SPLIT_PANE ''pane-1'' Vertical) (initial_session getDefaultLayoutMap))"
    by (rule pane_reachable.step, rule pane_reachable.start, rule pane_step.act)
       (simp add: user_action_def)
  from pane_session_invariant [OF good_map_default this] show ?thesis by blast
qed

theorem switch_away_and_back_witness:
  "\<exists>s1 s2. loadAndRestoreLayout (\<lambda>_. 7) ''other.json'' sample_session = Some s1 \<and>
    loadAndRestoreLayout (\<lambda>_. 7) ''doc.json'' s1 = Some s2 \<and> layout s2 = layout sample_session"
  by (rule switch_away_and_back [OF sample_session_good])
     (simp_all add: sample_session_def)


theorem split_and_open_correct_witness:
  "let st' = fst (paneLayoutReducer (\<lambda>_. 7) createDefaultPaneLayout
       (SPLIT_AND_OPEN_DOCUMENT ''pane-1'' Vertical ''doc.json'') 0)
   in docs (layout_root st') (activePaneId st') = Some (Some ''doc.json'')"
proof -
  have "fst (paneLayoutReducer (\<lambda>_. 7) createDefaultPaneLayout
      (SPLIT_AND_OPEN_DOCUMENT ''pane-1'' Vertical ''doc.json'') 0) \<noteq> createDefaultPaneLayout"
    by (simp add: reducer_split_open [OF good_default] del: paneLayoutReducer.simps)
       (simp add: createDefaultPaneLayout_def MAX_PANES_def split_root_simps openDocumentInPane_def)
  with split_and_open_correct [OF good_default [of "\<lambda>_. 7" 0], of "''pane-1''" Vertical "''doc.json''"]
  show ?thesis by (auto simp: Let_def simp del: paneLayoutReducer.simps)
qed

end
