(* ===== verification/Editor_Registry.thy ===== *)
theory Editor_Registry
  imports Yanta_Base
begin

text \<open>
  The editor extension registry, \<open>editor/extensions/registry/editorExtensionRegistry.ts\<close>:
  eight maps from a contribution source to what it contributed, a version counter, and one cached snapshot per
  map that is recomputed when its version is behind.  The contributed functions are opaque, so a
  contribution is represented by its name.  Module-level variables are the fields of one record, and the
  calls that \<open>emitChange\<close> makes are logged in \<open>notified\<close>.
\<close>

section \<open>Contributions\<close>

type_synonym contribution = string
type_synonym spec_map = "(string, contribution) jsmap"

record slash_item =
  slash_title :: string
  slash_order :: "rat option"
  slash_onItemClick :: contribution

record editor_tool =
  tool_id :: string
  tool_label :: string
  tool_description :: "string option"
  tool_group :: "string option"
  tool_keywords :: "string list option"
  tool_action :: contribution

record block_action =
  action_id :: string
  action_label :: string
  action_description :: "string option"
  action_blockType :: "string option"
  action_action :: contribution

record lifecycle_hooks =
  onEditorReady :: "contribution option"
  onEditorDestroy :: "contribution option"

section \<open>State\<close>

record editor_registry =
  extensionRegistry :: "(string, contribution list) jsmap"
  tiptapExtensionRegistry :: "(string, contribution list) jsmap"
  blockSpecRegistry :: "(string, spec_map) jsmap"
  styleSpecRegistry :: "(string, spec_map) jsmap"
  slashMenuRegistry :: "(string, slash_item list) jsmap"
  toolRegistry :: "(string, editor_tool list) jsmap"
  blockActionRegistry :: "(string, block_action list) jsmap"
  lifecycleRegistry :: "(string, lifecycle_hooks) jsmap"
  listeners :: "nat list"
  notified :: "nat list"
  snapshotVersion :: int
  cachedExtensionSnapshotVersion :: int
  cachedExtensionSnapshot :: "contribution list"
  cachedTipTapExtensionSnapshotVersion :: int
  cachedTipTapExtensionSnapshot :: "contribution list"
  cachedBlockSpecSnapshotVersion :: int
  cachedBlockSpecSnapshot :: "spec_map"
  cachedStyleSpecSnapshotVersion :: int
  cachedStyleSpecSnapshot :: "spec_map"
  cachedSlashMenuSnapshotVersion :: int
  cachedSlashMenuSnapshot :: "slash_item list"
  cachedToolSnapshotVersion :: int
  cachedToolSnapshot :: "editor_tool list"
  cachedBlockActionSnapshotVersion :: int
  cachedBlockActionSnapshot :: "block_action list"
  cachedLifecycleSnapshotVersion :: int
  cachedLifecycleSnapshot :: "lifecycle_hooks list"

definition empty_registry :: editor_registry where
  "empty_registry = \<lparr>
     extensionRegistry = [],
     tiptapExtensionRegistry = [],
     blockSpecRegistry = [],
     styleSpecRegistry = [],
     slashMenuRegistry = [],
     toolRegistry = [],
     blockActionRegistry = [],
     lifecycleRegistry = [],
     listeners = [], notified = [], snapshotVersion = 0,
     cachedExtensionSnapshotVersion = -1, cachedExtensionSnapshot = [],
     cachedTipTapExtensionSnapshotVersion = -1, cachedTipTapExtensionSnapshot = [],
     cachedBlockSpecSnapshotVersion = -1, cachedBlockSpecSnapshot = [],
     cachedStyleSpecSnapshotVersion = -1, cachedStyleSpecSnapshot = [],
     cachedSlashMenuSnapshotVersion = -1, cachedSlashMenuSnapshot = [],
     cachedToolSnapshotVersion = -1, cachedToolSnapshot = [],
     cachedBlockActionSnapshotVersion = -1, cachedBlockActionSnapshot = [],
     cachedLifecycleSnapshotVersion = -1, cachedLifecycleSnapshot = [] \<rparr>"

definition emitChange :: "editor_registry \<Rightarrow> editor_registry" where
  "emitChange s = s\<lparr>snapshotVersion := snapshotVersion s + 1, notified := notified s @ listeners s\<rparr>"

section \<open>Operations\<close>

definition order_of :: "slash_item \<Rightarrow> rat" where
  "order_of it = (case slash_order it of None \<Rightarrow> 0 | Some r \<Rightarrow> r)"

definition setEditorExtensions :: "string \<Rightarrow> contribution list \<Rightarrow> editor_registry \<Rightarrow> editor_registry" where
  "setEditorExtensions source xs s = emitChange (s\<lparr>extensionRegistry := map_set source xs (extensionRegistry s)\<rparr>)"

definition removeEditorExtensions :: "string \<Rightarrow> editor_registry \<Rightarrow> editor_registry" where
  "removeEditorExtensions source s =
     (if \<not> map_has (extensionRegistry s) source then s
      else emitChange (s\<lparr>extensionRegistry := map_delete source (extensionRegistry s)\<rparr>))"

definition getAllEditorExtensions :: "editor_registry \<Rightarrow> contribution list \<times> editor_registry" where
  "getAllEditorExtensions s =
     (if cachedExtensionSnapshotVersion s = snapshotVersion s then (cachedExtensionSnapshot s, s)
      else
        let result = concat (map_values (extensionRegistry s)) in
        (result, s\<lparr>cachedExtensionSnapshot := result, cachedExtensionSnapshotVersion := snapshotVersion s\<rparr>))"

definition setEditorTipTapExtensions :: "string \<Rightarrow> contribution list \<Rightarrow> editor_registry \<Rightarrow> editor_registry" where
  "setEditorTipTapExtensions source xs s = emitChange (s\<lparr>tiptapExtensionRegistry := map_set source xs (tiptapExtensionRegistry s)\<rparr>)"

definition removeEditorTipTapExtensions :: "string \<Rightarrow> editor_registry \<Rightarrow> editor_registry" where
  "removeEditorTipTapExtensions source s =
     (if \<not> map_has (tiptapExtensionRegistry s) source then s
      else emitChange (s\<lparr>tiptapExtensionRegistry := map_delete source (tiptapExtensionRegistry s)\<rparr>))"

definition getAllEditorTipTapExtensions :: "editor_registry \<Rightarrow> contribution list \<times> editor_registry" where
  "getAllEditorTipTapExtensions s =
     (if cachedTipTapExtensionSnapshotVersion s = snapshotVersion s then (cachedTipTapExtensionSnapshot s, s)
      else
        let result = concat (map_values (tiptapExtensionRegistry s)) in
        (result, s\<lparr>cachedTipTapExtensionSnapshot := result, cachedTipTapExtensionSnapshotVersion := snapshotVersion s\<rparr>))"

definition setEditorBlockSpecs :: "string \<Rightarrow> spec_map \<Rightarrow> editor_registry \<Rightarrow> editor_registry" where
  "setEditorBlockSpecs source xs s = emitChange (s\<lparr>blockSpecRegistry := map_set source xs (blockSpecRegistry s)\<rparr>)"

definition removeEditorBlockSpecs :: "string \<Rightarrow> editor_registry \<Rightarrow> editor_registry" where
  "removeEditorBlockSpecs source s =
     (if \<not> map_has (blockSpecRegistry s) source then s
      else emitChange (s\<lparr>blockSpecRegistry := map_delete source (blockSpecRegistry s)\<rparr>))"

definition getAllEditorBlockSpecs :: "editor_registry \<Rightarrow> spec_map \<times> editor_registry" where
  "getAllEditorBlockSpecs s =
     (if cachedBlockSpecSnapshotVersion s = snapshotVersion s then (cachedBlockSpecSnapshot s, s)
      else
        let result = fold (\<lambda>specs result. assign result specs) (map_values (blockSpecRegistry s)) [] in
        (result, s\<lparr>cachedBlockSpecSnapshot := result, cachedBlockSpecSnapshotVersion := snapshotVersion s\<rparr>))"

definition setEditorStyleSpecs :: "string \<Rightarrow> spec_map \<Rightarrow> editor_registry \<Rightarrow> editor_registry" where
  "setEditorStyleSpecs source xs s = emitChange (s\<lparr>styleSpecRegistry := map_set source xs (styleSpecRegistry s)\<rparr>)"

definition removeEditorStyleSpecs :: "string \<Rightarrow> editor_registry \<Rightarrow> editor_registry" where
  "removeEditorStyleSpecs source s =
     (if \<not> map_has (styleSpecRegistry s) source then s
      else emitChange (s\<lparr>styleSpecRegistry := map_delete source (styleSpecRegistry s)\<rparr>))"

definition getAllEditorStyleSpecs :: "editor_registry \<Rightarrow> spec_map \<times> editor_registry" where
  "getAllEditorStyleSpecs s =
     (if cachedStyleSpecSnapshotVersion s = snapshotVersion s then (cachedStyleSpecSnapshot s, s)
      else
        let result = fold (\<lambda>specs result. assign result specs) (map_values (styleSpecRegistry s)) [] in
        (result, s\<lparr>cachedStyleSpecSnapshot := result, cachedStyleSpecSnapshotVersion := snapshotVersion s\<rparr>))"

definition setEditorSlashMenuItems :: "string \<Rightarrow> slash_item list \<Rightarrow> editor_registry \<Rightarrow> editor_registry" where
  "setEditorSlashMenuItems source xs s = emitChange (s\<lparr>slashMenuRegistry := map_set source xs (slashMenuRegistry s)\<rparr>)"

definition removeEditorSlashMenuItems :: "string \<Rightarrow> editor_registry \<Rightarrow> editor_registry" where
  "removeEditorSlashMenuItems source s =
     (if \<not> map_has (slashMenuRegistry s) source then s
      else emitChange (s\<lparr>slashMenuRegistry := map_delete source (slashMenuRegistry s)\<rparr>))"

definition getAllEditorSlashMenuItems :: "editor_registry \<Rightarrow> slash_item list \<times> editor_registry" where
  "getAllEditorSlashMenuItems s =
     (if cachedSlashMenuSnapshotVersion s = snapshotVersion s then (cachedSlashMenuSnapshot s, s)
      else
        let result = sort_key order_of (concat (map_values (slashMenuRegistry s))) in
        (result, s\<lparr>cachedSlashMenuSnapshot := result, cachedSlashMenuSnapshotVersion := snapshotVersion s\<rparr>))"

definition setEditorTools :: "string \<Rightarrow> editor_tool list \<Rightarrow> editor_registry \<Rightarrow> editor_registry" where
  "setEditorTools source xs s = emitChange (s\<lparr>toolRegistry := map_set source xs (toolRegistry s)\<rparr>)"

definition removeEditorTools :: "string \<Rightarrow> editor_registry \<Rightarrow> editor_registry" where
  "removeEditorTools source s =
     (if \<not> map_has (toolRegistry s) source then s
      else emitChange (s\<lparr>toolRegistry := map_delete source (toolRegistry s)\<rparr>))"

definition getAllEditorTools :: "editor_registry \<Rightarrow> editor_tool list \<times> editor_registry" where
  "getAllEditorTools s =
     (if cachedToolSnapshotVersion s = snapshotVersion s then (cachedToolSnapshot s, s)
      else
        let result = concat (map_values (toolRegistry s)) in
        (result, s\<lparr>cachedToolSnapshot := result, cachedToolSnapshotVersion := snapshotVersion s\<rparr>))"

definition setEditorBlockActions :: "string \<Rightarrow> block_action list \<Rightarrow> editor_registry \<Rightarrow> editor_registry" where
  "setEditorBlockActions source xs s = emitChange (s\<lparr>blockActionRegistry := map_set source xs (blockActionRegistry s)\<rparr>)"

definition removeEditorBlockActions :: "string \<Rightarrow> editor_registry \<Rightarrow> editor_registry" where
  "removeEditorBlockActions source s =
     (if \<not> map_has (blockActionRegistry s) source then s
      else emitChange (s\<lparr>blockActionRegistry := map_delete source (blockActionRegistry s)\<rparr>))"

definition getAllEditorBlockActions :: "editor_registry \<Rightarrow> block_action list \<times> editor_registry" where
  "getAllEditorBlockActions s =
     (if cachedBlockActionSnapshotVersion s = snapshotVersion s then (cachedBlockActionSnapshot s, s)
      else
        let result = concat (map_values (blockActionRegistry s)) in
        (result, s\<lparr>cachedBlockActionSnapshot := result, cachedBlockActionSnapshotVersion := snapshotVersion s\<rparr>))"

definition setEditorLifecycleHooks :: "string \<Rightarrow> lifecycle_hooks \<Rightarrow> editor_registry \<Rightarrow> editor_registry" where
  "setEditorLifecycleHooks source xs s = emitChange (s\<lparr>lifecycleRegistry := map_set source xs (lifecycleRegistry s)\<rparr>)"

definition removeEditorLifecycleHooks :: "string \<Rightarrow> editor_registry \<Rightarrow> editor_registry" where
  "removeEditorLifecycleHooks source s =
     (if \<not> map_has (lifecycleRegistry s) source then s
      else emitChange (s\<lparr>lifecycleRegistry := map_delete source (lifecycleRegistry s)\<rparr>))"

definition getAllEditorLifecycleHooks :: "editor_registry \<Rightarrow> lifecycle_hooks list \<times> editor_registry" where
  "getAllEditorLifecycleHooks s =
     (if cachedLifecycleSnapshotVersion s = snapshotVersion s then (cachedLifecycleSnapshot s, s)
      else
        let result = map_values (lifecycleRegistry s) in
        (result, s\<lparr>cachedLifecycleSnapshot := result, cachedLifecycleSnapshotVersion := snapshotVersion s\<rparr>))"

definition removeAllEditorPluginContributions :: "string \<Rightarrow> editor_registry \<Rightarrow> editor_registry" where
  "removeAllEditorPluginContributions source s =
     (let changed =
            map_has (extensionRegistry s) source \<or>
            map_has (tiptapExtensionRegistry s) source \<or>
            map_has (blockSpecRegistry s) source \<or>
            map_has (styleSpecRegistry s) source \<or>
            map_has (slashMenuRegistry s) source \<or>
            map_has (toolRegistry s) source \<or>
            map_has (blockActionRegistry s) source \<or>
            map_has (lifecycleRegistry s) source;
          s' = s\<lparr>extensionRegistry := map_delete source (extensionRegistry s),
            tiptapExtensionRegistry := map_delete source (tiptapExtensionRegistry s),
            blockSpecRegistry := map_delete source (blockSpecRegistry s),
            styleSpecRegistry := map_delete source (styleSpecRegistry s),
            slashMenuRegistry := map_delete source (slashMenuRegistry s),
            toolRegistry := map_delete source (toolRegistry s),
            blockActionRegistry := map_delete source (blockActionRegistry s),
            lifecycleRegistry := map_delete source (lifecycleRegistry s)\<rparr>
      in if changed then emitChange s' else s')"

text \<open>\<open>listeners\<close> is a \<open>Set\<close>: adding a listener again keeps its place.\<close>

definition subscribe :: "nat \<Rightarrow> editor_registry \<Rightarrow> editor_registry" where
  "subscribe l s = s\<lparr>listeners := (if l \<in> set (listeners s) then listeners s else listeners s @ [l])\<rparr>"

definition unsubscribe :: "nat \<Rightarrow> editor_registry \<Rightarrow> editor_registry" where
  "unsubscribe l s = s\<lparr>listeners := filter (\<lambda>x. x \<noteq> l) (listeners s)\<rparr>"

text \<open>Any operation of the module.\<close>

datatype registry_op =
    Set_EditorExtensions string "contribution list"
  | Remove_EditorExtensions string
  | Get_EditorExtensions
  | Set_EditorTipTapExtensions string "contribution list"
  | Remove_EditorTipTapExtensions string
  | Get_EditorTipTapExtensions
  | Set_EditorBlockSpecs string "spec_map"
  | Remove_EditorBlockSpecs string
  | Get_EditorBlockSpecs
  | Set_EditorStyleSpecs string "spec_map"
  | Remove_EditorStyleSpecs string
  | Get_EditorStyleSpecs
  | Set_EditorSlashMenuItems string "slash_item list"
  | Remove_EditorSlashMenuItems string
  | Get_EditorSlashMenuItems
  | Set_EditorTools string "editor_tool list"
  | Remove_EditorTools string
  | Get_EditorTools
  | Set_EditorBlockActions string "block_action list"
  | Remove_EditorBlockActions string
  | Get_EditorBlockActions
  | Set_EditorLifecycleHooks string "lifecycle_hooks"
  | Remove_EditorLifecycleHooks string
  | Get_EditorLifecycleHooks
  | RemoveAll string
  | Subscribe nat
  | Unsubscribe nat

fun registry_run :: "registry_op \<Rightarrow> editor_registry \<Rightarrow> editor_registry" where
  "registry_run (Set_EditorExtensions a x) s = setEditorExtensions a x s"
| "registry_run (Remove_EditorExtensions a) s = removeEditorExtensions a s"
| "registry_run Get_EditorExtensions s = snd (getAllEditorExtensions s)"
| "registry_run (Set_EditorTipTapExtensions a x) s = setEditorTipTapExtensions a x s"
| "registry_run (Remove_EditorTipTapExtensions a) s = removeEditorTipTapExtensions a s"
| "registry_run Get_EditorTipTapExtensions s = snd (getAllEditorTipTapExtensions s)"
| "registry_run (Set_EditorBlockSpecs a x) s = setEditorBlockSpecs a x s"
| "registry_run (Remove_EditorBlockSpecs a) s = removeEditorBlockSpecs a s"
| "registry_run Get_EditorBlockSpecs s = snd (getAllEditorBlockSpecs s)"
| "registry_run (Set_EditorStyleSpecs a x) s = setEditorStyleSpecs a x s"
| "registry_run (Remove_EditorStyleSpecs a) s = removeEditorStyleSpecs a s"
| "registry_run Get_EditorStyleSpecs s = snd (getAllEditorStyleSpecs s)"
| "registry_run (Set_EditorSlashMenuItems a x) s = setEditorSlashMenuItems a x s"
| "registry_run (Remove_EditorSlashMenuItems a) s = removeEditorSlashMenuItems a s"
| "registry_run Get_EditorSlashMenuItems s = snd (getAllEditorSlashMenuItems s)"
| "registry_run (Set_EditorTools a x) s = setEditorTools a x s"
| "registry_run (Remove_EditorTools a) s = removeEditorTools a s"
| "registry_run Get_EditorTools s = snd (getAllEditorTools s)"
| "registry_run (Set_EditorBlockActions a x) s = setEditorBlockActions a x s"
| "registry_run (Remove_EditorBlockActions a) s = removeEditorBlockActions a s"
| "registry_run Get_EditorBlockActions s = snd (getAllEditorBlockActions s)"
| "registry_run (Set_EditorLifecycleHooks a x) s = setEditorLifecycleHooks a x s"
| "registry_run (Remove_EditorLifecycleHooks a) s = removeEditorLifecycleHooks a s"
| "registry_run Get_EditorLifecycleHooks s = snd (getAllEditorLifecycleHooks s)"
| "registry_run (RemoveAll a) s = removeAllEditorPluginContributions a s"
| "registry_run (Subscribe l) s = subscribe l s"
| "registry_run (Unsubscribe l) s = unsubscribe l s"

section \<open>Snapshot caches\<close>

text \<open>The contract of a cached getter: it answers from the cache when the cache has the current
  version, and otherwise recomputes and refills it.\<close>

locale snapshot_cache =
  fixes version :: "'s \<Rightarrow> int" and cver :: "'s \<Rightarrow> int" and cached :: "'s \<Rightarrow> 'v"
    and compute :: "'s \<Rightarrow> 'v" and get :: "'s \<Rightarrow> 'v \<times> 's"
  assumes get_hit: "cver s = version s \<Longrightarrow> get s = (cached s, s)"
    and get_miss: "cver s \<noteq> version s \<Longrightarrow> fst (get s) = compute s \<and> cver (snd (get s)) = version s \<and>
      cached (snd (get s)) = compute s \<and> version (snd (get s)) = version s \<and> compute (snd (get s)) = compute s"
begin

lemma get_fresh: "(cver s = version s \<longrightarrow> cached s = compute s) \<Longrightarrow> fst (get s) = compute s"
  using get_hit [of s] get_miss [of s] by (cases "cver s = version s") auto

lemma get_fills: "cver (snd (get s)) = version (snd (get s))"
  using get_hit [of s] get_miss [of s] by (cases "cver s = version s") auto

lemma get_stable: "get (snd (get s)) = (fst (get s), snd (get s))"
  using get_hit [of "snd (get s)"] get_fills [of s] get_hit [of s] get_miss [of s]
  by (cases "cver s = version s") auto

end

definition all_EditorExtensions :: "editor_registry \<Rightarrow> contribution list" where
  "all_EditorExtensions s = concat (map_values (extensionRegistry s))"

definition all_EditorTipTapExtensions :: "editor_registry \<Rightarrow> contribution list" where
  "all_EditorTipTapExtensions s = concat (map_values (tiptapExtensionRegistry s))"

definition all_EditorBlockSpecs :: "editor_registry \<Rightarrow> spec_map" where
  "all_EditorBlockSpecs s = fold (\<lambda>specs result. assign result specs) (map_values (blockSpecRegistry s)) []"

definition all_EditorStyleSpecs :: "editor_registry \<Rightarrow> spec_map" where
  "all_EditorStyleSpecs s = fold (\<lambda>specs result. assign result specs) (map_values (styleSpecRegistry s)) []"

definition all_EditorSlashMenuItems :: "editor_registry \<Rightarrow> slash_item list" where
  "all_EditorSlashMenuItems s = sort_key order_of (concat (map_values (slashMenuRegistry s)))"

definition all_EditorTools :: "editor_registry \<Rightarrow> editor_tool list" where
  "all_EditorTools s = concat (map_values (toolRegistry s))"

definition all_EditorBlockActions :: "editor_registry \<Rightarrow> block_action list" where
  "all_EditorBlockActions s = concat (map_values (blockActionRegistry s))"

definition all_EditorLifecycleHooks :: "editor_registry \<Rightarrow> lifecycle_hooks list" where
  "all_EditorLifecycleHooks s = map_values (lifecycleRegistry s)"

lemmas registry_contents =
  all_EditorExtensions_def all_EditorTipTapExtensions_def all_EditorBlockSpecs_def all_EditorStyleSpecs_def all_EditorSlashMenuItems_def all_EditorTools_def all_EditorBlockActions_def all_EditorLifecycleHooks_def

lemmas registry_getters =
  getAllEditorExtensions_def getAllEditorTipTapExtensions_def getAllEditorBlockSpecs_def getAllEditorStyleSpecs_def getAllEditorSlashMenuItems_def getAllEditorTools_def getAllEditorBlockActions_def getAllEditorLifecycleHooks_def

lemmas registry_updates =
  setEditorExtensions_def removeEditorExtensions_def setEditorTipTapExtensions_def removeEditorTipTapExtensions_def setEditorBlockSpecs_def removeEditorBlockSpecs_def setEditorStyleSpecs_def removeEditorStyleSpecs_def setEditorSlashMenuItems_def removeEditorSlashMenuItems_def setEditorTools_def removeEditorTools_def setEditorBlockActions_def removeEditorBlockActions_def setEditorLifecycleHooks_def removeEditorLifecycleHooks_def
  removeAllEditorPluginContributions_def subscribe_def unsubscribe_def emitChange_def

interpretation extension_cache: snapshot_cache snapshotVersion cachedExtensionSnapshotVersion
  cachedExtensionSnapshot all_EditorExtensions getAllEditorExtensions
  by unfold_locales (simp_all add: registry_getters registry_contents Let_def)

interpretation tiptapExtension_cache: snapshot_cache snapshotVersion cachedTipTapExtensionSnapshotVersion
  cachedTipTapExtensionSnapshot all_EditorTipTapExtensions getAllEditorTipTapExtensions
  by unfold_locales (simp_all add: registry_getters registry_contents Let_def)

interpretation blockSpec_cache: snapshot_cache snapshotVersion cachedBlockSpecSnapshotVersion
  cachedBlockSpecSnapshot all_EditorBlockSpecs getAllEditorBlockSpecs
  by unfold_locales (simp_all add: registry_getters registry_contents Let_def)

interpretation styleSpec_cache: snapshot_cache snapshotVersion cachedStyleSpecSnapshotVersion
  cachedStyleSpecSnapshot all_EditorStyleSpecs getAllEditorStyleSpecs
  by unfold_locales (simp_all add: registry_getters registry_contents Let_def)

interpretation slashMenu_cache: snapshot_cache snapshotVersion cachedSlashMenuSnapshotVersion
  cachedSlashMenuSnapshot all_EditorSlashMenuItems getAllEditorSlashMenuItems
  by unfold_locales (simp_all add: registry_getters registry_contents Let_def)

interpretation tool_cache: snapshot_cache snapshotVersion cachedToolSnapshotVersion
  cachedToolSnapshot all_EditorTools getAllEditorTools
  by unfold_locales (simp_all add: registry_getters registry_contents Let_def)

interpretation blockAction_cache: snapshot_cache snapshotVersion cachedBlockActionSnapshotVersion
  cachedBlockActionSnapshot all_EditorBlockActions getAllEditorBlockActions
  by unfold_locales (simp_all add: registry_getters registry_contents Let_def)

interpretation lifecycle_cache: snapshot_cache snapshotVersion cachedLifecycleSnapshotVersion
  cachedLifecycleSnapshot all_EditorLifecycleHooks getAllEditorLifecycleHooks
  by unfold_locales (simp_all add: registry_getters registry_contents Let_def)

definition snapshot_ok :: "int \<Rightarrow> int \<Rightarrow> 'v \<Rightarrow> 'v \<Rightarrow> bool" where
  "snapshot_ok ver cver x y \<longleftrightarrow> cver \<le> ver \<and> (cver = ver \<longrightarrow> x = y)"

lemma snapshot_ok_bump [simp]: "cver \<le> ver \<Longrightarrow> snapshot_ok (ver + 1) cver x y"
  by (simp add: snapshot_ok_def)

lemma snapshot_ok_filled [simp]: "snapshot_ok ver ver x x"
  by (simp add: snapshot_ok_def)

text \<open>A registry is coherent when no cache claims a version it has not seen and every
  cache of the current version holds what its map contains.\<close>

definition coherent :: "editor_registry \<Rightarrow> bool" where
  "coherent s \<longleftrightarrow>
     snapshot_ok (snapshotVersion s) (cachedExtensionSnapshotVersion s) (cachedExtensionSnapshot s) (all_EditorExtensions s) \<and>
     snapshot_ok (snapshotVersion s) (cachedTipTapExtensionSnapshotVersion s) (cachedTipTapExtensionSnapshot s) (all_EditorTipTapExtensions s) \<and>
     snapshot_ok (snapshotVersion s) (cachedBlockSpecSnapshotVersion s) (cachedBlockSpecSnapshot s) (all_EditorBlockSpecs s) \<and>
     snapshot_ok (snapshotVersion s) (cachedStyleSpecSnapshotVersion s) (cachedStyleSpecSnapshot s) (all_EditorStyleSpecs s) \<and>
     snapshot_ok (snapshotVersion s) (cachedSlashMenuSnapshotVersion s) (cachedSlashMenuSnapshot s) (all_EditorSlashMenuItems s) \<and>
     snapshot_ok (snapshotVersion s) (cachedToolSnapshotVersion s) (cachedToolSnapshot s) (all_EditorTools s) \<and>
     snapshot_ok (snapshotVersion s) (cachedBlockActionSnapshotVersion s) (cachedBlockActionSnapshot s) (all_EditorBlockActions s) \<and>
     snapshot_ok (snapshotVersion s) (cachedLifecycleSnapshotVersion s) (cachedLifecycleSnapshot s) (all_EditorLifecycleHooks s)"

lemma coherent_empty: "coherent empty_registry"
  by (simp add: coherent_def empty_registry_def snapshot_ok_def)

lemma coherent_versions:
  assumes "coherent s"
  shows "cachedExtensionSnapshotVersion s \<le> snapshotVersion s"
    "cachedTipTapExtensionSnapshotVersion s \<le> snapshotVersion s"
    "cachedBlockSpecSnapshotVersion s \<le> snapshotVersion s"
    "cachedStyleSpecSnapshotVersion s \<le> snapshotVersion s"
    "cachedSlashMenuSnapshotVersion s \<le> snapshotVersion s"
    "cachedToolSnapshotVersion s \<le> snapshotVersion s"
    "cachedBlockActionSnapshotVersion s \<le> snapshotVersion s"
    "cachedLifecycleSnapshotVersion s \<le> snapshotVersion s"
  using assms by (simp_all add: coherent_def snapshot_ok_def)

lemma coherent_hits:
  assumes "coherent s"
  shows "cachedExtensionSnapshotVersion s = snapshotVersion s \<Longrightarrow> cachedExtensionSnapshot s = all_EditorExtensions s"
    "cachedTipTapExtensionSnapshotVersion s = snapshotVersion s \<Longrightarrow> cachedTipTapExtensionSnapshot s = all_EditorTipTapExtensions s"
    "cachedBlockSpecSnapshotVersion s = snapshotVersion s \<Longrightarrow> cachedBlockSpecSnapshot s = all_EditorBlockSpecs s"
    "cachedStyleSpecSnapshotVersion s = snapshotVersion s \<Longrightarrow> cachedStyleSpecSnapshot s = all_EditorStyleSpecs s"
    "cachedSlashMenuSnapshotVersion s = snapshotVersion s \<Longrightarrow> cachedSlashMenuSnapshot s = all_EditorSlashMenuItems s"
    "cachedToolSnapshotVersion s = snapshotVersion s \<Longrightarrow> cachedToolSnapshot s = all_EditorTools s"
    "cachedBlockActionSnapshotVersion s = snapshotVersion s \<Longrightarrow> cachedBlockActionSnapshot s = all_EditorBlockActions s"
    "cachedLifecycleSnapshotVersion s = snapshotVersion s \<Longrightarrow> cachedLifecycleSnapshot s = all_EditorLifecycleHooks s"
  using assms by (simp_all add: coherent_def snapshot_ok_def)

lemma coherent_run:
  assumes "coherent s"
  shows "coherent (registry_run op s)"
proof -
  note parts = assms [unfolded coherent_def registry_contents] coherent_versions [OF assms]
    coherent_hits [OF assms, unfolded registry_contents]
  show ?thesis
    by (cases op) (simp_all add: coherent_def registry_updates registry_getters registry_contents Let_def parts delete_absent)
qed

lemma coherent_fold: "coherent s \<Longrightarrow> coherent (fold registry_run ops s)"
  by (induction ops arbitrary: s) (auto simp: coherent_run)

lemmas coherent_reached = coherent_fold [OF coherent_empty]

text \<open>What is left in the maps after a removal.\<close>

lemma removeAll_maps:
  "map_get (extensionRegistry (removeAllEditorPluginContributions source s)) k = (if k = source then None else map_get (extensionRegistry s) k)"
  "map_get (tiptapExtensionRegistry (removeAllEditorPluginContributions source s)) k = (if k = source then None else map_get (tiptapExtensionRegistry s) k)"
  "map_get (blockSpecRegistry (removeAllEditorPluginContributions source s)) k = (if k = source then None else map_get (blockSpecRegistry s) k)"
  "map_get (styleSpecRegistry (removeAllEditorPluginContributions source s)) k = (if k = source then None else map_get (styleSpecRegistry s) k)"
  "map_get (slashMenuRegistry (removeAllEditorPluginContributions source s)) k = (if k = source then None else map_get (slashMenuRegistry s) k)"
  "map_get (toolRegistry (removeAllEditorPluginContributions source s)) k = (if k = source then None else map_get (toolRegistry s) k)"
  "map_get (blockActionRegistry (removeAllEditorPluginContributions source s)) k = (if k = source then None else map_get (blockActionRegistry s) k)"
  "map_get (lifecycleRegistry (removeAllEditorPluginContributions source s)) k = (if k = source then None else map_get (lifecycleRegistry s) k)"
  by (simp_all add: removeAllEditorPluginContributions_def emitChange_def Let_def js_maps)

section \<open>Properties\<close>

text \<open>C16. After any sequence of contributions, removals, reads and subscriptions, every getter
  returns exactly what its map holds at that moment: no cached snapshot is ever stale.\<close>

theorem registry_getters_fresh:
  fixes ops :: "registry_op list"
  shows "let s = fold registry_run ops empty_registry in
     fst (getAllEditorExtensions s) = all_EditorExtensions s \<and>
     fst (getAllEditorTipTapExtensions s) = all_EditorTipTapExtensions s \<and>
     fst (getAllEditorBlockSpecs s) = all_EditorBlockSpecs s \<and>
     fst (getAllEditorStyleSpecs s) = all_EditorStyleSpecs s \<and>
     fst (getAllEditorSlashMenuItems s) = all_EditorSlashMenuItems s \<and>
     fst (getAllEditorTools s) = all_EditorTools s \<and>
     fst (getAllEditorBlockActions s) = all_EditorBlockActions s \<and>
     fst (getAllEditorLifecycleHooks s) = all_EditorLifecycleHooks s"
proof -
  let ?s = "fold registry_run ops empty_registry"
  note hits = coherent_hits [OF coherent_reached, of ops]
  show ?thesis
    unfolding Let_def
    by (intro conjI extension_cache.get_fresh
      tiptapExtension_cache.get_fresh
      blockSpec_cache.get_fresh
      styleSpec_cache.get_fresh
      slashMenu_cache.get_fresh
      tool_cache.get_fresh
      blockAction_cache.get_fresh
      lifecycle_cache.get_fresh
      impI hits)
qed

text \<open>Reading twice in a row gives the same snapshot from the same state and notifies nobody,
  which is what \<open>useSyncExternalStore\<close> requires of a \<open>getSnapshot\<close> function.\<close>

theorem registry_getters_stable:
  "getAllEditorExtensions (snd (getAllEditorExtensions s)) = getAllEditorExtensions s \<and> notified (snd (getAllEditorExtensions s)) = notified s \<and>
   getAllEditorTipTapExtensions (snd (getAllEditorTipTapExtensions s)) = getAllEditorTipTapExtensions s \<and> notified (snd (getAllEditorTipTapExtensions s)) = notified s \<and>
   getAllEditorBlockSpecs (snd (getAllEditorBlockSpecs s)) = getAllEditorBlockSpecs s \<and> notified (snd (getAllEditorBlockSpecs s)) = notified s \<and>
   getAllEditorStyleSpecs (snd (getAllEditorStyleSpecs s)) = getAllEditorStyleSpecs s \<and> notified (snd (getAllEditorStyleSpecs s)) = notified s \<and>
   getAllEditorSlashMenuItems (snd (getAllEditorSlashMenuItems s)) = getAllEditorSlashMenuItems s \<and> notified (snd (getAllEditorSlashMenuItems s)) = notified s \<and>
   getAllEditorTools (snd (getAllEditorTools s)) = getAllEditorTools s \<and> notified (snd (getAllEditorTools s)) = notified s \<and>
   getAllEditorBlockActions (snd (getAllEditorBlockActions s)) = getAllEditorBlockActions s \<and> notified (snd (getAllEditorBlockActions s)) = notified s \<and>
   getAllEditorLifecycleHooks (snd (getAllEditorLifecycleHooks s)) = getAllEditorLifecycleHooks s \<and> notified (snd (getAllEditorLifecycleHooks s)) = notified s"
  using extension_cache.get_stable [of s] tiptapExtension_cache.get_stable [of s] blockSpec_cache.get_stable [of s] styleSpec_cache.get_stable [of s] slashMenu_cache.get_stable [of s] tool_cache.get_stable [of s] blockAction_cache.get_stable [of s] lifecycle_cache.get_stable [of s]
  by (simp add: registry_getters Let_def)

text \<open>Removing a plugin's contributions takes its source out of all eight maps, leaves every other
  source as it was, and notifies the listeners exactly when something was removed.\<close>

theorem removeAll_correct:
  "let s' = removeAllEditorPluginContributions source s in
   (\<forall>k. map_get (extensionRegistry s') k = (if k = source then None else map_get (extensionRegistry s) k) \<and>
     map_get (tiptapExtensionRegistry s') k = (if k = source then None else map_get (tiptapExtensionRegistry s) k) \<and>
     map_get (blockSpecRegistry s') k = (if k = source then None else map_get (blockSpecRegistry s) k) \<and>
     map_get (styleSpecRegistry s') k = (if k = source then None else map_get (styleSpecRegistry s) k) \<and>
     map_get (slashMenuRegistry s') k = (if k = source then None else map_get (slashMenuRegistry s) k) \<and>
     map_get (toolRegistry s') k = (if k = source then None else map_get (toolRegistry s) k) \<and>
     map_get (blockActionRegistry s') k = (if k = source then None else map_get (blockActionRegistry s) k) \<and>
     map_get (lifecycleRegistry s') k = (if k = source then None else map_get (lifecycleRegistry s) k)) \<and>
   notified s' = notified s @
     (if map_has (extensionRegistry s) source \<or>
         map_has (tiptapExtensionRegistry s) source \<or>
         map_has (blockSpecRegistry s) source \<or>
         map_has (styleSpecRegistry s) source \<or>
         map_has (slashMenuRegistry s) source \<or>
         map_has (toolRegistry s) source \<or>
         map_has (blockActionRegistry s) source \<or>
         map_has (lifecycleRegistry s) source
      then listeners s else [])"
  by (simp add: removeAllEditorPluginContributions_def emitChange_def Let_def js_maps)

text \<open>The slash menu lists all contributed items by ascending \<open>order\<close> (0 when absent), and
  items of equal order keep the order in which they were contributed.\<close>

theorem slash_menu_order:
  fixes ops :: "registry_op list"
  shows "let s = fold registry_run ops empty_registry;
      items = fst (getAllEditorSlashMenuItems s); contributed = concat (map_values (slashMenuRegistry s)) in
    sorted (map order_of items) \<and> mset items = mset contributed \<and>
    (\<forall>k. filter (\<lambda>i. order_of i = k) items = filter (\<lambda>i. order_of i = k) contributed)"
proof -
  let ?s = "fold registry_run ops empty_registry"
  have "fst (getAllEditorSlashMenuItems ?s) = all_EditorSlashMenuItems ?s"
    using coherent_hits(5) [OF coherent_reached, of ops] by (rule slashMenu_cache.get_fresh [OF impI])
  then show ?thesis
    by (simp add: Let_def all_EditorSlashMenuItems_def sort_key_stable)
qed

end
