(* ===== verification/Contribution_Registries.thy ===== *)
theory Contribution_Registries
  imports Editor_Registry
begin

text \<open>
  The other registries plugins contribute to: \<open>command-palette/registry/commandRegistry.store.ts\<close>,
  \<open>sidebar/registry/sidebarRegistry.store.ts\<close>, \<open>config/pluginConfigRegistry.ts\<close> and
  \<open>config/pluginConfigValidation.ts\<close>.  What a command does is opaque: \<open>cmd_action\<close> names
  the closure.
\<close>

section \<open>Commands\<close>

record command_option =
  cmd_id :: string
  cmd_text :: string
  cmd_hint :: "string option"
  cmd_shortcut :: "string option"
  cmd_group :: "string option"
  cmd_keywords :: "string list option"
  cmd_keepOpen :: "bool option"
  cmd_action :: contribution

definition COMMAND_SOURCE_ORDER :: "string list" where
  "COMMAND_SOURCE_ORDER =
     [''navigation'', ''create'', ''document'', ''git'', ''projects'', ''application'']"

definition areKeywordArraysEqual :: "string list option \<Rightarrow> string list option \<Rightarrow> bool" where
  "areKeywordArraysEqual a b \<longleftrightarrow>
     (case a of None \<Rightarrow> [] | Some x \<Rightarrow> x) = (case b of None \<Rightarrow> [] | Some y \<Rightarrow> y)"

definition same_command :: "command_option \<Rightarrow> command_option \<Rightarrow> bool" where
  "same_command a b \<longleftrightarrow>
     cmd_id a = cmd_id b \<and> cmd_text a = cmd_text b \<and> cmd_hint a = cmd_hint b \<and>
     cmd_shortcut a = cmd_shortcut b \<and> cmd_group a = cmd_group b \<and> cmd_keepOpen a = cmd_keepOpen b \<and>
     areKeywordArraysEqual (cmd_keywords a) (cmd_keywords b)"

definition areCommandsEquivalent :: "command_option list option \<Rightarrow> command_option list \<Rightarrow> bool" where
  "areCommandsEquivalent previous next =
     (case previous of
        None \<Rightarrow> False
      | Some p \<Rightarrow> length p = length next \<and> list_all (\<lambda>(a, b). same_command a b) (zip p next))"

type_synonym command_sources = "(string, command_option list) jsmap"

definition setCommands :: "string \<Rightarrow> command_option list \<Rightarrow> command_sources \<Rightarrow> command_sources" where
  "setCommands source commands sources =
     (if areCommandsEquivalent (map_get sources source) commands then sources
      else map_set source commands sources)"

definition removeCommandSource :: "string \<Rightarrow> command_sources \<Rightarrow> command_sources" where
  "removeCommandSource source sources =
     (if \<not> map_has sources source then sources else map_delete source sources)"

text \<open>The sources of the fixed order first, then every other source as it comes.\<close>

definition ordered_sources :: "string list \<Rightarrow> (string, 'a list) jsmap \<Rightarrow> 'a list" where
  "ordered_sources order sources =
     concat (map (\<lambda>k. case map_get sources k of Some l \<Rightarrow> l | None \<Rightarrow> []) order) @
     concat (map snd (filter (\<lambda>(k, _). k \<notin> set order) sources))"

definition getAllCommands :: "command_sources \<Rightarrow> command_option list" where
  "getAllCommands sources = ordered_sources COMMAND_SOURCE_ORDER sources"

text \<open>\<open>registry/commands/createCommands.tsx\<close>: the closures capture the alias of the project that
  is current when they are built.  \<open>getShortcut\<close> stands for \<open>getShortcutForCommand\<close>.\<close>

definition create_in :: "string \<Rightarrow> string \<Rightarrow> contribution" where
  "create_in kind alias = kind @ '' in '' @ alias"

definition registerCreateCommands ::
  "(string \<Rightarrow> string option) \<Rightarrow> string option \<Rightarrow> command_sources \<Rightarrow> command_sources" where
  "registerCreateCommands getShortcut currentProject sources =
     setCommands ''create''
       (case currentProject of
          None \<Rightarrow> []
        | Some alias \<Rightarrow>
            [\<lparr> cmd_id = ''new-document'', cmd_text = ''New Document'', cmd_hint = Some ''Create new entry'',
               cmd_shortcut = getShortcut ''new-document'', cmd_group = Some ''Create'',
               cmd_keywords = Some [''create'', ''add'', ''note''], cmd_keepOpen = None,
               cmd_action = create_in ''document'' alias \<rparr>,
             \<lparr> cmd_id = ''new-canvas'', cmd_text = ''New Canvas'', cmd_hint = Some ''Create new canvas'',
               cmd_shortcut = getShortcut ''new-canvas'', cmd_group = Some ''Create'',
               cmd_keywords = Some [''create'', ''add'', ''canvas'', ''draw'', ''diagram''], cmd_keepOpen = None,
               cmd_action = create_in ''canvas'' alias \<rparr>])
       sources"

section \<open>Sidebar sections\<close>

record sidebar_section =
  section_id :: string
  section_title :: string
  section_items :: "contribution list"

definition SIDEBAR_SOURCE_ORDER :: "string list" where
  "SIDEBAR_SOURCE_ORDER = [''core'', ''additional'']"

type_synonym section_sources = "(string, sidebar_section list) jsmap"

definition setSections :: "string \<Rightarrow> sidebar_section list \<Rightarrow> section_sources \<Rightarrow> section_sources" where
  "setSections source xs sources = map_set source xs sources"

definition removeSectionSource :: "string \<Rightarrow> section_sources \<Rightarrow> section_sources" where
  "removeSectionSource source sources = map_delete source sources"

definition getAllSections :: "section_sources \<Rightarrow> sidebar_section list" where
  "getAllSections sources = ordered_sources SIDEBAR_SOURCE_ORDER sources"

section \<open>Plugin configuration\<close>

text \<open>A Zod schema is represented by what \<open>safeParse\<close> answers: the parsed value or the
  messages of the issues.\<close>

record config_schema =
  safeParse :: "json \<Rightarrow> string list + json"
  defaults :: json

type_synonym config_registry = "(string, config_schema) jsmap"

definition registerPluginConfig :: "string \<Rightarrow> config_schema \<Rightarrow> config_registry \<Rightarrow> config_registry" where
  "registerPluginConfig pluginId d r = map_set pluginId d r"

definition unregisterPluginConfig :: "string \<Rightarrow> config_registry \<Rightarrow> config_registry" where
  "unregisterPluginConfig pluginId r = map_delete pluginId r"

definition getPluginConfigDefinition :: "config_registry \<Rightarrow> string \<Rightarrow> config_schema option" where
  "getPluginConfigDefinition r pluginId = map_get r pluginId"

definition getRegisteredPluginIds :: "config_registry \<Rightarrow> string list" where
  "getRegisteredPluginIds r = map_keys r"

datatype config_result = Valid json | Invalid "string list" json

fun config_data :: "config_result \<Rightarrow> json" where
  "config_data (Valid v) = v"
| "config_data (Invalid _ v) = v"

definition validatePluginConfig :: "config_registry \<Rightarrow> string \<Rightarrow> json \<Rightarrow> config_result" where
  "validatePluginConfig r pluginId raw =
     (case getPluginConfigDefinition r pluginId of
        None \<Rightarrow> Valid raw
      | Some d \<Rightarrow>
          (case safeParse d raw of Inr v \<Rightarrow> Valid v | Inl errors \<Rightarrow> Invalid errors (defaults d)))"

section \<open>Removing a source\<close>

text \<open>What the plugin host relies on when it takes a plugin out: removing a source forgets what it contributed
  and nothing else.\<close>

locale contribution_store =
  fixes contributed :: "'s \<Rightarrow> string \<Rightarrow> 'v option"
    and remove :: "string \<Rightarrow> 's \<Rightarrow> 's"
  assumes contributed_remove: "contributed (remove source s) k = (if k = source then None else contributed s k)"
begin

lemma removed: "contributed (remove source s) source = None"
  by (simp add: contributed_remove)

lemma kept: "k \<noteq> source \<Longrightarrow> contributed (remove source s) k = contributed s k"
  by (simp add: contributed_remove)

lemma remove_twice: "contributed (remove source (remove source s)) = contributed (remove source s)"
  by (simp add: contributed_remove fun_eq_iff)

lemma remove_commute: "contributed (remove a (remove b s)) = contributed (remove b (remove a s))"
  by (auto simp: contributed_remove fun_eq_iff)

end

interpretation commands: contribution_store "map_get :: command_sources \<Rightarrow> _" removeCommandSource
  by unfold_locales (auto simp: removeCommandSource_def js_maps map_has_def)

interpretation sections: contribution_store "map_get :: section_sources \<Rightarrow> _" removeSectionSource
  by unfold_locales (simp add: removeSectionSource_def js_maps)

interpretation configs: contribution_store getPluginConfigDefinition unregisterPluginConfig
  by unfold_locales (simp add: unregisterPluginConfig_def getPluginConfigDefinition_def js_maps)

text \<open>The editor registry as one store: the eight contributions of a source together.\<close>

definition editor_contributed :: "editor_registry \<Rightarrow> string \<Rightarrow>
    (contribution list option \<times> contribution list option \<times> spec_map option \<times> spec_map option \<times>
     slash_item list option \<times> editor_tool list option \<times> block_action list option \<times> lifecycle_hooks option) option" where
  "editor_contributed s k =
     (let t = (map_get (extensionRegistry s) k, map_get (tiptapExtensionRegistry s) k,
               map_get (blockSpecRegistry s) k, map_get (styleSpecRegistry s) k,
               map_get (slashMenuRegistry s) k, map_get (toolRegistry s) k,
               map_get (blockActionRegistry s) k, map_get (lifecycleRegistry s) k)
      in if t = (None, None, None, None, None, None, None, None) then None else Some t)"

interpretation editor: contribution_store editor_contributed removeAllEditorPluginContributions
proof unfold_locales
  fix source s k
  show "editor_contributed (removeAllEditorPluginContributions source s) k =
      (if k = source then None else editor_contributed s k)"
    by (cases "k = source") (simp_all add: editor_contributed_def removeAll_maps)
qed

section \<open>Lemmas\<close>

lemma wf_setCommands [simp, intro]: "wf_map s \<Longrightarrow> wf_map (setCommands src xs s)"
  by (simp add: setCommands_def)

lemma mset_concat_split:
  assumes "distinct order" "wf_map sources"
  shows "mset (concat (map (\<lambda>k. case map_get sources k of Some l \<Rightarrow> l | None \<Rightarrow> []) order)) +
    mset (concat (map snd (filter (\<lambda>(k, _). k \<notin> set order) sources))) = mset (concat (map snd sources))"
  using assms
proof (induction sources)
  case Nil
  then show ?case by (induction order) auto
next
  case (Cons e sources)
  obtain k l where e: "e = (k, l)" by (cases e)
  from Cons.prems e have wf: "wf_map sources" and nk: "map_get sources k = None"
    by (auto simp: wf_map_def map_of_eq_None_iff)
  have "mset (concat (map (\<lambda>x. case map_get (e # sources) x of Some l \<Rightarrow> l | None \<Rightarrow> []) ord)) =
      (if k \<in> set ord then mset l else {#}) +
      mset (concat (map (\<lambda>x. case map_get sources x of Some l \<Rightarrow> l | None \<Rightarrow> []) ord))"
    if "distinct ord" for ord
    using that by (induction ord) (auto simp: e nk)
  from this [OF Cons.prems(1)] Cons.IH [OF Cons.prems(1) wf] e show ?case
    by auto
qed

section \<open>Properties\<close>

text \<open>The palette lists every registered command of every source exactly as often as it was
  registered: ordering the built-in sources first loses and duplicates nothing.\<close>

theorem getAllCommands_complete:
  assumes "wf_map sources"
  shows "mset (getAllCommands sources) = mset (concat (map snd sources))"
proof -
  have "distinct COMMAND_SOURCE_ORDER" by (simp add: COMMAND_SOURCE_ORDER_def)
  from mset_concat_split [OF this assms] show ?thesis
    by (simp add: getAllCommands_def ordered_sources_def)
qed

text \<open>Registering the create commands for another project has no effect: the new list is equivalent to the
  old one in everything the store compares, so the store keeps the old closures and \<open>New Document\<close> still
  creates in the project that was current before.\<close>

theorem create_commands_stale:
  "map cmd_action (getAllCommands
     (registerCreateCommands getShortcut (Some b) (registerCreateCommands getShortcut (Some a) []))) =
   [create_in ''document'' a, create_in ''canvas'' a]"
  by (simp add: registerCreateCommands_def setCommands_def areCommandsEquivalent_def same_command_def
      areKeywordArraysEqual_def getAllCommands_def ordered_sources_def COMMAND_SOURCE_ORDER_def)

text \<open>Plugin settings handed to a plugin always conform to its schema or are its declared defaults.\<close>

theorem validatePluginConfig_correct:
  assumes "getPluginConfigDefinition r pluginId = Some d"
  shows "safeParse d raw = Inr (config_data (validatePluginConfig r pluginId raw)) \<or>
    (\<exists>e. safeParse d raw = Inl e \<and> config_data (validatePluginConfig r pluginId raw) = defaults d)"
  using assms by (auto simp: validatePluginConfig_def split: sum.split)

section \<open>Witnesses\<close>

definition sample_command :: "string \<Rightarrow> command_option" where
  "sample_command i = \<lparr> cmd_id = i, cmd_text = i, cmd_hint = None, cmd_shortcut = None, cmd_group = None,
     cmd_keywords = None, cmd_keepOpen = None, cmd_action = i \<rparr>"

theorem getAllCommands_complete_witness:
  "mset (getAllCommands [(''plugin:x'', [sample_command ''x'']), (''git'', [sample_command ''sync''])]) =
    {# sample_command ''x'', sample_command ''sync'' #}"
  using getAllCommands_complete [of "[(''plugin:x'', [sample_command ''x'']), (''git'', [sample_command ''sync''])]"]
  by (simp add: wf_map_def)

definition sample_schema :: config_schema where
  "sample_schema = \<lparr> safeParse = (\<lambda>j. case j of JBool b \<Rightarrow> Inr (JBool b) | _ \<Rightarrow> Inl [''expected boolean'']),
     defaults = JBool False \<rparr>"

theorem validatePluginConfig_witness:
  "config_data (validatePluginConfig [(''p'', sample_schema)] ''p'' (JNum 3)) = JBool False"
  using validatePluginConfig_correct [of "[(''p'', sample_schema)]" "''p''" sample_schema "JNum 3"]
  by (simp add: getPluginConfigDefinition_def sample_schema_def)

end
