(* ===== verification/Shortcuts.thy ===== *)
theory Shortcuts
  imports Yanta_Base
begin

text \<open>
  The shortcut tables, \<open>config/shortcuts.ts\<close>: the default key and description of every
  action, group by group, and the flattened list the settings page shows.  The display formatting of
  key names (Unicode arrows and modifier symbols) is not modelled.
\<close>

record shortcut_def =
  key :: string
  description :: string

type_synonym shortcut_group = "(string, shortcut_def) jsmap"

definition def_of :: "string \<Rightarrow> string \<Rightarrow> shortcut_def" where
  "def_of k d = \<lparr> key = k, description = d \<rparr>"

section \<open>Default tables\<close>

definition GLOBAL_SHORTCUTS :: shortcut_group where
  "GLOBAL_SHORTCUTS = [
     (''help'', def_of ''shift+/'' ''Toggle help''),
     (''quit'', def_of ''ctrl+q'' ''Quit (background if enabled)''),
     (''forceQuit'', def_of ''ctrl+shift+q'' ''Force quit application''),
     (''commandPalette'', def_of ''mod+K'' ''Open command palette''),
     (''globalSearch'', def_of ''mod+shift+F'' ''Search all documents''),
     (''today'', def_of ''mod+T'' ''Jump to today's journal''),
     (''switchProject'', def_of ''ctrl+Tab'' ''Switch to last project''),
     (''projectSwitcher'', def_of ''mod+shift+K'' ''Switch project''),
     (''navBack'', def_of ''alt+ArrowLeft'' ''Go back''),
     (''navForward'', def_of ''alt+ArrowRight'' ''Go forward''),
     (''gitSync'', def_of ''mod+shift+S'' ''Sync to git remote'')]"

definition SIDEBAR_SHORTCUTS :: shortcut_group where
  "SIDEBAR_SHORTCUTS = [
     (''toggle'', def_of ''ctrl+b'' ''Toggle sidebar'')]"

definition PANE_SHORTCUTS :: shortcut_group where
  "PANE_SHORTCUTS = [
     (''documentPicker'', def_of ''alt+O'' ''Toggle document picker overlay''),
     (''splitRight'', def_of (''mod+'' @ [CHR 0x5C]) ''Split pane right''),
     (''splitDown'', def_of (''mod+shift+'' @ [CHR 0x5C]) ''Split pane down''),
     (''close'', def_of ''alt+x'' ''Close pane''),
     (''focusLeft'', def_of ''alt+h'' ''Focus pane left''),
     (''focusDown'', def_of ''alt+j'' ''Focus pane down''),
     (''focusUp'', def_of ''alt+k'' ''Focus pane up''),
     (''focusRight'', def_of ''alt+l'' ''Focus pane right''),
     (''focusMode'', def_of ''alt+z'' ''Toggle focus mode (dim surrounding blocks)'')]"

definition DOCUMENT_SHORTCUTS :: shortcut_group where
  "DOCUMENT_SHORTCUTS = [
     (''save'', def_of ''mod+s'' ''Save document''),
     (''documentSearch'', def_of ''mod+F'' ''Find in document''),
     (''documentReplace'', def_of ''mod+H'' ''Replace in document''),
     (''exportMd'', def_of ''mod+e'' ''Export to Markdown''),
     (''exportPdf'', def_of ''mod+shift+e'' ''Export to PDF''),
     (''back'', def_of ''Escape'' ''Unfocus editor, or go back to dashboard''),
     (''unfocus'', def_of ''mod+shift+C'' ''Unfocus editor''),
     (''focusEditor'', def_of ''Enter'' ''Focus editor when unfocused''),
     (''deleteBlock'', def_of ''ctrl+d'' ''Delete block (Document page)''),
     (''moveBlockUp'', def_of ''mod+shift+ArrowUp'' ''Move block up''),
     (''moveBlockDown'', def_of ''mod+shift+ArrowDown'' ''Move block down''),
     (''duplicateBlock'', def_of ''mod+shift+D'' ''Duplicate block''),
     (''toggleOutline'', def_of ''mod+shift+O'' ''Toggle document outline'')]"

definition DASHBOARD_SHORTCUTS :: shortcut_group where
  "DASHBOARD_SHORTCUTS = [
     (''newDocument'', def_of ''mod+N'' ''Create new document''),
     (''toggleArchived'', def_of ''mod+shift+A'' ''Toggle archived documents view''),
     (''selectAll'', def_of ''mod+A'' ''Select all documents''),
     (''permanentDelete'', def_of ''mod+shift+D'' ''Permanently delete selected documents''),
     (''toggleSelection'', def_of ''Space'' ''Select/deselect highlighted document''),
     (''openHighlighted'', def_of ''Enter'' ''Open highlighted document''),
     (''highlightNext'', def_of ''j'' ''Highlight next document''),
     (''highlightPrev'', def_of ''k'' ''Highlight previous document''),
     (''navigateDown'', def_of ''ArrowDown'' ''Navigate down''),
     (''navigateUp'', def_of ''ArrowUp'' ''Navigate up''),
     (''move'', def_of ''mod+M'' ''Move selected documents to another project''),
     (''archive'', def_of ''mod+D'' ''Archive selected documents''),
     (''restore'', def_of ''mod+U'' ''Restore archived documents''),
     (''exportMd'', def_of ''mod+E'' ''Export selected documents to markdown''),
     (''exportPdf'', def_of ''mod+shift+E'' ''Export selected documents to PDF'')]"

definition JOURNAL_SHORTCUTS :: shortcut_group where
  "JOURNAL_SHORTCUTS = [
     (''nextDay'', def_of ''ctrl+n'' ''Next day''),
     (''prevDay'', def_of ''ctrl+p'' ''Previous day''),
     (''arrowNextDay'', def_of ''ArrowRight'' ''Next day''),
     (''arrowPrevDay'', def_of ''ArrowLeft'' ''Previous day''),
     (''highlightNext'', def_of ''j'' ''Highlight next entry''),
     (''highlightPrev'', def_of ''k'' ''Highlight previous entry''),
     (''navigateDown'', def_of ''ArrowDown'' ''Navigate down''),
     (''navigateUp'', def_of ''ArrowUp'' ''Navigate up''),
     (''toggleSelection'', def_of ''Space'' ''Select/deselect highlighted entry''),
     (''delete'', def_of ''mod+D'' ''Delete selected entries''),
     (''promote'', def_of ''mod+shift+p'' ''Promote selected entries to document'')]"

definition PROJECTS_SHORTCUTS :: shortcut_group where
  "PROJECTS_SHORTCUTS = [
     (''newProject'', def_of ''mod+N'' ''Create new project''),
     (''selectNext'', def_of ''j'' ''Select next project''),
     (''selectPrev'', def_of ''k'' ''Select previous project''),
     (''arrowDown'', def_of ''ArrowDown'' ''Select next project''),
     (''arrowUp'', def_of ''ArrowUp'' ''Select previous project''),
     (''switchToSelected'', def_of ''Enter'' ''Switch to selected project''),
     (''selectAll'', def_of ''mod+A'' ''Select all projects''),
     (''archive'', def_of '''' ''Archive selected project''),
     (''restore'', def_of ''mod+U'' ''Restore archived project''),
     (''delete'', def_of ''mod+D'' ''Delete selected project''),
     (''permanentDelete'', def_of ''mod+shift+D'' ''Permanently delete selected project''),
     (''toggleArchivedProjects'', def_of ''ctrl+shift+a'' ''Toggle show archived (Projects page)'')]"

definition QUICK_CAPTURE_SHORTCUTS :: shortcut_group where
  "QUICK_CAPTURE_SHORTCUTS = [
     (''save'', def_of ''ctrl+enter'' ''Save and close''),
     (''saveAndStay'', def_of ''shift+enter'' ''Save and stay''),
     (''cancel'', def_of ''Escape'' ''Cancel / discard'')]"

definition COMMAND_LINE_SHORTCUTS :: shortcut_group where
  "COMMAND_LINE_SHORTCUTS = [
     (''focusCommandLine'', def_of '':'' ''Focus command line''),
     (''exitCommandLine'', def_of ''Esc'' ''Exit command line'')]"

definition SEARCH_SHORTCUTS :: shortcut_group where
  "SEARCH_SHORTCUTS = [
     (''focusInput'', def_of ''/'' ''Focus search input (Search page)''),
     (''toResults'', def_of ''Tab'' ''Move to results (Search page)''),
     (''navigateDown'', def_of ''j'' ''Navigate down results (Search page)''),
     (''navigateUp'', def_of ''k'' ''Navigate up results (Search page)''),
     (''open'', def_of ''Enter'' ''Open selected search result''),
     (''unfocus'', def_of ''Esc'' ''Unfocus search input (Search page)'')]"

definition SETTINGS_SHORTCUTS :: shortcut_group where
  "SETTINGS_SHORTCUTS = [
     (''navNext'', def_of ''j'' ''Next section''),
     (''navPrev'', def_of ''k'' ''Previous section'')]"

definition QUICK_CAPTURE_DEFAULT :: shortcut_def where
  "QUICK_CAPTURE_DEFAULT = def_of ''ctrl+shift+n'' ''Open Quick Capture''"

section \<open>The merged groups\<close>

record merged_shortcuts =
  sc_global :: shortcut_group
  sc_sidebar :: shortcut_group
  sc_document :: shortcut_group
  sc_dashboard :: shortcut_group
  sc_journal :: shortcut_group
  sc_projects :: shortcut_group
  sc_quickCapture :: shortcut_group
  sc_settings :: shortcut_group
  sc_commandLine :: shortcut_group
  sc_search :: shortcut_group
  sc_pane :: shortcut_group

definition DEFAULT_SHORTCUTS :: merged_shortcuts where
  "DEFAULT_SHORTCUTS = \<lparr>
     sc_global = GLOBAL_SHORTCUTS, sc_sidebar = SIDEBAR_SHORTCUTS, sc_document = DOCUMENT_SHORTCUTS,
     sc_dashboard = DASHBOARD_SHORTCUTS, sc_journal = JOURNAL_SHORTCUTS, sc_projects = PROJECTS_SHORTCUTS,
     sc_quickCapture = map_set ''default'' QUICK_CAPTURE_DEFAULT QUICK_CAPTURE_SHORTCUTS,
     sc_settings = SETTINGS_SHORTCUTS, sc_commandLine = COMMAND_LINE_SHORTCUTS,
     sc_search = SEARCH_SHORTCUTS, sc_pane = PANE_SHORTCUTS \<rparr>"

lemmas shortcut_tables =
  GLOBAL_SHORTCUTS_def SIDEBAR_SHORTCUTS_def PANE_SHORTCUTS_def DOCUMENT_SHORTCUTS_def
  DASHBOARD_SHORTCUTS_def JOURNAL_SHORTCUTS_def PROJECTS_SHORTCUTS_def QUICK_CAPTURE_SHORTCUTS_def
  COMMAND_LINE_SHORTCUTS_def SEARCH_SHORTCUTS_def SETTINGS_SHORTCUTS_def

section \<open>The settings table\<close>

record shortcut_row =
  row_id :: string
  row_action :: string
  row_key :: string

definition rows_of :: "string \<Rightarrow> shortcut_group \<Rightarrow> shortcut_row list" where
  "rows_of grp defs =
     map (\<lambda>(name, d). \<lparr> row_id = grp @ ''.'' @ name, row_action = description d, row_key = key d \<rparr>) defs"

definition getShortcutsForSettings :: "shortcut_row list" where
  "getShortcutsForSettings =
     rows_of ''global'' GLOBAL_SHORTCUTS @ rows_of ''sidebar'' SIDEBAR_SHORTCUTS @
     rows_of ''document'' DOCUMENT_SHORTCUTS @ rows_of ''dashboard'' DASHBOARD_SHORTCUTS @
     rows_of ''journal'' JOURNAL_SHORTCUTS @ rows_of ''projects'' PROJECTS_SHORTCUTS @
     [\<lparr> row_id = ''quickCapture.default'', row_action = description QUICK_CAPTURE_DEFAULT,
        row_key = key QUICK_CAPTURE_DEFAULT \<rparr>] @
     rows_of ''quickCapture'' QUICK_CAPTURE_SHORTCUTS @ rows_of ''settings'' SETTINGS_SHORTCUTS @
     rows_of ''commandLine'' COMMAND_LINE_SHORTCUTS @ rows_of ''search'' SEARCH_SHORTCUTS @
     rows_of ''pane'' PANE_SHORTCUTS"

text \<open>The \<open>default\<close> entry of the quick-capture group is always there; without it the source
  would throw, which is \<open>None\<close> here.\<close>

definition getShortcutsForSettingsFromMerged :: "merged_shortcuts \<Rightarrow> shortcut_row list option" where
  "getShortcutsForSettingsFromMerged s =
     (case map_get (sc_quickCapture s) ''default'' of
        None \<Rightarrow> None
      | Some qd \<Rightarrow> Some (
          rows_of ''global'' (sc_global s) @ rows_of ''sidebar'' (sc_sidebar s) @
          rows_of ''document'' (sc_document s) @ rows_of ''dashboard'' (sc_dashboard s) @
          rows_of ''journal'' (sc_journal s) @ rows_of ''projects'' (sc_projects s) @
          [\<lparr> row_id = ''quickCapture.default'', row_action = description qd, row_key = key qd \<rparr>] @
          rows_of ''quickCapture'' (map_delete ''default'' (sc_quickCapture s)) @
          rows_of ''settings'' (sc_settings s) @ rows_of ''commandLine'' (sc_commandLine s) @
          rows_of ''search'' (sc_search s) @ rows_of ''pane'' (sc_pane s)))"

definition keys_of :: "shortcut_group \<Rightarrow> string list" where
  "keys_of g = map (key \<circ> snd) g"

definition ALL_SHORTCUT_KEYS :: "string list" where
  "ALL_SHORTCUT_KEYS =
     keys_of GLOBAL_SHORTCUTS @ keys_of SIDEBAR_SHORTCUTS @ keys_of PANE_SHORTCUTS @
     keys_of DOCUMENT_SHORTCUTS @ keys_of DASHBOARD_SHORTCUTS @ keys_of JOURNAL_SHORTCUTS @
     keys_of PROJECTS_SHORTCUTS @ keys_of QUICK_CAPTURE_SHORTCUTS @ [key QUICK_CAPTURE_DEFAULT] @
     keys_of SETTINGS_SHORTCUTS"

lemma default_tables_wf:
  "wf_map GLOBAL_SHORTCUTS" "wf_map SIDEBAR_SHORTCUTS" "wf_map PANE_SHORTCUTS" "wf_map DOCUMENT_SHORTCUTS"
  "wf_map DASHBOARD_SHORTCUTS" "wf_map JOURNAL_SHORTCUTS" "wf_map PROJECTS_SHORTCUTS"
  "wf_map QUICK_CAPTURE_SHORTCUTS" "wf_map COMMAND_LINE_SHORTCUTS" "wf_map SEARCH_SHORTCUTS"
  "wf_map SETTINGS_SHORTCUTS"
  by (simp_all add: shortcut_tables wf_map_def)

text \<open>The settings table of the merged configuration without overrides is the table of the defaults.\<close>

lemma settings_rows_default:
  "getShortcutsForSettingsFromMerged DEFAULT_SHORTCUTS = Some getShortcutsForSettings"
  by (simp add: getShortcutsForSettingsFromMerged_def getShortcutsForSettings_def DEFAULT_SHORTCUTS_def
      QUICK_CAPTURE_SHORTCUTS_def)

end
