(* ===== verification/Preferences.thy ===== *)
theory Preferences
  imports Shortcuts
begin

text \<open>
  User preferences: \<open>config/preferences.ts\<close> (the override types and the conversion to and from the
  backend's model), \<open>config/timeouts.ts\<close> and \<open>shared/stores/preferences.store.ts\<close> (merging
  overrides with the defaults, saving and deleting them).  An optional property is an option; the backend
  call \<open>setPreferencesOverrides\<close> is represented by whether it succeeds.
\<close>

section \<open>Override types\<close>

record timeout_overrides =
  o_autoSaveDebounceMs :: "int option"
  o_tooltipHoverDelay :: "int option"
  o_tooltipFocusDelay :: "int option"
  o_scrollDebounceMs :: "int option"
  o_searchDebounceMs :: "int option"
  o_savePersistenceDebounceMs :: "int option"

datatype linux_mode = Auto | Native | Compat | Software

datatype theme_mode = Dark | Light | System

record editor_overrides =
  fontSize :: "int option"
  fontFamily :: "string option"
  lineWidth :: "int option"
  spellcheck :: "bool option"

type_synonym shortcut_overrides = "(string, (string, string) jsmap) jsmap"
type_synonym plugin_overrides = "(string, (string, json) jsmap) jsmap"

text \<open>The one-field sections \<open>layout\<close>, \<open>graphics\<close>, \<open>appearance\<close> and \<open>general\<close>
  are options of the section around the option of the field.\<close>

record prefs =
  p_timeouts :: "timeout_overrides option"
  p_shortcuts :: "shortcut_overrides option"
  p_layout :: "int option option"
  p_graphics :: "linux_mode option option"
  p_appearance :: "theme_mode option option"
  p_editor :: "editor_overrides option"
  p_general :: "bool option option"
  p_plugins :: "plugin_overrides option"

definition no_timeouts :: timeout_overrides where
  "no_timeouts = \<lparr> o_autoSaveDebounceMs = None, o_tooltipHoverDelay = None, o_tooltipFocusDelay = None, o_scrollDebounceMs = None, o_searchDebounceMs = None, o_savePersistenceDebounceMs = None \<rparr>"

definition no_editor :: editor_overrides where
  "no_editor = \<lparr> fontSize = None, fontFamily = None, lineWidth = None, spellcheck = None \<rparr>"

definition empty_prefs :: prefs where
  "empty_prefs = \<lparr> p_timeouts = None, p_shortcuts = None, p_layout = None, p_graphics = None,
     p_appearance = None, p_editor = None, p_general = None, p_plugins = None \<rparr>"

section \<open>Conversion to and from the backend model\<close>

record prefs_model =
  m_timeouts :: "(string, int) jsmap option"
  m_shortcuts :: "shortcut_overrides option"
  m_layout :: "int option option"
  m_graphics :: "linux_mode option option"
  m_appearance :: "string option option"
  m_editor :: "editor_overrides option"
  m_general :: "bool option option"
  m_plugins :: "plugin_overrides option"

fun theme_str :: "theme_mode \<Rightarrow> string" where
  "theme_str Dark = ''dark''"
| "theme_str Light = ''light''"
| "theme_str System = ''system''"

definition isThemeMode :: "string \<Rightarrow> theme_mode option" where
  "isThemeMode v =
     (if v = ''dark'' then Some Dark else if v = ''light'' then Some Light
      else if v = ''system'' then Some System else None)"

text \<open>A number is kept only when it is truthy.\<close>

definition truthy_num :: "int option \<Rightarrow> int option" where
  "truthy_num v = (case v of None \<Rightarrow> None | Some n \<Rightarrow> if n = 0 then None else Some n)"

definition SHORTCUT_GROUPS :: "string list" where
  "SHORTCUT_GROUPS = [''global'', ''sidebar'', ''document'', ''dashboard'', ''journal'', ''projects'', ''quickCapture'', ''settings'', ''commandLine'', ''search'', ''pane'']"

definition to_pascal :: "string \<Rightarrow> string" where
  "to_pascal k =
     (case map_of (zip SHORTCUT_GROUPS [''Global'', ''Sidebar'', ''Document'', ''Dashboard'', ''Journal'', ''Projects'', ''QuickCapture'', ''Settings'', ''CommandLine'', ''Search'', ''Pane'']) k of
        Some p \<Rightarrow> p | None \<Rightarrow> k)"

definition to_camel :: "string \<Rightarrow> string" where
  "to_camel k =
     (case map_of (zip [''Global'', ''Sidebar'', ''Document'', ''Dashboard'', ''Journal'', ''Projects'', ''QuickCapture'', ''Settings'', ''CommandLine'', ''Search'', ''Pane''] SHORTCUT_GROUPS) k of
        Some p \<Rightarrow> p | None \<Rightarrow> k)"

definition rename_groups :: "(string \<Rightarrow> string) \<Rightarrow> shortcut_overrides \<Rightarrow> shortcut_overrides" where
  "rename_groups f m = fold (\<lambda>(k, v) acc. if v \<noteq> [] then map_set (f k) v acc else acc) m []"

definition preferencesFromModel :: "prefs_model \<Rightarrow> prefs" where
  "preferencesFromModel model = \<lparr>
     p_timeouts = map_option (\<lambda>t. \<lparr>
       o_autoSaveDebounceMs = truthy_num (map_get t ''AutoSaveDebounceMs''),
       o_tooltipHoverDelay = truthy_num (map_get t ''TooltipHoverDelay''),
       o_tooltipFocusDelay = truthy_num (map_get t ''TooltipFocusDelay''),
       o_scrollDebounceMs = truthy_num (map_get t ''ScrollDebounceMs''),
       o_searchDebounceMs = truthy_num (map_get t ''SearchDebounceMs''),
       o_savePersistenceDebounceMs = truthy_num (map_get t ''SavePersistenceDebounceMs'') \<rparr>) (m_timeouts model),
     p_shortcuts = map_option (rename_groups to_camel) (m_shortcuts model),
     p_layout = (case m_layout model of None \<Rightarrow> None
       | Some v \<Rightarrow> (case truthy_num v of None \<Rightarrow> None | Some n \<Rightarrow> Some (Some n))),
     p_graphics = (case m_graphics model of Some (Some g) \<Rightarrow> Some (Some g) | _ \<Rightarrow> None),
     p_appearance = (case m_appearance model of
         Some (Some t) \<Rightarrow> (case isThemeMode t of Some th \<Rightarrow> Some (Some th) | None \<Rightarrow> None)
       | _ \<Rightarrow> None),
     p_editor = m_editor model,
     p_general = (case m_general model of Some (Some b) \<Rightarrow> Some (Some b) | _ \<Rightarrow> None),
     p_plugins = (case m_plugins model of Some p \<Rightarrow> if p \<noteq> [] then Some p else None | None \<Rightarrow> None) \<rparr>"

definition put_truthy :: "string \<Rightarrow> int option \<Rightarrow> (string, int) jsmap \<Rightarrow> (string, int) jsmap" where
  "put_truthy k v m = (case truthy_num v of None \<Rightarrow> m | Some n \<Rightarrow> map_set k n m)"

definition preferencesToModel :: "prefs \<Rightarrow> prefs_model" where
  "preferencesToModel ov = \<lparr>
     m_timeouts = Some (case p_timeouts ov of None \<Rightarrow> []
       | Some t \<Rightarrow>
           put_truthy ''SavePersistenceDebounceMs'' (o_savePersistenceDebounceMs t) (
           put_truthy ''SearchDebounceMs'' (o_searchDebounceMs t) (
           put_truthy ''ScrollDebounceMs'' (o_scrollDebounceMs t) (
           put_truthy ''TooltipFocusDelay'' (o_tooltipFocusDelay t) (
           put_truthy ''TooltipHoverDelay'' (o_tooltipHoverDelay t) (
           put_truthy ''AutoSaveDebounceMs'' (o_autoSaveDebounceMs t) (
           []))))))),
     m_shortcuts = Some (case p_shortcuts ov of None \<Rightarrow> [] | Some s \<Rightarrow> rename_groups to_pascal s),
     m_layout = Some (case p_layout ov of None \<Rightarrow> None | Some v \<Rightarrow> truthy_num v),
     m_graphics = Some (case p_graphics ov of None \<Rightarrow> None | Some g \<Rightarrow> g),
     m_appearance = Some (case p_appearance ov of None \<Rightarrow> None | Some t \<Rightarrow> map_option theme_str t),
     m_editor = Some (case p_editor ov of None \<Rightarrow> no_editor | Some e \<Rightarrow> e),
     m_general = Some (case p_general ov of None \<Rightarrow> None | Some b \<Rightarrow> b),
     m_plugins = Some (case p_plugins ov of None \<Rightarrow> [] | Some p \<Rightarrow> if p \<noteq> [] then p else []) \<rparr>"

section \<open>Merging with the defaults\<close>

record merged_timeouts =
  t_tooltipHoverDelay :: int
  t_tooltipFocusDelay :: int
  t_tooltipOffset :: int
  t_scrollDebounceMs :: int
  t_autoSaveDebounceMs :: int
  t_autoSaveMaxRetries :: int
  t_autoSaveRetryBaseMs :: int
  t_savedStateDisplayMs :: int
  t_welcomeDelayMs :: int
  t_savePersistenceDebounceMs :: int
  t_searchDebounceMs :: int
  t_documentPickerFilterDebounceMs :: int
  t_focusRestoreMs :: int
  t_gitErrorDismissMs :: int
  t_helpAnnounceDelayMs :: int
  t_milestoneAnimationMs :: int

definition TIMEOUTS :: merged_timeouts where
  "TIMEOUTS = \<lparr> t_tooltipHoverDelay = 500,
     t_tooltipFocusDelay = 800,
     t_tooltipOffset = 8,
     t_scrollDebounceMs = 200,
     t_autoSaveDebounceMs = 2000,
     t_autoSaveMaxRetries = 3,
     t_autoSaveRetryBaseMs = 1000,
     t_savedStateDisplayMs = 3000,
     t_welcomeDelayMs = 500,
     t_savePersistenceDebounceMs = 500,
     t_searchDebounceMs = 300,
     t_documentPickerFilterDebounceMs = 200,
     t_focusRestoreMs = 100,
     t_gitErrorDismissMs = 300,
     t_helpAnnounceDelayMs = 50,
     t_milestoneAnimationMs = 200 \<rparr>"

definition or_default :: "'a option \<Rightarrow> 'a \<Rightarrow> 'a" where
  "or_default v d = (case v of None \<Rightarrow> d | Some x \<Rightarrow> x)"

definition mergeTimeouts :: "timeout_overrides option \<Rightarrow> merged_timeouts" where
  "mergeTimeouts ov =
     (case ov of None \<Rightarrow> TIMEOUTS
      | Some t \<Rightarrow> TIMEOUTS\<lparr>
          t_autoSaveDebounceMs := or_default (o_autoSaveDebounceMs t) (t_autoSaveDebounceMs TIMEOUTS),
          t_tooltipHoverDelay := or_default (o_tooltipHoverDelay t) (t_tooltipHoverDelay TIMEOUTS),
          t_tooltipFocusDelay := or_default (o_tooltipFocusDelay t) (t_tooltipFocusDelay TIMEOUTS),
          t_scrollDebounceMs := or_default (o_scrollDebounceMs t) (t_scrollDebounceMs TIMEOUTS),
          t_searchDebounceMs := or_default (o_searchDebounceMs t) (t_searchDebounceMs TIMEOUTS),
          t_savePersistenceDebounceMs := or_default (o_savePersistenceDebounceMs t) (t_savePersistenceDebounceMs TIMEOUTS)\<rparr>)"

definition LAYOUT_maxPanes :: int where
  "LAYOUT_maxPanes = 4"

definition mergeLayout :: "int option option \<Rightarrow> int" where
  "mergeLayout ov = (case ov of Some (Some n) \<Rightarrow> n | _ \<Rightarrow> LAYOUT_maxPanes)"

definition mergeGraphics :: "linux_mode option option \<Rightarrow> linux_mode" where
  "mergeGraphics ov = (case ov of Some (Some g) \<Rightarrow> g | _ \<Rightarrow> Auto)"

definition override_key :: "string \<times> string \<Rightarrow> shortcut_group \<Rightarrow> shortcut_group" where
  "override_key e target =
     (case e of (k, keyCombo) \<Rightarrow>
        (case map_get target k of
           Some d \<Rightarrow> if keyCombo \<noteq> [] then map_set k (d\<lparr>key := keyCombo\<rparr>) target else target
         | None \<Rightarrow> target))"

definition merge_group :: "shortcut_overrides \<Rightarrow> string \<Rightarrow> shortcut_group \<Rightarrow> shortcut_group" where
  "merge_group ov grp target =
     (case map_get ov grp of None \<Rightarrow> target | Some g \<Rightarrow> fold override_key g target)"

definition mergeShortcuts :: "shortcut_overrides option \<Rightarrow> merged_shortcuts" where
  "mergeShortcuts ov =
     (case ov of None \<Rightarrow> DEFAULT_SHORTCUTS
      | Some o' \<Rightarrow> \<lparr>
          sc_global = merge_group o' ''global'' (sc_global DEFAULT_SHORTCUTS),
          sc_sidebar = merge_group o' ''sidebar'' (sc_sidebar DEFAULT_SHORTCUTS),
          sc_document = merge_group o' ''document'' (sc_document DEFAULT_SHORTCUTS),
          sc_dashboard = merge_group o' ''dashboard'' (sc_dashboard DEFAULT_SHORTCUTS),
          sc_journal = merge_group o' ''journal'' (sc_journal DEFAULT_SHORTCUTS),
          sc_projects = merge_group o' ''projects'' (sc_projects DEFAULT_SHORTCUTS),
          sc_quickCapture = merge_group o' ''quickCapture'' (sc_quickCapture DEFAULT_SHORTCUTS),
          sc_settings = merge_group o' ''settings'' (sc_settings DEFAULT_SHORTCUTS),
          sc_commandLine = merge_group o' ''commandLine'' (sc_commandLine DEFAULT_SHORTCUTS),
          sc_search = merge_group o' ''search'' (sc_search DEFAULT_SHORTCUTS),
          sc_pane = merge_group o' ''pane'' (sc_pane DEFAULT_SHORTCUTS) \<rparr>)"

record merged_config =
  c_timeouts :: merged_timeouts
  c_maxPanes :: int
  c_linuxMode :: linux_mode
  c_shortcuts :: merged_shortcuts

definition getMergedConfig :: "prefs option \<Rightarrow> merged_config" where
  "getMergedConfig ov =
     (let o' = or_default ov empty_prefs in
      \<lparr> c_timeouts = mergeTimeouts (p_timeouts o'), c_maxPanes = mergeLayout (p_layout o'),
        c_linuxMode = mergeGraphics (p_graphics o'), c_shortcuts = mergeShortcuts (p_shortcuts o') \<rparr>)"

section \<open>The store\<close>

record prefs_store =
  overrides :: "prefs option"
  isLoading :: bool

definition initial_prefs :: prefs_store where
  "initial_prefs = \<lparr> overrides = None, isLoading = True \<rparr>"

definition loadOverrides :: "prefs option \<Rightarrow> prefs_store \<Rightarrow> prefs_store" where
  "loadOverrides response s =
     (case response of
        None \<Rightarrow> s\<lparr>isLoading := False\<rparr>
      | Some o' \<Rightarrow> s\<lparr>overrides := Some o', isLoading := False\<rparr>)"

definition merge_opt :: "'a option \<Rightarrow> 'a option \<Rightarrow> 'a option" where
  "merge_opt old new = (case new of None \<Rightarrow> old | Some v \<Rightarrow> Some v)"

definition spread_timeouts :: "timeout_overrides option \<Rightarrow> timeout_overrides option \<Rightarrow> timeout_overrides" where
  "spread_timeouts old new =
     (let a = or_default old no_timeouts; b = or_default new no_timeouts in
      \<lparr> o_autoSaveDebounceMs = merge_opt (o_autoSaveDebounceMs a) (o_autoSaveDebounceMs b),
        o_tooltipHoverDelay = merge_opt (o_tooltipHoverDelay a) (o_tooltipHoverDelay b),
        o_tooltipFocusDelay = merge_opt (o_tooltipFocusDelay a) (o_tooltipFocusDelay b),
        o_scrollDebounceMs = merge_opt (o_scrollDebounceMs a) (o_scrollDebounceMs b),
        o_searchDebounceMs = merge_opt (o_searchDebounceMs a) (o_searchDebounceMs b),
        o_savePersistenceDebounceMs = merge_opt (o_savePersistenceDebounceMs a) (o_savePersistenceDebounceMs b) \<rparr>)"

definition spread_editor :: "editor_overrides option \<Rightarrow> editor_overrides option \<Rightarrow> editor_overrides" where
  "spread_editor old new =
     (let a = or_default old no_editor; b = or_default new no_editor in
      \<lparr> fontSize = merge_opt (fontSize a) (fontSize b), fontFamily = merge_opt (fontFamily a) (fontFamily b),
        lineWidth = merge_opt (lineWidth a) (lineWidth b), spellcheck = merge_opt (spellcheck a) (spellcheck b) \<rparr>)"

definition spread_field :: "'a option option \<Rightarrow> 'a option option \<Rightarrow> 'a option" where
  "spread_field old new = merge_opt (or_default old None) (or_default new None)"

definition merge_shortcut_group ::
  "shortcut_overrides option \<Rightarrow> shortcut_overrides option \<Rightarrow> string \<Rightarrow> shortcut_overrides \<Rightarrow> shortcut_overrides" where
  "merge_shortcut_group existing new grp acc =
     (let existingGroup = Option.bind existing (\<lambda>s. map_get s grp);
          newGroup = Option.bind new (\<lambda>s. map_get s grp)
      in case newGroup of
           Some ng \<Rightarrow>
             if ng \<noteq> [] then map_set grp (assign (or_default existingGroup []) ng) acc
             else (case existingGroup of Some eg \<Rightarrow> map_set grp eg acc | None \<Rightarrow> acc)
         | None \<Rightarrow> (case existingGroup of Some eg \<Rightarrow> map_set grp eg acc | None \<Rightarrow> acc))"

definition merge_shortcut_overrides ::
  "shortcut_overrides option \<Rightarrow> shortcut_overrides option \<Rightarrow> shortcut_overrides" where
  "merge_shortcut_overrides existing new = fold (merge_shortcut_group existing new) SHORTCUT_GROUPS []"

definition merge_plugin_overrides :: "plugin_overrides option \<Rightarrow> plugin_overrides option \<Rightarrow> plugin_overrides" where
  "merge_plugin_overrides existing new =
     fold (\<lambda>(pluginId, config) acc. map_set pluginId (assign (or_default (map_get acc pluginId) []) config) acc)
       (or_default new []) (or_default existing [])"

definition non_empty :: "'a list \<Rightarrow> 'a list option" where
  "non_empty xs = (if xs \<noteq> [] then Some xs else None)"

definition merge_overrides :: "prefs \<Rightarrow> prefs \<Rightarrow> prefs" where
  "merge_overrides existing new = \<lparr>
     p_timeouts = Some (spread_timeouts (p_timeouts existing) (p_timeouts new)),
     p_shortcuts = non_empty (merge_shortcut_overrides (p_shortcuts existing) (p_shortcuts new)),
     p_layout = Some (spread_field (p_layout existing) (p_layout new)),
     p_graphics = Some (spread_field (p_graphics existing) (p_graphics new)),
     p_appearance = Some (spread_field (p_appearance existing) (p_appearance new)),
     p_editor = Some (spread_editor (p_editor existing) (p_editor new)),
     p_general = Some (spread_field (p_general existing) (p_general new)),
     p_plugins = non_empty (merge_plugin_overrides (p_plugins existing) (p_plugins new)) \<rparr>"

text \<open>The Boolean result is whether the promise resolves.\<close>

definition saveOverrides :: "bool \<Rightarrow> prefs \<Rightarrow> prefs_store \<Rightarrow> bool \<times> prefs_store" where
  "saveOverrides backend_ok new s =
     (let merged = merge_overrides (or_default (overrides s) empty_prefs) new in
      if backend_ok then (True, s\<lparr>overrides := Some merged\<rparr>) else (False, s))"

definition deleteShortcutOverride :: "bool \<Rightarrow> string \<Rightarrow> string \<Rightarrow> prefs_store \<Rightarrow> bool \<times> prefs_store" where
  "deleteShortcutOverride backend_ok grp k s =
     (let existing = or_default (overrides s) empty_prefs in
      case Option.bind (p_shortcuts existing) (\<lambda>sc. map_get sc grp) of
        None \<Rightarrow> (True, s)
      | Some existingGroup \<Rightarrow>
          if \<not> map_has existingGroup k then (True, s)
          else
            let updatedGroup = map_delete k existingGroup;
                shortcuts = or_default (p_shortcuts existing) [];
                updatedShortcuts =
                  (if updatedGroup = [] then map_delete grp shortcuts else map_set grp updatedGroup shortcuts);
                updated = existing\<lparr>p_shortcuts := non_empty updatedShortcuts\<rparr>
            in if backend_ok then (True, s\<lparr>overrides := Some updated\<rparr>) else (False, s))"

section \<open>Effective shortcuts\<close>

definition group_of :: "merged_shortcuts \<Rightarrow> string \<Rightarrow> shortcut_group option" where
  "group_of m = map_of [(''global'', sc_global m), (''sidebar'', sc_sidebar m), (''document'', sc_document m), (''dashboard'', sc_dashboard m), (''journal'', sc_journal m), (''projects'', sc_projects m), (''quickCapture'', sc_quickCapture m), (''settings'', sc_settings m), (''commandLine'', sc_commandLine m), (''search'', sc_search m), (''pane'', sc_pane m)]"

definition shortcut :: "shortcut_overrides option \<Rightarrow> string \<Rightarrow> string \<Rightarrow> shortcut_def option" where
  "shortcut ov grp k = Option.bind (group_of (mergeShortcuts ov) grp) (\<lambda>t. map_get t k)"

definition override_of :: "shortcut_overrides option \<Rightarrow> string \<Rightarrow> string \<Rightarrow> string option" where
  "override_of ov grp k = Option.bind (Option.bind ov (\<lambda>s. map_get s grp)) (\<lambda>m. map_get m k)"

fun apply_override :: "string option \<Rightarrow> shortcut_def \<Rightarrow> shortcut_def" where
  "apply_override None d = d"
| "apply_override (Some c) d = (if c = [] then d else d\<lparr>key := c\<rparr>)"

definition wf_shortcuts :: "shortcut_overrides option \<Rightarrow> bool" where
  "wf_shortcuts ov \<longleftrightarrow> (\<forall>s. ov = Some s \<longrightarrow> wf_map s \<and> (\<forall>g m. map_get s g = Some m \<longrightarrow> wf_map m))"

lemma map_apply_None [simp]: "map_option (apply_override None) v = v"
  by (cases v) simp_all

lemma get_override_key:
  "map_get (override_key (k, c) t) k' =
     map_option (apply_override (if k' = k then Some c else None)) (map_get t k')"
  by (auto simp: override_key_def get_set split: option.split)

lemma get_fold_override:
  "wf_map g \<Longrightarrow> map_get (fold override_key g t) k = map_option (apply_override (map_get g k)) (map_get t k)"
proof (induction g arbitrary: t)
  case Nil
  then show ?case by (simp add: option.map_ident)
next
  case (Cons p g)
  obtain n c where p: "p = (n, c)" by (cases p)
  from Cons.prems p have "map_get g n = None" "wf_map g"
    by (auto simp: wf_map_def map_of_eq_None_iff)
  with Cons.IH [of "override_key p t"] p show ?case
    by (auto simp: get_override_key option.map_comp comp_def)
qed

lemma override_key_keys: "map fst (override_key e t) = map fst t"
proof -
  have "a \<in> fst ` set t" if "map_of t a = Some d" for a d
    using that by (metis domI dom_map_of_conv_image_fst)
  then show ?thesis by (cases e) (auto simp: override_key_def update_keys split: option.split)
qed

lemma fold_override_keys: "map fst (fold override_key g t) = map fst t"
  by (induction g arbitrary: t) (auto simp: override_key_keys)

lemma group_of_merge_all:
  "\<forall>grp\<in>set SHORTCUT_GROUPS.
     group_of (mergeShortcuts (Some ov)) grp = map_option (merge_group ov grp) (group_of DEFAULT_SHORTCUTS grp)"
  by (simp add: SHORTCUT_GROUPS_def group_of_def mergeShortcuts_def)

lemmas group_of_merge = group_of_merge_all [rule_format]

lemma shortcut_eq:
  assumes "wf_shortcuts ov" "grp \<in> set SHORTCUT_GROUPS"
  shows "shortcut ov grp k = map_option (apply_override (override_of ov grp k)) (shortcut None grp k)"
proof (cases ov)
  case None
  then show ?thesis by (simp add: override_of_def)
next
  case (Some s)
  have "map_get (merge_group s grp t) k = map_option (apply_override (override_of ov grp k)) (map_get t k)" for t
    using assms(1) Some
    by (auto simp: merge_group_def override_of_def wf_shortcuts_def get_fold_override
        split: option.split)
  moreover have "mergeShortcuts None = DEFAULT_SHORTCUTS" by (simp add: mergeShortcuts_def)
  ultimately show ?thesis
    using Some assms(2)
    by (cases "group_of DEFAULT_SHORTCUTS grp") (simp_all add: shortcut_def group_of_merge)
qed

section \<open>Saving and deleting overrides\<close>

definition merged_group ::
  "shortcut_overrides option \<Rightarrow> shortcut_overrides option \<Rightarrow> string \<Rightarrow> (string, string) jsmap option" where
  "merged_group existing new grp =
     (let eg = Option.bind existing (\<lambda>s. map_get s grp); ng = Option.bind new (\<lambda>s. map_get s grp) in
      case ng of Some n \<Rightarrow> if n \<noteq> [] then Some (assign (or_default eg []) n) else eg | None \<Rightarrow> eg)"

lemma merge_shortcut_group_eq:
  "merge_shortcut_group existing new grp acc =
     (case merged_group existing new grp of Some m \<Rightarrow> map_set grp m acc | None \<Rightarrow> acc)"
  by (simp add: merge_shortcut_group_def merged_group_def Let_def split: option.split)

lemma get_fold_groups:
  "distinct gs \<Longrightarrow> map_get (fold (merge_shortcut_group existing new) gs acc) g =
     (if g \<in> set gs then (case merged_group existing new g of Some m \<Rightarrow> Some m | None \<Rightarrow> map_get acc g)
      else map_get acc g)"
  by (induction gs arbitrary: acc) (auto simp: merge_shortcut_group_eq get_set split: option.split)

lemma distinct_groups: "distinct SHORTCUT_GROUPS"
  by (simp add: SHORTCUT_GROUPS_def)

lemma bind_non_empty: "Option.bind (non_empty s) (\<lambda>m. map_get m g) = map_get s g"
  by (simp add: non_empty_def)

lemma get_merged_shortcuts:
  "grp \<in> set SHORTCUT_GROUPS \<Longrightarrow>
     map_get (merge_shortcut_overrides existing new) grp = merged_group existing new grp"
  by (simp add: merge_shortcut_overrides_def get_fold_groups distinct_groups split: option.split)

lemma wf_group: "wf_shortcuts ov \<Longrightarrow> Option.bind ov (\<lambda>s. map_get s g) = Some m \<Longrightarrow> wf_map m"
  by (cases ov) (auto simp: wf_shortcuts_def)

lemma override_of_merge:
  assumes "wf_shortcuts new" "grp \<in> set SHORTCUT_GROUPS"
  shows "override_of (non_empty (merge_shortcut_overrides existing new)) grp k =
    merge_opt (override_of existing grp k) (override_of new grp k)"
proof -
  have "Option.bind (merged_group existing new grp) (\<lambda>m. map_get m k) =
      merge_opt (override_of existing grp k) (override_of new grp k)"
  proof (cases "Option.bind new (\<lambda>s. map_get s grp)")
    case None
    then show ?thesis by (simp add: merged_group_def override_of_def merge_opt_def)
  next
    case (Some ng)
    with wf_group [OF assms(1) Some] show ?thesis
      by (cases "Option.bind existing (\<lambda>s. map_get s grp)")
         (simp_all add: merged_group_def override_of_def merge_opt_def get_assign or_default_def Let_def split: option.split)
  qed
  with assms(2) show ?thesis
    by (simp add: override_of_def bind_non_empty get_merged_shortcuts)
qed

lemma wf_shortcuts_Some: "wf_shortcuts (Some s) \<longleftrightarrow> wf_map s \<and> (\<forall>g m. map_get s g = Some m \<longrightarrow> wf_map m)"
  by (simp add: wf_shortcuts_def)

lemma wf_shortcuts_set: "wf_shortcuts (Some s) \<Longrightarrow> wf_map m \<Longrightarrow> wf_shortcuts (Some (map_set g m s))"
  by (auto simp: wf_shortcuts_Some get_set)

lemma wf_shortcuts_non_empty: "wf_shortcuts (Some s) \<Longrightarrow> wf_shortcuts (non_empty s)"
  by (simp add: non_empty_def wf_shortcuts_def)

lemma wf_merged_group:
  assumes "wf_shortcuts existing" "wf_shortcuts new" "merged_group existing new g = Some m"
  shows "wf_map m"
  using assms(3) wf_group [OF assms(1), of g] wf_group [OF assms(2), of g]
  by (auto simp: merged_group_def or_default_def Let_def split: option.splits if_splits)

lemma wf_shortcuts_step:
  assumes "wf_shortcuts existing" "wf_shortcuts new" "wf_shortcuts (Some acc)"
  shows "wf_shortcuts (Some (merge_shortcut_group existing new g acc))"
proof (cases "merged_group existing new g")
  case (Some m)
  with wf_shortcuts_set [OF assms(3) wf_merged_group [OF assms(1,2) Some]] show ?thesis
    by (simp add: merge_shortcut_group_eq)
qed (simp add: merge_shortcut_group_eq assms(3))

lemma wf_shortcuts_fold:
  "wf_shortcuts existing \<Longrightarrow> wf_shortcuts new \<Longrightarrow> wf_shortcuts (Some acc) \<Longrightarrow>
     wf_shortcuts (Some (fold (merge_shortcut_group existing new) gs acc))"
  by (induction gs arbitrary: acc) (simp_all add: wf_shortcuts_step)

lemma wf_shortcuts_merge:
  assumes "wf_shortcuts existing" "wf_shortcuts new"
  shows "wf_shortcuts (non_empty (merge_shortcut_overrides existing new))"
  unfolding merge_shortcut_overrides_def
  by (intro wf_shortcuts_non_empty wf_shortcuts_fold assms) (simp add: wf_shortcuts_Some)

lemma get_merged_plugins:
  assumes "wf_map new"
  shows "map_get (fold (\<lambda>(pid, config) acc. map_set pid (assign (or_default (map_get acc pid) []) config) acc) new acc) p =
    (case map_get new p of None \<Rightarrow> map_get acc p
     | Some config \<Rightarrow> Some (assign (or_default (map_get acc p) []) config))"
  using assms
proof (induction new arbitrary: acc)
  case (Cons e new)
  obtain q c where e: "e = (q, c)" by (cases e)
  with Cons.prems have "map_get new q = None" "wf_map new"
    by (auto simp: wf_map_def map_of_eq_None_iff)
  with Cons.IH e show ?case by (simp add: get_set split: option.split)
qed simp

lemma override_of_delete:
  assumes "wf_shortcuts (Some s)" "map_get s grp = Some eg"
  shows "override_of (non_empty (if map_delete k eg = [] then map_delete grp s
      else map_set grp (map_delete k eg) s)) grp' k' =
    (if grp' = grp \<and> k' = k then None else override_of (Some s) grp' k')"
proof -
  have "map_get eg k' = None" if "map_delete k eg = []" "k' \<noteq> k"
    using that get_delete [of k eg k'] by simp
  with assms(2) show ?thesis
    by (auto simp: override_of_def bind_non_empty js_maps)
qed

lemma wf_shortcuts_delete:
  assumes "wf_shortcuts (Some s)" "map_get s grp = Some eg"
  shows "wf_shortcuts (non_empty (if map_delete k eg = [] then map_delete grp s
      else map_set grp (map_delete k eg) s))"
proof (intro wf_shortcuts_non_empty)
  have "wf_map eg" using assms by (auto simp: wf_shortcuts_Some)
  with assms(1) show "wf_shortcuts (Some (if map_delete k eg = [] then map_delete grp s
      else map_set grp (map_delete k eg) s))"
    by (auto simp: wf_shortcuts_Some get_delete get_set split: if_splits)
qed

abbreviation prefs_shortcuts :: "prefs_store \<Rightarrow> shortcut_overrides option" where
  "prefs_shortcuts s \<equiv> p_shortcuts (or_default (overrides s) empty_prefs)"

section \<open>The round trip through the backend model\<close>

lemma rename_groups_acc:
  assumes "distinct (map f (map fst m) @ map fst acc)"
  shows "fold (\<lambda>(k, v) acc. if v \<noteq> [] then map_set (f k) v acc else acc) m acc =
    acc @ map (\<lambda>(k, v). (f k, v)) (filter (\<lambda>(k, v). v \<noteq> []) m)"
  using assms
proof (induction m arbitrary: acc)
  case (Cons e m)
  obtain k v where e: "e = (k, v)" by (cases e)
  have "map_set (f k) v acc = acc @ [(f k, v)]"
    using Cons.prems e by (intro set_fresh) auto
  with Cons e show ?case by auto
qed simp

lemma rename_groups_eq:
  "distinct (map f (map fst m)) \<Longrightarrow>
     rename_groups f m = map (\<lambda>(k, v). (f k, v)) (filter (\<lambda>(k, v). v \<noteq> []) m)"
  using rename_groups_acc [of f m "[]"] by (simp add: rename_groups_def)

lemma camel_pascal: "\<forall>g\<in>set SHORTCUT_GROUPS. to_camel (to_pascal g) = g"
  by (simp add: SHORTCUT_GROUPS_def to_camel_def to_pascal_def)

lemma rename_roundtrip:
  assumes "wf_map m" "fst ` set m \<subseteq> set SHORTCUT_GROUPS"
  shows "rename_groups to_camel (rename_groups to_pascal m) = filter (\<lambda>(k, v). v \<noteq> []) m"
proof -
  have inj: "inj_on to_pascal (set (map fst m))"
    by (rule inj_on_inverseI [of _ to_camel]) (use assms(2) camel_pascal in auto)
  let ?m = "filter (\<lambda>(k, v). v \<noteq> []) m"
  have "distinct (map to_pascal (map fst m))"
    using assms(1) inj by (simp add: wf_map_def distinct_map del: map_map)
  then have 1: "rename_groups to_pascal m = map (\<lambda>(k, v). (to_pascal k, v)) ?m" by (rule rename_groups_eq)
  have keys: "map to_camel (map fst (map (\<lambda>(k, v). (to_pascal k, v)) ?m)) = map fst ?m"
    using assms(2) camel_pascal by (auto simp: comp_def)
  have "wf_map ?m" using assms(1) by auto
  then have "distinct (map to_camel (map fst (map (\<lambda>(k, v). (to_pascal k, v)) ?m)))"
    unfolding keys by (simp add: wf_map_def)
  from rename_groups_eq [OF this] 1 have "rename_groups to_camel (rename_groups to_pascal m) =
      map (\<lambda>(k, v). (to_camel k, v)) (filter (\<lambda>(k, v). v \<noteq> []) (map (\<lambda>(k, v). (to_pascal k, v)) ?m))"
    by simp
  also have "\<dots> = ?m"
    using assms(2) camel_pascal by (induction m) auto
  finally show ?thesis .
qed

lemma merge_group_nonempty:
  "wf_map m \<Longrightarrow> merge_group (filter (\<lambda>(k, v). v \<noteq> []) m) g t = merge_group m g t"
  by (simp add: merge_group_def map_of_filter_wf split: option.split)

lemma mergeShortcuts_nonempty:
  "wf_map m \<Longrightarrow> mergeShortcuts (Some (filter (\<lambda>(k, v). v \<noteq> []) m)) = mergeShortcuts (Some m)"
  by (simp add: mergeShortcuts_def merge_group_nonempty)

lemma mergeShortcuts_Nil: "mergeShortcuts (Some []) = mergeShortcuts None"
  by (simp add: mergeShortcuts_def merge_group_def)

text \<open>Overrides that hold no zero.\<close>

definition zero_free :: "prefs \<Rightarrow> bool" where
  "zero_free ov \<longleftrightarrow> p_layout ov \<noteq> Some (Some 0) \<and>
     (\<forall>t. p_timeouts ov = Some t \<longrightarrow> Some 0 \<notin> {o_autoSaveDebounceMs t, o_tooltipHoverDelay t, o_tooltipFocusDelay t, o_scrollDebounceMs t, o_searchDebounceMs t, o_savePersistenceDebounceMs t})"

lemma truthy_num_id: "Some 0 \<noteq> v \<Longrightarrow> truthy_num v = v"
  by (simp add: truthy_num_def split: option.split)

lemma truthy_num_idem [simp]: "truthy_num (truthy_num v) = truthy_num v"
  by (simp add: truthy_num_def split: option.split)

lemma get_put_truthy:
  "map_get (put_truthy k v m) k' =
     (if k' = k then (case truthy_num v of None \<Rightarrow> map_get m k | Some n \<Rightarrow> Some n) else map_get m k')"
  by (simp add: put_truthy_def get_set split: option.split)

lemma isThemeMode_str [simp]: "isThemeMode (theme_str t) = Some t"
  by (cases t) (simp_all add: isThemeMode_def)

lemma timeouts_roundtrip:
  "p_timeouts (preferencesFromModel (preferencesToModel ov)) =
     Some (case p_timeouts ov of None \<Rightarrow> no_timeouts | Some t \<Rightarrow>
       \<lparr> o_autoSaveDebounceMs = truthy_num (o_autoSaveDebounceMs t), o_tooltipHoverDelay = truthy_num (o_tooltipHoverDelay t), o_tooltipFocusDelay = truthy_num (o_tooltipFocusDelay t), o_scrollDebounceMs = truthy_num (o_scrollDebounceMs t), o_searchDebounceMs = truthy_num (o_searchDebounceMs t), o_savePersistenceDebounceMs = truthy_num (o_savePersistenceDebounceMs t) \<rparr>)"
  by (simp add: preferencesFromModel_def preferencesToModel_def get_put_truthy no_timeouts_def truthy_num_def
      split: option.split)

lemma mergeTimeouts_none: "mergeTimeouts (Some no_timeouts) = mergeTimeouts None"
  by (simp add: mergeTimeouts_def no_timeouts_def or_default_def)

lemma shortcuts_roundtrip:
  assumes "\<forall>m. p_shortcuts ov = Some m \<longrightarrow> wf_map m \<and> fst ` set m \<subseteq> set SHORTCUT_GROUPS"
  shows "mergeShortcuts (p_shortcuts (preferencesFromModel (preferencesToModel ov))) = mergeShortcuts (p_shortcuts ov)"
  using assms
  by (cases "p_shortcuts ov")
     (simp_all add: preferencesFromModel_def preferencesToModel_def rename_roundtrip mergeShortcuts_nonempty
       mergeShortcuts_Nil rename_groups_def [of _ "[]"])

section \<open>Properties\<close>

text \<open>C14. Effective shortcuts after a save: for every known group, the key of an action is the one
  just saved if there is one, else the one saved before, else the default; an empty key means the
  default, descriptions never change, no other key is touched, and a failing backend changes nothing.\<close>

theorem saveOverrides_shortcuts:
  assumes "wf_shortcuts (prefs_shortcuts s)" "wf_shortcuts (p_shortcuts new)" "grp \<in> set SHORTCUT_GROUPS"
  shows "shortcut (prefs_shortcuts (snd (saveOverrides True new s))) grp k =
      map_option (apply_override (merge_opt (override_of (prefs_shortcuts s) grp k) (override_of (p_shortcuts new) grp k)))
        (shortcut None grp k) \<and>
    saveOverrides False new s = (False, s)"
  using assms wf_shortcuts_merge [OF assms(1,2)]
  by (simp add: saveOverrides_def Let_def merge_overrides_def or_default_def [of "Some _"] shortcut_eq override_of_merge)

text \<open>Resetting a shortcut: after a successful delete the action has its default key, and every
  other action of every group keeps the key it had.\<close>

theorem deleteShortcutOverride_correct:
  assumes "wf_shortcuts (prefs_shortcuts s)" "grp \<in> set SHORTCUT_GROUPS" "grp' \<in> set SHORTCUT_GROUPS"
  shows "shortcut (prefs_shortcuts (snd (deleteShortcutOverride True grp k s))) grp' k' =
    (if grp' = grp \<and> k' = k then shortcut None grp k else shortcut (prefs_shortcuts s) grp' k')"
proof (cases "\<exists>sc eg. prefs_shortcuts s = Some sc \<and> map_get sc grp = Some eg \<and> map_has eg k")
  case True
  then obtain sc eg where sc: "prefs_shortcuts s = Some sc" "map_get sc grp = Some eg" "map_has eg k" by auto
  with assms override_of_delete [of sc grp eg k] wf_shortcuts_delete [of sc grp eg k] show ?thesis
    by (simp add: deleteShortcutOverride_def Let_def or_default_def [of "Some _"] shortcut_eq)
next
  case False
  then have "snd (deleteShortcutOverride True grp k s) = s"
    by (auto simp: deleteShortcutOverride_def Let_def bind_eq_Some_conv split: option.split)
  moreover have "override_of (prefs_shortcuts s) grp k = None"
    using False by (cases "Option.bind (prefs_shortcuts s) (\<lambda>sc. map_get sc grp)")
      (auto simp: override_of_def map_has_def bind_eq_Some_conv)
  ultimately show ?thesis using assms by (auto simp: shortcut_eq)
qed

text \<open>Saving plugin settings merges per plugin and per key: a key just saved wins, every other key of
  every plugin keeps its value.\<close>

theorem saveOverrides_plugins:
  assumes "wf_map newp" "\<forall>c\<in>set (map snd newp). wf_map c" "p_plugins new = Some newp"
  shows "Option.bind (Option.bind (p_plugins (or_default (overrides (snd (saveOverrides True new s))) empty_prefs))
        (\<lambda>m. map_get m p)) (\<lambda>c. map_get c k) =
    merge_opt
      (Option.bind (Option.bind (p_plugins (or_default (overrides s) empty_prefs)) (\<lambda>m. map_get m p)) (\<lambda>c. map_get c k))
      (Option.bind (map_get newp p) (\<lambda>c. map_get c k))"
proof -
  have wfc: "wf_map c" if "map_get newp p = Some c" for c
    using that assms(2) by (force dest: map_of_SomeD)
  let ?old = "p_plugins (or_default (overrides s) empty_prefs)"
  have old: "Option.bind ?old (\<lambda>m. map_get m p) = map_get (or_default ?old []) p"
    by (cases ?old) (simp_all add: or_default_def)
  have "Option.bind (map_get (merge_plugin_overrides ?old (Some newp)) p) (\<lambda>c. map_get c k) =
      merge_opt (Option.bind (map_get (or_default ?old []) p) (\<lambda>c. map_get c k))
        (Option.bind (map_get newp p) (\<lambda>c. map_get c k))"
    using wfc
    by (cases "map_get (or_default ?old []) p")
       (auto simp: merge_plugin_overrides_def or_default_def [of "Some _"] or_default_def [of None] get_merged_plugins
        assms(1) get_assign merge_opt_def split: option.split)
  then show ?thesis
    unfolding old by (simp add: saveOverrides_def Let_def merge_overrides_def assms(3) bind_non_empty or_default_def [of "Some _"])
qed

text \<open>C15. A restart keeps the configuration: converting overrides to the backend model and back leaves the
  effective timeouts, pane limit, graphics mode and shortcuts as they were, and keeps theme, editor, startup and
  plugin settings; provided no timeout and no pane limit is set to zero.\<close>

theorem preferences_roundtrip:
  assumes "zero_free ov" "\<forall>m. p_shortcuts ov = Some m \<longrightarrow> wf_map m \<and> fst ` set m \<subseteq> set SHORTCUT_GROUPS"
  shows "let ov' = preferencesFromModel (preferencesToModel ov) in
    getMergedConfig (Some ov') = getMergedConfig (Some ov) \<and>
    or_default (p_appearance ov') None = or_default (p_appearance ov) None \<and>
    or_default (p_editor ov') no_editor = or_default (p_editor ov) no_editor \<and>
    or_default (p_general ov') None = or_default (p_general ov) None \<and>
    or_default (p_plugins ov') [] = or_default (p_plugins ov) []"
proof -
  let ?ov = "preferencesFromModel (preferencesToModel ov)"
  have "mergeTimeouts (p_timeouts ?ov) = mergeTimeouts (p_timeouts ov)"
    unfolding timeouts_roundtrip using assms(1)
    by (cases "p_timeouts ov") (simp_all add: mergeTimeouts_none zero_free_def truthy_num_id, simp add: mergeTimeouts_def)
  moreover have "mergeLayout (p_layout ?ov) = mergeLayout (p_layout ov)"
    using assms(1)
    by (auto simp: preferencesFromModel_def preferencesToModel_def zero_free_def truthy_num_def mergeLayout_def
        split: option.splits if_splits)
  moreover have "mergeGraphics (p_graphics ?ov) = mergeGraphics (p_graphics ov)"
    by (simp add: preferencesFromModel_def preferencesToModel_def mergeGraphics_def split: option.split)
  moreover note shortcuts_roundtrip [OF assms(2)]
  ultimately show ?thesis
    by (simp add: Let_def getMergedConfig_def or_default_def [of "Some _"])
       (simp add: preferencesFromModel_def preferencesToModel_def or_default_def split: option.split)
qed

text \<open>A timeout overridden with zero does not survive a restart: the merge honours it, the
  conversion to the backend model drops it, and after the round trip the default is back.\<close>

theorem zero_timeout_lost:
  "let ov = empty_prefs\<lparr>p_timeouts := Some (no_timeouts\<lparr>o_tooltipHoverDelay := Some 0\<rparr>)\<rparr> in
   t_tooltipHoverDelay (c_timeouts (getMergedConfig (Some ov))) = 0 \<and>
   t_tooltipHoverDelay (c_timeouts (getMergedConfig (Some (preferencesFromModel (preferencesToModel ov))))) = 500"
  by (simp add: Let_def getMergedConfig_def or_default_def timeouts_roundtrip)
     (simp add: mergeTimeouts_def or_default_def no_timeouts_def truthy_num_def TIMEOUTS_def)

section \<open>Witnesses\<close>

definition sample_prefs :: prefs_store where
  "sample_prefs = \<lparr> overrides = Some (empty_prefs\<lparr>p_shortcuts := Some [(''global'', [(''today'', ''mod+J'')])]\<rparr>),
     isLoading = False \<rparr>"

lemma sample_prefs_shortcuts: "prefs_shortcuts sample_prefs = Some [(''global'', [(''today'', ''mod+J'')])]"
  by (simp add: sample_prefs_def or_default_def)

lemma sample_prefs_wf: "wf_shortcuts (prefs_shortcuts sample_prefs)"
  unfolding sample_prefs_shortcuts by (simp add: wf_shortcuts_Some wf_map_def)

definition sample_new :: prefs where
  "sample_new = empty_prefs\<lparr>p_shortcuts := Some [(''global'', [(''help'', ''F1'')])],
     p_plugins := Some [(''demo'', [(''on'', JBool True)])]\<rparr>"

lemma sample_new_wf: "wf_shortcuts (p_shortcuts sample_new)"
  by (simp add: sample_new_def wf_shortcuts_Some wf_map_def)

lemma default_today: "shortcut None ''global'' ''today'' = Some (def_of ''mod+T'' ''Jump to today's journal'')"
  by (simp add: shortcut_def mergeShortcuts_def DEFAULT_SHORTCUTS_def group_of_def GLOBAL_SHORTCUTS_def)

lemma global_group: "''global'' \<in> set SHORTCUT_GROUPS"
  by (simp add: SHORTCUT_GROUPS_def)

theorem saveOverrides_shortcuts_witness:
  "map_option key (shortcut (prefs_shortcuts (snd (saveOverrides True sample_new sample_prefs))) ''global'' ''today'') =
    Some ''mod+J''"
  using saveOverrides_shortcuts [OF sample_prefs_wf sample_new_wf global_group, of "''today''"]
  by (simp add: default_today sample_prefs_shortcuts)
     (simp add: override_of_def sample_new_def merge_opt_def)

theorem deleteShortcutOverride_witness:
  "map_option key (shortcut (prefs_shortcuts (snd (deleteShortcutOverride True ''global'' ''today'' sample_prefs)))
     ''global'' ''today'') = Some ''mod+T''"
  using deleteShortcutOverride_correct [OF sample_prefs_wf global_group global_group, of "''today''" "''today''"]
  by (simp add: default_today def_of_def)

theorem saveOverrides_plugins_witness:
  "Option.bind (Option.bind (p_plugins (or_default (overrides (snd (saveOverrides True sample_new sample_prefs))) empty_prefs))
     (\<lambda>m. map_get m ''demo'')) (\<lambda>c. map_get c ''on'') = Some (JBool True)"
  using saveOverrides_plugins [of "[(''demo'', [(''on'', JBool True)])]" sample_new sample_prefs "''demo''" "''on''"]
  by (simp add: sample_new_def wf_map_def merge_opt_def)

theorem preferences_roundtrip_witness:
  "getMergedConfig (Some (preferencesFromModel (preferencesToModel sample_new))) = getMergedConfig (Some sample_new)"
  using preferences_roundtrip [of sample_new]
  by (simp add: zero_free_def sample_new_def empty_prefs_def wf_map_def SHORTCUT_GROUPS_def Let_def)

end
