(* ===== verification/JS_Text.thy ===== *)
theory JS_Text
  imports Yanta_Base "HOL-Library.Sublist"
begin

text \<open>
  The string operations of JavaScript that the sources use, on strings read as Latin-1 code units:
  white space is what \<open>trim\<close> and \<open>\s\<close> take it to be in that range, and
  \<open>toLowerCase\<close> maps the capital letters of that range.
\<close>

section \<open>Characters\<close>

abbreviation ccode :: "char \<Rightarrow> nat" where
  "ccode c \<equiv> of_char c"

definition is_space :: "char \<Rightarrow> bool" where
  "is_space c \<longleftrightarrow> (9 \<le> ccode c \<and> ccode c \<le> 13) \<or> ccode c = 32 \<or> ccode c = 160"

definition is_digit :: "char \<Rightarrow> bool" where
  "is_digit c \<longleftrightarrow> 48 \<le> ccode c \<and> ccode c \<le> 57"

definition is_upper :: "char \<Rightarrow> bool" where
  "is_upper c \<longleftrightarrow> (65 \<le> ccode c \<and> ccode c \<le> 90) \<or> (192 \<le> ccode c \<and> ccode c \<le> 222 \<and> ccode c \<noteq> 215)"

definition lower_char :: "char \<Rightarrow> char" where
  "lower_char c = (if is_upper c then char_of (ccode c + 32) else c)"

section \<open>Strings\<close>

definition trim :: "string \<Rightarrow> string" where
  "trim s = rev (dropWhile is_space (rev (dropWhile is_space s)))"

definition toLowerCase :: "string \<Rightarrow> string" where
  "toLowerCase s = map lower_char s"

fun startsWith :: "string \<Rightarrow> string \<Rightarrow> bool" where
  "startsWith s [] = True"
| "startsWith [] (p # ps) = False"
| "startsWith (c # s) (p # ps) = (c = p \<and> startsWith s ps)"

fun indexOf :: "string \<Rightarrow> string \<Rightarrow> nat option" where
  "indexOf [] p = (if p = [] then Some 0 else None)"
| "indexOf (c # s) p = (if startsWith (c # s) p then Some 0 else map_option Suc (indexOf s p))"

definition str_includes :: "string \<Rightarrow> string \<Rightarrow> bool" where
  "str_includes s p \<longleftrightarrow> indexOf s p \<noteq> None"

text \<open>\<open>s.split(sep)\<close> for a one-character separator and \<open>parts.join(sep)\<close>.\<close>

fun split_char :: "char \<Rightarrow> string \<Rightarrow> string list" where
  "split_char sep [] = [[]]"
| "split_char sep (c # s) =
     (if c = sep then [] # split_char sep s
      else (case split_char sep s of [] \<Rightarrow> [[c]] | w # ws \<Rightarrow> (c # w) # ws))"

fun join :: "string \<Rightarrow> string list \<Rightarrow> string" where
  "join sep [] = []"
| "join sep [w] = w"
| "join sep (w # v # ws) = w @ sep @ join sep (v # ws)"

text \<open>\<open>Number.parseInt(s, 10)\<close>; \<open>None\<close> is \<open>NaN\<close>.\<close>

definition parse_digits :: "string \<Rightarrow> nat option" where
  "parse_digits s = (let ds = takeWhile is_digit s in if ds = [] then None else Some (str_nat ds))"

definition parseInt :: "string \<Rightarrow> int option" where
  "parseInt s =
     (case dropWhile is_space s of
        [] \<Rightarrow> None
      | c # r \<Rightarrow>
          if c = CHR ''-'' then map_option (\<lambda>n. - int n) (parse_digits r)
          else if c = CHR ''+'' then map_option int (parse_digits r)
          else map_option int (parse_digits (c # r)))"

section \<open>Lemmas\<close>

lemma trim_ends: "trim s = [] \<or> \<not> is_space (hd (trim s)) \<and> \<not> is_space (last (trim s))"
proof (cases "trim s = []")
  case False
  let ?a = "dropWhile is_space s"
  let ?b = "dropWhile is_space (rev ?a)"
  from False have b: "?b \<noteq> []" by (simp add: trim_def)
  then have "\<not> is_space (hd ?b)" by (rule hd_dropWhile)
  then have l: "\<not> is_space (last (trim s))" using b by (simp add: trim_def last_rev)
  obtain pre where pre: "rev ?a = pre @ ?b" by (metis takeWhile_dropWhile_id)
  then have "?a = trim s @ rev pre" by (metis rev_append rev_rev_ident trim_def)
  with False have "hd (trim s) = hd ?a" "?a \<noteq> []" by auto
  with l show ?thesis using hd_dropWhile [of is_space s] by simp
qed simp

lemma trim_id: "s = [] \<or> \<not> is_space (hd s) \<and> \<not> is_space (last s) \<Longrightarrow> trim s = s"
proof (cases "s = []")
  case False
  assume "s = [] \<or> \<not> is_space (hd s) \<and> \<not> is_space (last s)"
  with False have "dropWhile is_space s = s" "dropWhile is_space (rev s) = rev s"
    by (simp_all add: dropWhile_eq_self_iff hd_rev)
  then show ?thesis by (simp add: trim_def)
qed (simp add: trim_def)

lemma trim_idem [simp]: "trim (trim s) = trim s"
  using trim_ends trim_id by blast

lemma set_trim: "set (trim s) \<subseteq> set s"
  unfolding trim_def by (metis set_dropWhileD set_rev subsetI)

lemma trim_blank_iff: "trim s = [] \<longleftrightarrow> (\<forall>c\<in>set s. is_space c)"
proof
  assume "trim s = []"
  then have "\<forall>c\<in>set (dropWhile is_space s). is_space c"
    by (simp add: trim_def dropWhile_eq_Nil_conv)
  moreover have "c \<in> set (takeWhile is_space s) \<or> c \<in> set (dropWhile is_space s)" if "c \<in> set s" for c
    using that by (induction s) auto
  ultimately show "\<forall>c\<in>set s. is_space c" using set_takeWhileD by fast
next
  assume "\<forall>c\<in>set s. is_space c"
  then have blank: "dropWhile is_space s = []" by simp
  show "trim s = []" by (simp only: trim_def blank rev.simps dropWhile.simps)
qed

lemma lower_char_not_upper: "\<not> is_upper (lower_char c)"
proof (cases "is_upper c")
  case True
  then have "ccode c + 32 < 256" by (auto simp: is_upper_def)
  then have "ccode (char_of (ccode c + 32) :: char) = ccode c + 32" by simp
  with True show ?thesis by (auto simp: lower_char_def is_upper_def)
qed (simp add: lower_char_def)

lemma toLowerCase_idem [simp]: "toLowerCase (toLowerCase s) = toLowerCase s"
  using lower_char_not_upper by (simp add: toLowerCase_def lower_char_def [of "lower_char _"])

lemma length_toLowerCase [simp]: "length (toLowerCase s) = length s"
  by (simp add: toLowerCase_def)

lemma toLowerCase_append [simp]: "toLowerCase (s @ t) = toLowerCase s @ toLowerCase t"
  by (simp add: toLowerCase_def)

lemma startsWith_iff: "startsWith s p \<longleftrightarrow> (\<exists>r. s = p @ r)"
  by (induction s p rule: startsWith.induct) auto

lemma indexOf_Some:
  "indexOf s p = Some i \<Longrightarrow> \<exists>pre post. s = pre @ p @ post \<and> length pre = i"
proof (induction s arbitrary: i)
  case (Cons c s)
  show ?case
  proof (cases "startsWith (c # s) p")
    case True
    with Cons.prems show ?thesis by (auto simp: startsWith_iff)
  next
    case False
    with Cons.prems obtain j where "indexOf s p = Some j" "i = Suc j" by auto
    with Cons.IH [of j] obtain pre post where "s = pre @ p @ post" "length pre = j" by auto
    with \<open>i = Suc j\<close> show ?thesis by (intro exI [of _ "c # pre"] exI [of _ post]) simp
  qed
qed (auto split: if_splits)

lemma indexOf_None: "indexOf s p = None \<longleftrightarrow> (\<forall>pre post. s \<noteq> pre @ p @ post)"
proof (induction s)
  case (Cons c s)
  have "(\<exists>pre post. c # s = pre @ p @ post) \<longleftrightarrow> startsWith (c # s) p \<or> (\<exists>pre post. s = pre @ p @ post)"
    by (auto simp: startsWith_iff Cons_eq_append_conv)
  with Cons show ?case by auto
qed auto

lemma str_includes_iff: "str_includes s p \<longleftrightarrow> sublist p s"
  unfolding str_includes_def sublist_def using indexOf_None [of s p] by auto

lemma indexOf_first: "indexOf s p = Some i \<Longrightarrow> j < i \<Longrightarrow> \<not> startsWith (drop j s) p"
proof (induction s arbitrary: i j)
  case (Cons c s)
  then show ?case
    by (cases j) (auto split: if_splits)
qed (auto split: if_splits)

lemma split_char_nonempty [simp]: "split_char sep s \<noteq> []"
  by (induction s) (auto split: list.split)

lemma join_Cons: "ws \<noteq> [] \<Longrightarrow> join sep (w # ws) = w @ sep @ join sep ws"
  by (cases ws) simp_all

lemma join_split [simp]: "join [sep] (split_char sep s) = s"
proof (induction s)
  case (Cons c s)
  obtain w ws where sp: "split_char sep s = w # ws" by (metis split_char_nonempty list.exhaust)
  with Cons show ?case
    by (cases ws) (auto simp: join_Cons)
qed simp

lemma split_char_no_sep: "w \<in> set (split_char sep s) \<Longrightarrow> sep \<notin> set w"
proof (induction s arbitrary: w)
  case (Cons c s)
  then show ?case by (auto split: if_splits list.splits)
qed simp

lemma split_char_single: "sep \<notin> set w \<Longrightarrow> split_char sep w = [w]"
  by (induction w) auto

lemma split_char_append: "sep \<notin> set w \<Longrightarrow> split_char sep (w @ sep # s) = w # split_char sep s"
  by (induction w) auto

lemma split_join:
  "ws \<noteq> [] \<Longrightarrow> \<forall>w\<in>set ws. sep \<notin> set w \<Longrightarrow> split_char sep (join [sep] ws) = ws"
proof (induction ws)
  case (Cons w ws)
  then show ?case
    by (cases ws) (simp_all add: split_char_single split_char_append join_Cons)
qed simp

end
