(* ===== verification/Plugin_Host.thy ===== *)
theory Plugin_Host
  imports Contribution_Registries Preferences JS_Text
begin

text \<open>
  The plugin host: \<open>plugins/types.ts\<close>, \<open>plugins/manifestSchema.ts\<close> and \<open>plugins/registry.ts\<close>.
  A plugin's own code is not part of the sources: it appears as the sequence of API calls it makes
  before it returns or throws.  Backend calls appear as their answers.  Operations run to completion one
  after the other; the interleaving of two pending promises is not modelled.  \<open>collate\<close> is the key
  by which \<open>localeCompare\<close> orders ids.
\<close>

section \<open>Types\<close>

datatype plugin_capability =
    Cap_commands | Cap_sidebar | Cap_editorExtensions | Cap_editorTipTapExtensions | Cap_editorBlockSpecs
  | Cap_editorStyleSpecs | Cap_editorSlashMenu | Cap_editorTools | Cap_editorBlockActions
  | Cap_editorLifecycle | Cap_settings

datatype isolation_mode = Builtin_trusted | External_local

record plugin_manifest =
  pm_id :: string
  pm_name :: string
  pm_version :: string
  pm_apiVersion :: string
  pm_entry :: string
  pm_capabilities :: "plugin_capability list"
  pm_description :: "string option"
  pm_author :: "string option"
  pm_homepage :: "string option"

text \<open>One constructor per function of \<open>PluginAPI\<close>.\<close>

datatype api_call =
    RegisterCommands "command_option list"
  | RegisterSidebarSections "sidebar_section list"
  | RegisterEditorExtensions "contribution list"
  | RegisterEditorTipTapExtensions "contribution list"
  | RegisterEditorBlockSpecs spec_map
  | RegisterEditorStyleSpecs spec_map
  | RegisterEditorSlashMenuItems "slash_item list"
  | RegisterEditorTools "editor_tool list"
  | RegisterEditorBlockActions "block_action list"
  | RegisterEditorLifecycleHooks lifecycle_hooks
  | RegisterConfig config_schema

text \<open>Plugin code: the calls it makes, then \<open>None\<close> when it returns or the message it throws.  A setup
  function may return a cleanup function.\<close>

type_synonym plugin_code = "api_call list \<times> string option"
type_synonym plugin_setup = "plugin_code \<times> plugin_code option"

record plugin_definition =
  manifest :: plugin_manifest
  setup_fn :: plugin_setup

record plugin_runtime =
  rt_manifest :: plugin_manifest
  isolationMode :: isolation_mode
  isActive :: bool
  lastError :: "string option"

record plugin_host =
  definitions :: "(string, plugin_definition) jsmap"
  cleanups :: "(string, plugin_capability list \<times> plugin_code option) jsmap"
  runtime :: "(string, plugin_runtime) jsmap"
  supportedPluginAPIMajor :: "int option"
  h_commands :: command_sources
  h_sections :: section_sources
  h_editor :: editor_registry
  h_config :: config_registry
  h_prefs :: prefs_store

section \<open>The capability-scoped API\<close>

definition toSource :: "string \<Rightarrow> string" where
  "toSource pluginId = ''plugin:'' @ pluginId"

fun capability_of :: "api_call \<Rightarrow> plugin_capability" where
  "capability_of (RegisterCommands _) = Cap_commands"
| "capability_of (RegisterSidebarSections _) = Cap_sidebar"
| "capability_of (RegisterEditorExtensions _) = Cap_editorExtensions"
| "capability_of (RegisterEditorTipTapExtensions _) = Cap_editorTipTapExtensions"
| "capability_of (RegisterEditorBlockSpecs _) = Cap_editorBlockSpecs"
| "capability_of (RegisterEditorStyleSpecs _) = Cap_editorStyleSpecs"
| "capability_of (RegisterEditorSlashMenuItems _) = Cap_editorSlashMenu"
| "capability_of (RegisterEditorTools _) = Cap_editorTools"
| "capability_of (RegisterEditorBlockActions _) = Cap_editorBlockActions"
| "capability_of (RegisterEditorLifecycleHooks _) = Cap_editorLifecycle"
| "capability_of (RegisterConfig _) = Cap_settings"

fun method_name :: "api_call \<Rightarrow> string" where
  "method_name (RegisterCommands _) = ''registerCommands''"
| "method_name (RegisterSidebarSections _) = ''registerSidebarSections''"
| "method_name (RegisterEditorExtensions _) = ''registerEditorExtensions''"
| "method_name (RegisterEditorTipTapExtensions _) = ''registerEditorTipTapExtensions''"
| "method_name (RegisterEditorBlockSpecs _) = ''registerEditorBlockSpecs''"
| "method_name (RegisterEditorStyleSpecs _) = ''registerEditorStyleSpecs''"
| "method_name (RegisterEditorSlashMenuItems _) = ''registerEditorSlashMenuItems''"
| "method_name (RegisterEditorTools _) = ''registerEditorTools''"
| "method_name (RegisterEditorBlockActions _) = ''registerEditorBlockActions''"
| "method_name (RegisterEditorLifecycleHooks _) = ''registerEditorLifecycleHooks''"
| "method_name (RegisterConfig _) = ''registerConfig''"

definition PLUGIN_CAPABILITIES :: "(string \<times> plugin_capability) list" where
  "PLUGIN_CAPABILITIES =
     [(''commands'', Cap_commands), (''sidebar'', Cap_sidebar), (''editorExtensions'', Cap_editorExtensions),
      (''editorTipTapExtensions'', Cap_editorTipTapExtensions), (''editorBlockSpecs'', Cap_editorBlockSpecs),
      (''editorStyleSpecs'', Cap_editorStyleSpecs), (''editorSlashMenu'', Cap_editorSlashMenu),
      (''editorTools'', Cap_editorTools), (''editorBlockActions'', Cap_editorBlockActions),
      (''editorLifecycle'', Cap_editorLifecycle), (''settings'', Cap_settings)]"

definition capability_name :: "plugin_capability \<Rightarrow> string" where
  "capability_name c =
     (case map_of (map (\<lambda>(n, c). (c, n)) PLUGIN_CAPABILITIES) c of Some n \<Rightarrow> n | None \<Rightarrow> [])"

definition quote :: "string \<Rightarrow> string" where
  "quote s = [CHR 0x22] @ s @ [CHR 0x22]"

definition missing_capability :: "string \<Rightarrow> api_call \<Rightarrow> string" where
  "missing_capability pluginId call =
     ''Plugin '' @ quote pluginId @ '' called '' @ method_name call @ ''() without declaring the '' @
     quote (capability_name (capability_of call)) @ '' capability.''"

fun apply_call :: "string \<Rightarrow> api_call \<Rightarrow> plugin_host \<Rightarrow> plugin_host" where
  "apply_call pid (RegisterCommands xs) h = h\<lparr>h_commands := setCommands (toSource pid) xs (h_commands h)\<rparr>"
| "apply_call pid (RegisterSidebarSections xs) h = h\<lparr>h_sections := setSections (toSource pid) xs (h_sections h)\<rparr>"
| "apply_call pid (RegisterEditorExtensions xs) h = h\<lparr>h_editor := setEditorExtensions (toSource pid) xs (h_editor h)\<rparr>"
| "apply_call pid (RegisterEditorTipTapExtensions xs) h =
     h\<lparr>h_editor := setEditorTipTapExtensions (toSource pid) xs (h_editor h)\<rparr>"
| "apply_call pid (RegisterEditorBlockSpecs m) h = h\<lparr>h_editor := setEditorBlockSpecs (toSource pid) m (h_editor h)\<rparr>"
| "apply_call pid (RegisterEditorStyleSpecs m) h = h\<lparr>h_editor := setEditorStyleSpecs (toSource pid) m (h_editor h)\<rparr>"
| "apply_call pid (RegisterEditorSlashMenuItems xs) h =
     h\<lparr>h_editor := setEditorSlashMenuItems (toSource pid) xs (h_editor h)\<rparr>"
| "apply_call pid (RegisterEditorTools xs) h = h\<lparr>h_editor := setEditorTools (toSource pid) xs (h_editor h)\<rparr>"
| "apply_call pid (RegisterEditorBlockActions xs) h =
     h\<lparr>h_editor := setEditorBlockActions (toSource pid) xs (h_editor h)\<rparr>"
| "apply_call pid (RegisterEditorLifecycleHooks x) h =
     h\<lparr>h_editor := setEditorLifecycleHooks (toSource pid) x (h_editor h)\<rparr>"
| "apply_call pid (RegisterConfig d) h = h\<lparr>h_config := registerPluginConfig pid d (h_config h)\<rparr>"

text \<open>Running plugin code with \<open>createPluginAPI(pluginId, capabilities)\<close>: a call without the capability
  throws and ends the code.  The second component is the message that was thrown.\<close>

fun run_calls ::
  "string \<Rightarrow> plugin_capability list \<Rightarrow> api_call list \<Rightarrow> plugin_host \<Rightarrow> plugin_host \<times> string option" where
  "run_calls pid caps [] h = (h, None)"
| "run_calls pid caps (c # cs) h =
     (if capability_of c \<notin> set caps then (h, Some (missing_capability pid c))
      else run_calls pid caps cs (apply_call pid c h))"

definition run_code ::
  "string \<Rightarrow> plugin_capability list \<Rightarrow> plugin_code \<Rightarrow> plugin_host \<Rightarrow> plugin_host \<times> string option" where
  "run_code pid caps code h =
     (case run_calls pid caps (fst code) h of
        (h', Some e) \<Rightarrow> (h', Some e)
      | (h', None) \<Rightarrow> (h', snd code))"

definition cleanupPluginContributions :: "string \<Rightarrow> plugin_host \<Rightarrow> plugin_host" where
  "cleanupPluginContributions pid h =
     h\<lparr>h_commands := removeCommandSource (toSource pid) (h_commands h),
       h_sections := removeSectionSource (toSource pid) (h_sections h),
       h_editor := removeAllEditorPluginContributions (toSource pid) (h_editor h),
       h_config := unregisterPluginConfig pid (h_config h)\<rparr>"

section \<open>Loading and unloading\<close>

definition getPluginIsolationMode :: "string \<Rightarrow> isolation_mode" where
  "getPluginIsolationMode entry = (if startsWith entry ''builtin:'' then Builtin_trusted else External_local)"

definition isExternalPluginManifestEntry :: "string \<Rightarrow> bool" where
  "isExternalPluginManifestEntry entry \<longleftrightarrow> \<not> startsWith entry ''builtin:''"

definition isAPIVersionCompatible :: "string \<Rightarrow> int \<Rightarrow> bool" where
  "isAPIVersionCompatible apiVersion supportedMajor =
     (let trimmed = trim apiVersion in
      if trimmed = [] then False
      else
        let majorPart = (case indexOf trimmed ''.'' of Some i \<Rightarrow> take i trimmed | None \<Rightarrow> trimmed)
        in parseInt majorPart = Some supportedMajor)"

definition int_str :: "int \<Rightarrow> string" where
  "int_str n = (if n < 0 then ''-'' @ nat_str (nat (- n)) else nat_str (nat n))"

text \<open>The backend's answer is a number or a rejection.\<close>

definition resolveSupportedPluginAPIMajor :: "string + int \<Rightarrow> plugin_host \<Rightarrow> (string + int) \<times> plugin_host" where
  "resolveSupportedPluginAPIMajor backend h =
     (case supportedPluginAPIMajor h of
        Some m \<Rightarrow> (Inr m, h)
      | None \<Rightarrow>
          (case backend of
             Inl e \<Rightarrow> (Inl e, h)
           | Inr major \<Rightarrow>
               if major \<le> 0 then (Inl (''invalid supported plugin API major: '' @ int_str major), h)
               else (Inr major, h\<lparr>supportedPluginAPIMajor := Some major\<rparr>)))"

text \<open>\<open>setRuntime\<close> with the patches it is called with: \<open>isActive\<close>, and \<open>lastError\<close> when the
  patch has the key.\<close>

definition setRuntime :: "string \<Rightarrow> bool \<Rightarrow> string option option \<Rightarrow> plugin_host \<Rightarrow> plugin_host" where
  "setRuntime pid active err h =
     (case map_get (definitions h) pid of
        None \<Rightarrow> h
      | Some def \<Rightarrow>
          let prev = (case map_get (runtime h) pid of
                Some r \<Rightarrow> r
              | None \<Rightarrow> \<lparr> rt_manifest = manifest def, isolationMode = getPluginIsolationMode (pm_entry (manifest def)),
                  isActive = False, lastError = None \<rparr>);
              r1 = prev\<lparr>isActive := active\<rparr>;
              r2 = (case err of None \<Rightarrow> r1 | Some e \<Rightarrow> r1\<lparr>lastError := e\<rparr>)
          in h\<lparr>runtime := map_set pid r2 (runtime h)\<rparr>)"

definition registerPlugin :: "plugin_definition \<Rightarrow> plugin_host \<Rightarrow> plugin_host" where
  "registerPlugin def h =
     (let pid = pm_id (manifest def) in
      h\<lparr>definitions := map_set pid def (definitions h),
        runtime := map_set pid \<lparr> rt_manifest = manifest def,
          isolationMode = getPluginIsolationMode (pm_entry (manifest def)), isActive = False, lastError = None \<rparr>
          (runtime h)\<rparr>)"

definition loadPlugin :: "string + int \<Rightarrow> string \<Rightarrow> plugin_host \<Rightarrow> plugin_host" where
  "loadPlugin backend pid h =
     (case map_get (definitions h) pid of
        None \<Rightarrow> h
      | Some def \<Rightarrow>
          if map_has (cleanups h) pid then h
          else if pm_entry (manifest def) = [] then
            setRuntime pid False (Some (Some ''Sandbox policy blocks plugin entrypoint.'')) h
          else
            (case resolveSupportedPluginAPIMajor backend h of
               (Inl e, h1) \<Rightarrow>
                 setRuntime pid False (Some (Some (''Unable to resolve supported plugin API major: '' @ e))) h1
             | (Inr supportedMajor, h1) \<Rightarrow>
                 if \<not> isAPIVersionCompatible (pm_apiVersion (manifest def)) supportedMajor then
                   setRuntime pid False (Some (Some (''Unsupported plugin API version '' @
                     quote (pm_apiVersion (manifest def)) @ '' (expected major '' @ int_str supportedMajor @ '').''))) h1
                 else
                   let caps = pm_capabilities (manifest def); (code, cleanup) = setup_fn def in
                   (case run_code pid caps code h1 of
                      (h2, None) \<Rightarrow>
                        setRuntime pid True (Some None) (h2\<lparr>cleanups := map_set pid (caps, cleanup) (cleanups h2)\<rparr>)
                    | (h2, Some message) \<Rightarrow>
                        setRuntime pid False (Some (Some message)) (cleanupPluginContributions pid h2))))"

text \<open>The wrapped cleanup: the plugin's own one first, the host's in any case.\<close>

definition run_cleanup ::
  "string \<Rightarrow> plugin_capability list \<times> plugin_code option \<Rightarrow> plugin_host \<Rightarrow> plugin_host \<times> string option" where
  "run_cleanup pid c h =
     (case snd c of
        None \<Rightarrow> (cleanupPluginContributions pid (cleanupPluginContributions pid h), None)
      | Some code \<Rightarrow>
          (case run_code pid (fst c) code h of (h1, e) \<Rightarrow> (cleanupPluginContributions pid h1, e)))"

text \<open>The second component is the message when the call throws.\<close>

definition unloadPlugin :: "string \<Rightarrow> plugin_host \<Rightarrow> plugin_host \<times> string option" where
  "unloadPlugin pid h =
     (case map_get (cleanups h) pid of
        Some c \<Rightarrow>
          (case run_cleanup pid c h of
             (h1, Some e) \<Rightarrow> (h1, Some e)
           | (h1, None) \<Rightarrow> (setRuntime pid False None (h1\<lparr>cleanups := map_delete pid (cleanups h1)\<rparr>), None))
      | None \<Rightarrow> (setRuntime pid False None (cleanupPluginContributions pid h), None))"

section \<open>The persisted enabled state\<close>

definition PLUGIN_STATE_ID :: string where
  "PLUGIN_STATE_ID = ''__plugin_state''"

definition PLUGIN_STATE_ENABLED_KEY :: string where
  "PLUGIN_STATE_ENABLED_KEY = ''enabled''"

definition plugin_state_entry :: "prefs_store \<Rightarrow> (string, json) jsmap option" where
  "plugin_state_entry p =
     Option.bind (Option.bind (overrides p) p_plugins) (\<lambda>m. map_get m PLUGIN_STATE_ID)"

fun bool_entries :: "(string \<times> json) list \<Rightarrow> (string, bool) jsmap" where
  "bool_entries [] = []"
| "bool_entries ((k, JBool b) # xs) = (k, b) # bool_entries xs"
| "bool_entries (_ # xs) = bool_entries xs"

definition readPersistedState :: "prefs_store \<Rightarrow> (string, bool) jsmap" where
  "readPersistedState p =
     (case Option.bind (plugin_state_entry p) (\<lambda>m. map_get m PLUGIN_STATE_ENABLED_KEY) of
        Some (JObj m) \<Rightarrow> bool_entries m
      | Some (JArr xs) \<Rightarrow> bool_entries (spread (Some (JArr xs)))
      | _ \<Rightarrow> [])"

definition writePersistedState :: "bool \<Rightarrow> (string, bool) jsmap \<Rightarrow> prefs_store \<Rightarrow> bool \<times> prefs_store" where
  "writePersistedState backend_ok enabled p =
     (let current = or_default (plugin_state_entry p) [];
          merged = map_set PLUGIN_STATE_ENABLED_KEY (JObj (map (\<lambda>(k, b). (k, JBool b)) enabled)) current
      in saveOverrides backend_ok (empty_prefs\<lparr>p_plugins := Some [(PLUGIN_STATE_ID, merged)]\<rparr>) p)"

definition enablePlugin :: "bool \<Rightarrow> string + int \<Rightarrow> string \<Rightarrow> plugin_host \<Rightarrow> plugin_host \<times> string option" where
  "enablePlugin backend_ok major pid h =
     (let state = map_set pid True (readPersistedState (h_prefs h)) in
      case writePersistedState backend_ok state (h_prefs h) of
        (False, p) \<Rightarrow> (h\<lparr>h_prefs := p\<rparr>, Some ''save failed'')
      | (True, p) \<Rightarrow> (loadPlugin major pid (h\<lparr>h_prefs := p\<rparr>), None))"

definition disablePlugin :: "bool \<Rightarrow> string \<Rightarrow> plugin_host \<Rightarrow> plugin_host \<times> string option" where
  "disablePlugin backend_ok pid h =
     (let state = map_set pid False (readPersistedState (h_prefs h)) in
      case writePersistedState backend_ok state (h_prefs h) of
        (False, p) \<Rightarrow> (h\<lparr>h_prefs := p\<rparr>, Some ''save failed'')
      | (True, p) \<Rightarrow> unloadPlugin pid (h\<lparr>h_prefs := p\<rparr>))"

definition restricted_mode_error :: string where
  "restricted_mode_error = ''Community plugins are disabled by Restricted Mode.''"

text \<open>An unload that throws ends the loop.\<close>

fun load_defs ::
  "string + int \<Rightarrow> bool \<Rightarrow> (string, bool) jsmap \<Rightarrow> plugin_definition list \<Rightarrow> plugin_host \<Rightarrow> plugin_host \<times> string option" where
  "load_defs major communityEnabled enabled [] h = (h, None)"
| "load_defs major communityEnabled enabled (def # defs) h =
     (let pid = pm_id (manifest def) in
      if \<not> communityEnabled \<and> isExternalPluginManifestEntry (pm_entry (manifest def)) then
        (case unloadPlugin pid h of
           (h1, Some e) \<Rightarrow> (h1, Some e)
         | (h1, None) \<Rightarrow> load_defs major communityEnabled enabled defs
             (setRuntime pid False (Some (Some restricted_mode_error)) h1))
      else if or_default (map_get enabled pid) True then
        load_defs major communityEnabled enabled defs (loadPlugin major pid h)
      else
        (case unloadPlugin pid h of
           (h1, Some e) \<Rightarrow> (h1, Some e)
         | (h1, None) \<Rightarrow> load_defs major communityEnabled enabled defs h1))"

definition loadEnabledPlugins ::
  "(string \<Rightarrow> rat) \<Rightarrow> bool option \<Rightarrow> string + int \<Rightarrow> plugin_host \<Rightarrow> plugin_host \<times> string option" where
  "loadEnabledPlugins collate community major h =
     load_defs major (or_default community False) (readPersistedState (h_prefs h))
       (sort_key (\<lambda>d. collate (pm_id (manifest d))) (map_values (definitions h))) h"

definition listPlugins :: "(string \<Rightarrow> rat) \<Rightarrow> plugin_host \<Rightarrow> plugin_runtime list" where
  "listPlugins collate h = sort_key (\<lambda>r. collate (pm_id (rt_manifest r))) (map_values (runtime h))"

definition getActiveExternalPluginIds :: "(string \<Rightarrow> rat) \<Rightarrow> plugin_host \<Rightarrow> string list" where
  "getActiveExternalPluginIds collate h =
     sort_key collate (map (\<lambda>r. pm_id (rt_manifest r))
       (filter (\<lambda>r. isExternalPluginManifestEntry (pm_entry (rt_manifest r)) \<and> isActive r) (map_values (runtime h))))"

definition hasActiveExternalPlugins :: "(string \<Rightarrow> rat) \<Rightarrow> plugin_host \<Rightarrow> bool" where
  "hasActiveExternalPlugins collate h \<longleftrightarrow> length (getActiveExternalPluginIds collate h) > 0"

fun recover_ids :: "bool \<Rightarrow> string \<Rightarrow> string list \<Rightarrow> plugin_host \<Rightarrow> plugin_host \<times> string option" where
  "recover_ids backend_ok reason [] h = (h, None)"
| "recover_ids backend_ok reason (pid # pids) h =
     (let h0 = setRuntime pid False (Some (Some reason)) h in
      case disablePlugin backend_ok pid h0 of
        (h1, None) \<Rightarrow> recover_ids backend_ok reason pids h1
      | (h1, Some _) \<Rightarrow>
          (case unloadPlugin pid h1 of
             (h2, Some e) \<Rightarrow> (h2, Some e)
           | (h2, None) \<Rightarrow> recover_ids backend_ok reason pids (setRuntime pid False (Some (Some reason)) h2)))"

definition disableExternalPluginsForEditorRecovery ::
  "(string \<Rightarrow> rat) \<Rightarrow> bool \<Rightarrow> string \<Rightarrow> plugin_host \<Rightarrow> plugin_host \<times> string option" where
  "disableExternalPluginsForEditorRecovery collate backend_ok reason h =
     recover_ids backend_ok reason (getActiveExternalPluginIds collate h) h"

section \<open>Installed plugins\<close>

record install_record =
  ir_id :: string
  ir_name :: string
  ir_version :: string
  ir_apiVersion :: string
  ir_entry :: string
  ir_capabilities :: "string list option"
  ir_description :: "string option"
  ir_author :: "string option"
  ir_homepage :: "string option"
  ir_status :: string

definition id_char :: "char \<Rightarrow> bool" where
  "id_char c \<longleftrightarrow> (97 \<le> ccode c \<and> ccode c \<le> 122) \<or> (65 \<le> ccode c \<and> ccode c \<le> 90) \<or> is_digit c \<or>
     c = CHR ''.'' \<or> c = CHR ''_'' \<or> c = CHR ''-''"

definition known_capabilities :: "string list \<Rightarrow> plugin_capability list" where
  "known_capabilities cs = List.map_filter (map_of PLUGIN_CAPABILITIES) cs"

definition toPluginDefinitionManifest :: "install_record \<Rightarrow> plugin_manifest" where
  "toPluginDefinitionManifest r = \<lparr>
     pm_id = ir_id r, pm_name = ir_name r, pm_version = ir_version r, pm_apiVersion = ir_apiVersion r,
     pm_entry = ir_entry r, pm_capabilities = known_capabilities (or_default (ir_capabilities r) []),
     pm_description = ir_description r, pm_author = ir_author r, pm_homepage = ir_homepage r \<rparr>"

text \<open>The manifest schema: trimmed, non-empty fields, an id of the allowed characters and known capabilities.
  \<open>zod_message\<close> is the text Zod reports.\<close>

definition pluginManifestSchema :: "install_record \<Rightarrow> bool" where
  "pluginManifestSchema r \<longleftrightarrow>
     trim (ir_id r) \<noteq> [] \<and> list_all id_char (trim (ir_id r)) \<and> trim (ir_name r) \<noteq> [] \<and>
     trim (ir_version r) \<noteq> [] \<and> trim (ir_apiVersion r) \<noteq> [] \<and> trim (ir_entry r) \<noteq> [] \<and>
     list_all (\<lambda>c. map_of PLUGIN_CAPABILITIES c \<noteq> None) (or_default (ir_capabilities r) [])"

definition safeParsePluginManifest :: "(install_record \<Rightarrow> string) \<Rightarrow> install_record \<Rightarrow> string + plugin_manifest" where
  "safeParsePluginManifest zod_message r =
     (if pluginManifestSchema r then
        Inr ((toPluginDefinitionManifest r)\<lparr>pm_id := trim (ir_id r), pm_name := trim (ir_name r),
          pm_version := trim (ir_version r), pm_apiVersion := trim (ir_apiVersion r), pm_entry := trim (ir_entry r)\<rparr>)
      else Inl (zod_message r))"

record plugin_module =
  mod_setup :: "plugin_setup option"
  mod_default_setup :: "plugin_setup option"

definition resolvePluginSetupExport :: "plugin_module \<Rightarrow> plugin_setup option" where
  "resolvePluginSetupExport m = (case mod_setup m of Some f \<Rightarrow> Some f | None \<Rightarrow> mod_default_setup m)"

definition throwing_setup :: "string \<Rightarrow> plugin_setup" where
  "throwing_setup message = (([], Some message), None)"

text \<open>\<open>import_entry\<close> is \<open>ReadPluginEntrypoint\<close> followed by the dynamic import: an error message
  or the module.\<close>

definition register_record ::
  "(install_record \<Rightarrow> string) \<Rightarrow> (string \<Rightarrow> string + plugin_module) \<Rightarrow> install_record \<Rightarrow> plugin_host \<Rightarrow> plugin_host" where
  "register_record zod_message import_entry r h =
     (if ir_id r = [] \<or> map_has (definitions h) (ir_id r) then h
      else if startsWith (ir_entry r) ''builtin:'' then h
      else if ir_status r \<noteq> ''ok'' then h
      else
        (case safeParsePluginManifest zod_message r of
           Inl error \<Rightarrow>
             registerPlugin \<lparr> manifest = toPluginDefinitionManifest r,
               setup_fn = throwing_setup (''Plugin '' @ quote (ir_id r) @ '' manifest failed validation: '' @ error) \<rparr> h
         | Inr m \<Rightarrow>
             registerPlugin \<lparr> manifest = m, setup_fn =
               (case import_entry (pm_id m) of
                  Inl message \<Rightarrow> throwing_setup (''Unable to load plugin entrypoint: '' @ message)
                | Inr md \<Rightarrow>
                    (case resolvePluginSetupExport md of
                       None \<Rightarrow> throwing_setup (''Plugin '' @ quote (pm_id m) @
                         '' entrypoint must export a setup function (named '' @ quote ''setup'' @ '' or default.setup).'')
                     | Some f \<Rightarrow> f)) \<rparr> h))"

definition registerInstalledPlugins ::
  "(string \<Rightarrow> rat) \<Rightarrow> (install_record \<Rightarrow> string) \<Rightarrow> (string \<Rightarrow> string + plugin_module) \<Rightarrow> install_record list \<Rightarrow>
     plugin_host \<Rightarrow> plugin_host" where
  "registerInstalledPlugins collate zod_message import_entry installed h =
     fold (register_record zod_message import_entry) (sort_key (\<lambda>r. collate (ir_id r)) installed) h"

section \<open>What a source has contributed\<close>

definition view :: "plugin_host \<Rightarrow> string \<Rightarrow> _" where
  "view h k = (map_get (h_commands h) k, map_get (h_sections h) k, editor_contributed (h_editor h) k)"

text \<open>Whether a plugin has contributed something of the kind a capability allows.\<close>

fun contributes :: "plugin_capability \<Rightarrow> plugin_host \<Rightarrow> string \<Rightarrow> bool" where
  "contributes Cap_commands h pid = map_has (h_commands h) (toSource pid)"
| "contributes Cap_sidebar h pid = map_has (h_sections h) (toSource pid)"
| "contributes Cap_editorExtensions h pid = map_has (extensionRegistry (h_editor h)) (toSource pid)"
| "contributes Cap_editorTipTapExtensions h pid = map_has (tiptapExtensionRegistry (h_editor h)) (toSource pid)"
| "contributes Cap_editorBlockSpecs h pid = map_has (blockSpecRegistry (h_editor h)) (toSource pid)"
| "contributes Cap_editorStyleSpecs h pid = map_has (styleSpecRegistry (h_editor h)) (toSource pid)"
| "contributes Cap_editorSlashMenu h pid = map_has (slashMenuRegistry (h_editor h)) (toSource pid)"
| "contributes Cap_editorTools h pid = map_has (toolRegistry (h_editor h)) (toSource pid)"
| "contributes Cap_editorBlockActions h pid = map_has (blockActionRegistry (h_editor h)) (toSource pid)"
| "contributes Cap_editorLifecycle h pid = map_has (lifecycleRegistry (h_editor h)) (toSource pid)"
| "contributes Cap_settings h pid = map_has (h_config h) pid"

lemma toSource_inject [simp]: "toSource a = toSource b \<longleftrightarrow> a = b"
  by (simp add: toSource_def)

lemma editor_set_other:
  assumes "k \<noteq> src"
  shows "editor_contributed (setEditorExtensions src xs e) k = editor_contributed e k"
    "editor_contributed (setEditorTipTapExtensions src xs e) k = editor_contributed e k"
    "editor_contributed (setEditorBlockSpecs src m e) k = editor_contributed e k"
    "editor_contributed (setEditorStyleSpecs src m e) k = editor_contributed e k"
    "editor_contributed (setEditorSlashMenuItems src its e) k = editor_contributed e k"
    "editor_contributed (setEditorTools src ts e) k = editor_contributed e k"
    "editor_contributed (setEditorBlockActions src bas e) k = editor_contributed e k"
    "editor_contributed (setEditorLifecycleHooks src hs e) k = editor_contributed e k"
  using assms by (simp_all add: editor_contributed_def registry_updates js_maps)

lemma setCommands_other: "k \<noteq> src \<Longrightarrow> map_get (setCommands src xs s) k = map_get s k"
  by (simp add: setCommands_def js_maps)

lemma setSections_other: "k \<noteq> src \<Longrightarrow> map_get (setSections src xs s) k = map_get s k"
  by (simp add: setSections_def js_maps)

lemma register_config_other:
  "k \<noteq> pid \<Longrightarrow> getPluginConfigDefinition (registerPluginConfig pid d r) k = getPluginConfigDefinition r k"
  by (simp add: registerPluginConfig_def getPluginConfigDefinition_def js_maps)

lemmas other_sources = editor_set_other setCommands_other setSections_other register_config_other

text \<open>The parts of the host plugin code cannot reach.\<close>

definition host_core :: "plugin_host \<Rightarrow> _" where
  "host_core h = (definitions h, cleanups h, runtime h, supportedPluginAPIMajor h, h_prefs h)"

lemma apply_call_core [simp]: "host_core (apply_call pid c h) = host_core h"
  by (cases c) (simp_all add: host_core_def)

text \<open>The registries without the entries of one plugin.\<close>

definition others_same :: "string \<Rightarrow> plugin_host \<Rightarrow> plugin_host \<Rightarrow> bool" where
  "others_same pid h h' \<longleftrightarrow> (\<forall>k. k \<noteq> toSource pid \<longrightarrow> view h' k = view h k) \<and>
     (\<forall>k. k \<noteq> pid \<longrightarrow> map_get (h_config h') k = map_get (h_config h) k)"

lemma others_same_refl [simp]: "others_same pid h h"
  by (simp add: others_same_def)

lemma others_same_trans: "others_same pid h h' \<Longrightarrow> others_same pid h' h'' \<Longrightarrow> others_same pid h h''"
  by (simp add: others_same_def)

lemma view_editor:
  assumes "editor_contributed e k = editor_contributed e' k"
  shows "map_get (extensionRegistry e) k = map_get (extensionRegistry e') k"
    "map_get (tiptapExtensionRegistry e) k = map_get (tiptapExtensionRegistry e') k"
    "map_get (blockSpecRegistry e) k = map_get (blockSpecRegistry e') k"
    "map_get (styleSpecRegistry e) k = map_get (styleSpecRegistry e') k"
    "map_get (slashMenuRegistry e) k = map_get (slashMenuRegistry e') k"
    "map_get (toolRegistry e) k = map_get (toolRegistry e') k"
    "map_get (blockActionRegistry e) k = map_get (blockActionRegistry e') k"
    "map_get (lifecycleRegistry e) k = map_get (lifecycleRegistry e') k"
  using assms by (simp_all add: editor_contributed_def Let_def split: if_splits)

lemma others_same_contributes:
  assumes "others_same pid h h'" "pid' \<noteq> pid"
  shows "contributes c h' pid' = contributes c h pid'"
proof -
  have k: "toSource pid' \<noteq> toSource pid" using assms(2) by simp
  with assms(1) have v: "view h' (toSource pid') = view h (toSource pid')" by (simp add: others_same_def)
  then have "editor_contributed (h_editor h') (toSource pid') = editor_contributed (h_editor h) (toSource pid')"
    by (simp add: view_def)
  note ed = view_editor [OF this]
  show ?thesis
    using v assms by (cases c) (simp_all add: map_has_def ed view_def others_same_def)
qed

lemma others_same_apply [simp]: "others_same pid h (apply_call pid c h)"
proof -
  have "view (apply_call pid c h) k = view h k" if "k \<noteq> toSource pid" for k
    using that by (cases c) (simp_all add: view_def other_sources)
  moreover have "map_get (h_config (apply_call pid c h)) k = map_get (h_config h) k" if "k \<noteq> pid" for k
    using that by (cases c) (simp_all add: registerPluginConfig_def js_maps)
  ultimately show ?thesis by (simp add: others_same_def)
qed

lemma others_same_cleanup [simp]: "others_same pid h (cleanupPluginContributions pid h)"
  using configs.kept by (simp add: others_same_def view_def cleanupPluginContributions_def commands.kept sections.kept editor.kept
      getPluginConfigDefinition_def)

lemma others_same_calls: "others_same pid h (fst (run_calls pid caps cs h))"
proof (induction cs arbitrary: h)
  case (Cons c cs)
  then show ?case using others_same_trans [OF others_same_apply Cons.IH] by simp
qed simp

lemma fst_run_code: "fst (run_code pid caps c h) = fst (run_calls pid caps (fst c) h)"
  by (simp add: run_code_def split: prod.split option.split)

lemma others_same_code: "others_same pid h (fst (run_code pid caps c h))"
  by (simp add: fst_run_code others_same_calls)

lemma run_calls_core: "host_core (fst (run_calls pid caps cs h)) = host_core h"
  by (induction cs arbitrary: h) simp_all

lemma run_code_core: "host_core (fst (run_code pid caps c h)) = host_core h"
  by (simp add: fst_run_code run_calls_core)

lemma cleanup_core [simp]: "host_core (cleanupPluginContributions pid h) = host_core h"
  by (simp add: cleanupPluginContributions_def host_core_def)

lemma cleanup_contributes [simp]: "\<not> contributes c (cleanupPluginContributions pid h) pid"
  using configs.removed [of pid "h_config h"]
  by (cases c) (simp_all add: cleanupPluginContributions_def map_has_def commands.removed sections.removed removeAll_maps
      getPluginConfigDefinition_def)

text \<open>The capability check: plugin code only ever adds contributions of granted kinds.\<close>

lemma apply_call_contributes:
  "contributes c (apply_call pid call h) pid \<Longrightarrow> contributes c h pid \<or> c = capability_of call"
  by (cases call; cases c) (simp_all add: registry_updates)

lemma run_calls_contributes:
  "contributes c (fst (run_calls pid caps cs h)) pid \<Longrightarrow> contributes c h pid \<or> c \<in> set caps"
proof (induction cs arbitrary: h)
  case (Cons call cs)
  with apply_call_contributes [of c pid call h] Cons.IH [of "apply_call pid call h"] show ?case
    by (auto split: if_splits)
qed simp

lemma run_code_contributes:
  "contributes c (fst (run_code pid caps cd h)) pid \<Longrightarrow> contributes c h pid \<or> c \<in> set caps"
  unfolding fst_run_code by (rule run_calls_contributes)

section \<open>The invariant of the host\<close>

definition active :: "plugin_host \<Rightarrow> string \<Rightarrow> bool" where
  "active h pid \<longleftrightarrow> (\<exists>r. map_get (runtime h) pid = Some r \<and> isActive r)"

definition covered :: "plugin_host \<Rightarrow> string \<Rightarrow> bool" where
  "covered h pid \<longleftrightarrow> (\<forall>c. contributes c h pid \<longrightarrow>
     (\<exists>caps cl. map_get (cleanups h) pid = Some (caps, cl) \<and> c \<in> set caps))"

definition books_ok :: "plugin_host \<Rightarrow> bool" where
  "books_ok h \<longleftrightarrow> (\<forall>pid. active h pid \<longrightarrow> map_has (cleanups h) pid) \<and>
     (\<forall>pid r. map_get (runtime h) pid = Some r \<longrightarrow>
        (\<exists>def. map_get (definitions h) pid = Some def \<and> rt_manifest r = manifest def)) \<and>
     (\<forall>pid def. map_get (definitions h) pid = Some def \<longrightarrow> pm_id (manifest def) = pid) \<and>
     wf_map (definitions h) \<and> wf_map (runtime h)"

definition host_inv :: "plugin_host \<Rightarrow> bool" where
  "host_inv h \<longleftrightarrow> (\<forall>pid. covered h pid) \<and> books_ok h"

lemma core_fields:
  assumes "host_core h' = host_core h"
  shows "definitions h' = definitions h" "cleanups h' = cleanups h" "runtime h' = runtime h"
    "supportedPluginAPIMajor h' = supportedPluginAPIMajor h" "h_prefs h' = h_prefs h"
  using assms by (simp_all add: host_core_def)

lemma books_core: "host_core h' = host_core h \<Longrightarrow> books_ok h' = books_ok h"
  by (simp add: books_ok_def active_def host_core_def)

lemma setRuntime_same [simp]:
  "definitions (setRuntime pid a e h) = definitions h" "cleanups (setRuntime pid a e h) = cleanups h"
  "h_prefs (setRuntime pid a e h) = h_prefs h" "contributes c (setRuntime pid a e h) pid' = contributes c h pid'"
  by (cases c; simp add: setRuntime_def Let_def split: option.split)+

lemma covered_cong:
  "(\<And>c. contributes c h' pid = contributes c h pid) \<Longrightarrow> cleanups h' = cleanups h \<Longrightarrow> covered h' pid = covered h pid"
  by (simp add: covered_def)

lemma covered_setRuntime [simp]: "covered (setRuntime pid a e h) pid' = covered h pid'"
  by (rule covered_cong) simp_all

lemma runtime_setRuntime:
  "map_get (runtime (setRuntime pid a e h)) k =
     (case map_get (definitions h) pid of
        None \<Rightarrow> map_get (runtime h) k
      | Some def \<Rightarrow>
          if k = pid then Some (let r = (case map_get (runtime h) pid of Some r \<Rightarrow> r
              | None \<Rightarrow> \<lparr> rt_manifest = manifest def, isolationMode = getPluginIsolationMode (pm_entry (manifest def)),
                  isActive = False, lastError = None \<rparr>)
            in (case e of None \<Rightarrow> r\<lparr>isActive := a\<rparr> | Some m \<Rightarrow> r\<lparr>isActive := a, lastError := m\<rparr>))
          else map_get (runtime h) k)"
  by (simp add: setRuntime_def Let_def js_maps split: option.split)

lemma active_setRuntime:
  "active (setRuntime pid a e h) k = (if k = pid \<and> map_has (definitions h) pid then a else active h k)"
  by (auto simp: active_def runtime_setRuntime map_has_def Let_def split: option.splits)

lemma books_manifest:
  "books_ok h \<Longrightarrow> map_get (runtime h) pid = Some r \<Longrightarrow> map_get (definitions h) pid = Some def \<Longrightarrow> rt_manifest r = manifest def"
  by (force simp: books_ok_def)

lemma books_def:
  "books_ok h \<Longrightarrow> map_get (runtime h) pid = Some r \<Longrightarrow> \<exists>def. map_get (definitions h) pid = Some def \<and> rt_manifest r = manifest def"
  by (simp add: books_ok_def)

lemma books_id: "books_ok h \<Longrightarrow> map_get (definitions h) pid = Some def \<Longrightarrow> pm_id (manifest def) = pid"
  by (simp add: books_ok_def)

lemma setRuntime_manifest:
  assumes "books_ok h" "map_get (runtime (setRuntime pid a e h)) k = Some r"
  shows "\<exists>def. map_get (definitions h) k = Some def \<and> rt_manifest r = manifest def"
proof (cases "k = pid \<and> map_has (definitions h) pid")
  case True
  then obtain def where def: "map_get (definitions h) pid = Some def" by (auto simp: map_has_def)
  have "rt_manifest r = manifest def"
  proof (cases "map_get (runtime h) pid")
    case None
    with assms(2) True def show ?thesis by (cases e) (auto simp: runtime_setRuntime)
  next
    case (Some r0)
    with assms(2) True def have "rt_manifest r = rt_manifest r0"
      by (cases e) (auto simp: runtime_setRuntime)
    with books_manifest [OF assms(1) Some def] show ?thesis by simp
  qed
  with def True show ?thesis by simp
next
  case False
  then have "map_get (runtime (setRuntime pid a e h)) k = map_get (runtime h) k"
    by (simp add: runtime_setRuntime map_has_def split: option.split)
  with assms books_def [OF assms(1), of k r] show ?thesis by simp
qed

lemma books_setRuntime:
  assumes "books_ok h" "a \<longrightarrow> map_has (cleanups h) pid"
  shows "books_ok (setRuntime pid a e h)"
proof -
  have "wf_map (runtime (setRuntime pid a e h))"
    using assms(1) by (simp add: setRuntime_def books_ok_def Let_def split: option.split)
  moreover have "\<forall>k. active (setRuntime pid a e h) k \<longrightarrow> map_has (cleanups h) k"
    using assms by (simp add: active_setRuntime books_ok_def)
  moreover have "\<forall>pid def. map_get (definitions h) pid = Some def \<longrightarrow> pm_id (manifest def) = pid" "wf_map (definitions h)"
    using assms(1) by (simp_all add: books_ok_def)
  moreover have "\<forall>k r. map_get (runtime (setRuntime pid a e h)) k = Some r \<longrightarrow>
      (\<exists>def. map_get (definitions h) k = Some def \<and> rt_manifest r = manifest def)"
    using setRuntime_manifest [OF assms(1)] by blast
  ultimately show ?thesis
    unfolding books_ok_def setRuntime_same by blast
qed

lemma inv_setRuntime:
  "host_inv h \<Longrightarrow> (a \<longrightarrow> map_has (cleanups h) pid) \<Longrightarrow> host_inv (setRuntime pid a e h)"
  by (simp add: host_inv_def books_setRuntime)

text \<open>Whatever only touches the registries of one plugin keeps the invariant as long as that plugin stays covered.\<close>

lemma inv_registries:
  assumes "host_inv h" "others_same pid h h'" "host_core h' = host_core h" "covered h' pid"
  shows "host_inv h'"
proof -
  have "covered h' pid'" for pid'
  proof (cases "pid' = pid")
    case False
    have "covered h' pid' = covered h pid'"
      by (rule covered_cong) (rule others_same_contributes [OF assms(2) False], rule core_fields(2) [OF assms(3)])
    with assms(1) show ?thesis by (simp add: host_inv_def)
  qed (simp add: assms(4))
  with assms(1) show ?thesis unfolding host_inv_def books_core [OF assms(3)] by blast
qed

lemma inv_cleanup: "host_inv h \<Longrightarrow> host_inv (cleanupPluginContributions pid h)"
  by (rule inv_registries [of h pid]) (simp_all add: covered_def)

lemma inv_silent: "host_inv h \<Longrightarrow> \<not> map_has (cleanups h) pid \<Longrightarrow> \<not> contributes c h pid"
  unfolding host_inv_def covered_def map_has_def by (metis option.distinct(1))

lemma inv_prefs [simp]: "host_inv (h\<lparr>h_prefs := p\<rparr>) = host_inv h"
proof -
  have "contributes c (h\<lparr>h_prefs := p\<rparr>) pid = contributes c h pid" for c pid by (cases c) simp_all
  then show ?thesis by (simp add: host_inv_def covered_def books_ok_def active_def)
qed

lemma inv_major [simp]: "host_inv (h\<lparr>supportedPluginAPIMajor := p\<rparr>) = host_inv h"
proof -
  have "contributes c (h\<lparr>supportedPluginAPIMajor := p\<rparr>) pid = contributes c h pid" for c pid by (cases c) simp_all
  then show ?thesis by (simp add: host_inv_def covered_def books_ok_def active_def)
qed

lemma major_self: "\<exists>m. h = h\<lparr>supportedPluginAPIMajor := m\<rparr>"
  by (rule exI [of _ "supportedPluginAPIMajor h"]) simp

lemma resolve_cases:
  assumes "resolveSupportedPluginAPIMajor backend h = (r, h1)"
  shows "\<exists>m. h1 = h\<lparr>supportedPluginAPIMajor := m\<rparr>"
  using assms major_self [of h]
  by (auto simp: resolveSupportedPluginAPIMajor_def split: option.splits sum.splits if_splits)

lemma contributes_cleanups [simp]: "contributes c (h\<lparr>cleanups := m\<rparr>) pid = contributes c h pid"
  by (cases c) simp_all

lemma inv_add_cleanup:
  assumes "host_inv h" "\<And>c. contributes c h' pid \<Longrightarrow> c \<in> set caps" "others_same pid h h'" "host_core h' = host_core h"
  shows "host_inv (h'\<lparr>cleanups := map_set pid (caps, cl) (cleanups h')\<rparr>)" (is "host_inv ?h")
proof -
  have "covered ?h pid'" for pid'
  proof (cases "pid' = pid")
    case True
    with assms(2) show ?thesis by (simp add: covered_def js_maps)
  next
    case False
    with assms(1) others_same_contributes [OF assms(3) False] core_fields(2) [OF assms(4)] show ?thesis
      by (simp add: covered_def js_maps host_inv_def)
  qed
  moreover have "books_ok ?h"
  proof -
    have "map_has (map_set pid (caps, cl) (cleanups h)) k" if "map_has (cleanups h) k" for k
      using that by (auto simp: map_has_def js_maps)
    with assms(1) core_fields [OF assms(4)] show ?thesis
      by (simp add: host_inv_def books_ok_def active_def)
  qed
  ultimately show ?thesis by (simp add: host_inv_def)
qed

lemma runtime_cleanups [simp]: "runtime (setRuntime pid a e (h\<lparr>cleanups := m\<rparr>)) = runtime (setRuntime pid a e h)"
  by (simp add: setRuntime_def Let_def split: option.split)

lemma active_cleanups [simp]: "active (h\<lparr>cleanups := m\<rparr>) k = active h k"
  by (simp add: active_def)

lemma active_def_known: "books_ok h \<Longrightarrow> active h pid \<Longrightarrow> map_has (definitions h) pid"
  unfolding active_def map_has_def using books_def by fastforce

lemma inv_remove_cleanup:
  assumes "host_inv h" "\<And>c. \<not> contributes c h pid"
  shows "host_inv (setRuntime pid False None (h\<lparr>cleanups := map_delete pid (cleanups h)\<rparr>))" (is "host_inv ?h")
proof -
  have "covered ?h pid'" for pid'
    using assms by (cases "pid' = pid") (simp_all add: covered_def js_maps host_inv_def)
  moreover have "books_ok ?h"
  proof -
    have b: "books_ok h" using assms(1) by (simp add: host_inv_def)
    have "\<forall>k r. map_get (runtime ?h) k = Some r \<longrightarrow>
        (\<exists>def. map_get (definitions h) k = Some def \<and> rt_manifest r = manifest def)"
      using setRuntime_manifest [OF b, of pid False None] by simp
    moreover have "map_has (cleanups ?h) k" if "active ?h k" for k
    proof -
      from that active_def_known [OF b] have "k \<noteq> pid" "active h k"
        by (auto simp: active_setRuntime split: if_splits)
      then show ?thesis using b by (simp add: books_ok_def map_has_def js_maps)
    qed
    moreover have "wf_map (runtime ?h)" "wf_map (definitions h)"
      "\<forall>pid def. map_get (definitions h) pid = Some def \<longrightarrow> pm_id (manifest def) = pid"
      using b by (simp_all add: setRuntime_def books_ok_def Let_def split: option.split)
    ultimately show ?thesis unfolding books_ok_def by simp
  qed
  ultimately show ?thesis by (simp add: host_inv_def)
qed

lemma run_cleanup_facts:
  assumes "run_cleanup pid c h = (h1, e)"
  shows "host_core h1 = host_core h" "others_same pid h h1" "\<not> contributes cap h1 pid"
proof -
  have "host_core h1 = host_core h \<and> others_same pid h h1 \<and> \<not> contributes cap h1 pid"
  proof (cases "snd c")
    case None
    with assms show ?thesis
      using others_same_trans [OF others_same_cleanup others_same_cleanup] by (auto simp: run_cleanup_def)
  next
    case (Some code)
    with assms have "h1 = cleanupPluginContributions pid (fst (run_code pid (fst c) code h))"
      by (auto simp: run_cleanup_def split: prod.splits)
    then show ?thesis
      using others_same_trans [OF others_same_code others_same_cleanup] by (auto simp: run_code_core)
  qed
  then show "host_core h1 = host_core h" "others_same pid h h1" "\<not> contributes cap h1 pid" by simp_all
qed

lemma inv_cleaned: "host_inv h \<Longrightarrow> run_cleanup pid c h = (h1, e) \<Longrightarrow> host_inv h1"
  using run_cleanup_facts [of pid c h h1 e]
  by (intro inv_registries [of h pid h1]) (simp_all add: covered_def)

lemma inv_unload:
  assumes "host_inv h"
  shows "host_inv (fst (unloadPlugin pid h))"
proof (cases "map_get (cleanups h) pid")
  case None
  then show ?thesis using assms by (simp add: unloadPlugin_def inv_setRuntime inv_cleanup)
next
  case (Some c)
  obtain h1 e where r: "run_cleanup pid c h = (h1, e)" by (cases "run_cleanup pid c h")
  have i1: "host_inv h1" using assms r by (rule inv_cleaned)
  from inv_remove_cleanup [OF i1 run_cleanup_facts(3) [OF r]] i1 Some r show ?thesis
    by (cases e) (simp_all add: unloadPlugin_def)
qed

lemma inv_load:
  assumes "host_inv h"
  shows "host_inv (loadPlugin major pid h)"
proof (cases "map_get (definitions h) pid")
  case (Some def)
  show ?thesis
  proof (cases "map_has (cleanups h) pid \<or> pm_entry (manifest def) = []")
    case True
    then show ?thesis using assms Some by (auto simp: loadPlugin_def inv_setRuntime)
  next
    case False
    obtain r h1 where res: "resolveSupportedPluginAPIMajor major h = (r, h1)"
      by (cases "resolveSupportedPluginAPIMajor major h")
    then obtain m where h1: "h1 = h\<lparr>supportedPluginAPIMajor := m\<rparr>" using resolve_cases by blast
    then have i1: "host_inv h1" using assms by simp
    have quiet: "\<not> contributes c h1 pid" for c using inv_silent [OF i1, of pid c] False h1 by simp
    obtain code cl where sf: "setup_fn def = (code, cl)" by (cases "setup_fn def")
    let ?caps = "pm_capabilities (manifest def)"
    obtain h2 e where run: "run_code pid ?caps code h1 = (h2, e)" by (cases "run_code pid ?caps code h1")
    have sub: "c \<in> set ?caps" if "contributes c h2 pid" for c
      using that run run_code_contributes [of c pid ?caps code h1] quiet by auto
    have o2: "others_same pid h1 h2" "host_core h2 = host_core h1"
      using others_same_code [of pid h1 ?caps code] run_code_core [of pid ?caps code h1] run by auto
    have ok: "host_inv (setRuntime pid True (Some None) (h2\<lparr>cleanups := map_set pid (?caps, cl) (cleanups h2)\<rparr>))"
      using inv_add_cleanup [OF i1 sub o2] by (intro inv_setRuntime) (simp_all add: map_has_def js_maps)
    have bad: "host_inv (cleanupPluginContributions pid h2)"
      using o2 others_same_trans [OF o2(1) others_same_cleanup]
      by (intro inv_registries [OF i1, of pid]) (simp_all add: covered_def)
    show ?thesis
      using False Some res run sf i1 ok bad
      by (cases r; cases e) (simp_all add: loadPlugin_def inv_setRuntime)
  qed
qed (simp add: loadPlugin_def assms)

lemma contributes_register [simp]:
  "contributes c (registerPlugin def h) pid = contributes c h pid" "cleanups (registerPlugin def h) = cleanups h"
  by (cases c; simp add: registerPlugin_def Let_def)+

lemma inv_register:
  assumes "host_inv h"
  shows "host_inv (registerPlugin def h)"
proof -
  have "covered (registerPlugin def h) pid" for pid
    using assms covered_cong [of "registerPlugin def h" pid h] by (simp add: host_inv_def)
  moreover have "books_ok (registerPlugin def h)"
    using assms
    by (auto simp: host_inv_def books_ok_def active_def registerPlugin_def Let_def get_set split: if_splits)
  ultimately show ?thesis by (simp add: host_inv_def)
qed

lemma inv_register_record: "host_inv h \<Longrightarrow> host_inv (register_record zm imp r h)"
  by (simp add: register_record_def inv_register split: sum.split)

lemma inv_fold: "(\<And>x h. host_inv h \<Longrightarrow> host_inv (f x h)) \<Longrightarrow> host_inv h \<Longrightarrow> host_inv (fold f xs h)"
  by (induction xs arbitrary: h) auto

lemma inv_installed: "host_inv h \<Longrightarrow> host_inv (registerInstalledPlugins collate zm imp rs h)"
  unfolding registerInstalledPlugins_def by (rule inv_fold [OF inv_register_record])

lemma inv_load_defs: "host_inv h \<Longrightarrow> host_inv (fst (load_defs major ce en defs h))"
proof (induction defs arbitrary: h)
  case (Cons def defs)
  obtain h1 e where u: "unloadPlugin (pm_id (manifest def)) h = (h1, e)" by (cases "unloadPlugin (pm_id (manifest def)) h")
  then have "host_inv h1" using inv_unload [OF Cons.prems, of "pm_id (manifest def)"] by simp
  with Cons u show ?case by (cases ce; cases e) (simp_all add: Let_def inv_load inv_setRuntime)
qed simp

lemma inv_disable: "host_inv h \<Longrightarrow> host_inv (fst (disablePlugin ok pid h))"
  by (simp add: disablePlugin_def Let_def inv_unload split: prod.split bool.split)

lemma inv_enable: "host_inv h \<Longrightarrow> host_inv (fst (enablePlugin ok major pid h))"
  by (simp add: enablePlugin_def Let_def inv_load split: prod.split bool.split)

lemma inv_recover: "host_inv h \<Longrightarrow> host_inv (fst (recover_ids ok reason pids h))"
proof (induction pids arbitrary: h)
  case (Cons pid pids)
  let ?h0 = "setRuntime pid False (Some (Some reason)) h"
  obtain h1 e where d: "disablePlugin ok pid ?h0 = (h1, e)" by (cases "disablePlugin ok pid ?h0")
  have i1: "host_inv h1" using inv_disable [of ?h0 ok pid] Cons.prems d by (simp add: inv_setRuntime)
  obtain h2 e2 where u: "unloadPlugin pid h1 = (h2, e2)" by (cases "unloadPlugin pid h1")
  have "host_inv h2" using inv_unload [OF i1, of pid] u by simp
  with Cons.IH i1 d u show ?case by (cases e; cases e2) (simp_all add: Let_def inv_setRuntime)
qed simp

section \<open>Histories\<close>

text \<open>Everything the application does with the host.\<close>

datatype host_op =
    Register plugin_definition
  | RegisterInstalled "string \<Rightarrow> rat" "install_record \<Rightarrow> string" "string \<Rightarrow> string + plugin_module" "install_record list"
  | Load "string + int" string
  | Unload string
  | Enable bool "string + int" string
  | Disable bool string
  | LoadEnabled "string \<Rightarrow> rat" "bool option" "string + int"
  | Recover "string \<Rightarrow> rat" bool string

fun host_run :: "host_op \<Rightarrow> plugin_host \<Rightarrow> plugin_host" where
  "host_run (Register def) h = registerPlugin def h"
| "host_run (RegisterInstalled collate zm imp rs) h = registerInstalledPlugins collate zm imp rs h"
| "host_run (Load major pid) h = loadPlugin major pid h"
| "host_run (Unload pid) h = fst (unloadPlugin pid h)"
| "host_run (Enable ok major pid) h = fst (enablePlugin ok major pid h)"
| "host_run (Disable ok pid) h = fst (disablePlugin ok pid h)"
| "host_run (LoadEnabled collate community major) h = fst (loadEnabledPlugins collate community major h)"
| "host_run (Recover collate ok reason) h = fst (disableExternalPluginsForEditorRecovery collate ok reason h)"

definition empty_host :: "prefs_store \<Rightarrow> plugin_host" where
  "empty_host p = \<lparr> definitions = [], cleanups = [], runtime = [], supportedPluginAPIMajor = None,
     h_commands = [], h_sections = [], h_editor = empty_registry, h_config = [], h_prefs = p \<rparr>"

lemma inv_empty: "host_inv (empty_host p)"
proof -
  have "\<not> contributes c (empty_host p) pid" for c pid
    by (cases c) (simp_all add: empty_host_def empty_registry_def map_has_def)
  then show ?thesis by (simp add: host_inv_def covered_def books_ok_def active_def empty_host_def)
qed

lemma inv_run: "host_inv h \<Longrightarrow> host_inv (host_run op h)"
  by (cases op)
     (simp_all add: inv_register inv_installed inv_load inv_unload inv_enable inv_disable inv_load_defs inv_recover
       loadEnabledPlugins_def disableExternalPluginsForEditorRecovery_def)

lemma inv_history: "host_inv (fold host_run ops (empty_host p))"
  by (rule inv_fold [OF inv_run inv_empty])

section \<open>Activity\<close>

lemma active_core: "host_core h' = host_core h \<Longrightarrow> active h' k = active h k"
  by (simp add: active_def host_core_def)

lemma definitions_unload [simp]: "definitions (fst (unloadPlugin pid h)) = definitions h"
proof (cases "map_get (cleanups h) pid")
  case None
  then show ?thesis using core_fields(1) [OF cleanup_core, of pid h] by (simp add: unloadPlugin_def)
next
  case (Some c)
  obtain h1 e where r: "run_cleanup pid c h = (h1, e)" by (cases "run_cleanup pid c h")
  from core_fields(1) [OF run_cleanup_facts(1) [OF r]] Some r show ?thesis
    by (cases e) (simp_all add: unloadPlugin_def)
qed

lemma active_unload:
  assumes "books_ok h" "unloadPlugin pid h = (h1, None)"
  shows "active h1 k \<longleftrightarrow> active h k \<and> k \<noteq> pid"
proof (cases "map_get (cleanups h) pid")
  case None
  with assms(2) have "h1 = setRuntime pid False None (cleanupPluginContributions pid h)" by (simp add: unloadPlugin_def)
  then show ?thesis
    using active_core [OF cleanup_core, of pid h] core_fields(1) [OF cleanup_core, of pid h] active_def_known [OF assms(1)]
    by (auto simp: active_setRuntime)
next
  case (Some c)
  obtain h2 e where r: "run_cleanup pid c h = (h2, e)" by (cases "run_cleanup pid c h")
  with Some assms(2) have "e = None" "h1 = setRuntime pid False None (h2\<lparr>cleanups := map_delete pid (cleanups h2)\<rparr>)"
    by (simp_all add: unloadPlugin_def split: option.splits)
  then show ?thesis
    using active_core [OF run_cleanup_facts(1) [OF r]] core_fields(1) [OF run_cleanup_facts(1) [OF r]]
      active_def_known [OF assms(1)]
    by (auto simp: active_setRuntime)
qed

lemma others_same_fields [simp]:
  "others_same pid h (h'\<lparr>supportedPluginAPIMajor := m\<rparr>) = others_same pid h h'"
  "others_same pid h (h'\<lparr>cleanups := cl\<rparr>) = others_same pid h h'"
  by (simp_all add: others_same_def view_def)

text \<open>The shape of the result of a load: some state with the same definitions and, for every other plugin, the same
  registries and the same activity.\<close>

lemma load_cases:
  obtains "loadPlugin major pid h = h"
  | h1 a e where "loadPlugin major pid h = setRuntime pid a e h1" "others_same pid h h1"
      "definitions h1 = definitions h" "runtime h1 = runtime h"
proof (cases "map_get (definitions h) pid")
  case None
  then show ?thesis using that(1) by (simp add: loadPlugin_def)
next
  case (Some def)
  obtain r h1 where res: "resolveSupportedPluginAPIMajor major h = (r, h1)"
    by (cases "resolveSupportedPluginAPIMajor major h")
  then obtain m where h1: "h1 = h\<lparr>supportedPluginAPIMajor := m\<rparr>" using resolve_cases by blast
  obtain code cl where sf: "setup_fn def = (code, cl)" by (cases "setup_fn def")
  let ?caps = "pm_capabilities (manifest def)"
  obtain h2 e where run: "run_code pid ?caps code h1 = (h2, e)" by (cases "run_code pid ?caps code h1")
  have same1: "others_same pid h h1" by (simp add: h1)
  have same2: "others_same pid h h2" "host_core h2 = host_core h1"
    using others_same_trans [OF same1 others_same_code] run_code_core [of pid ?caps code h1] run
    by (metis fst_conv)+
  have same3: "others_same pid h (cleanupPluginContributions pid h2)"
    using others_same_trans [OF same2(1) others_same_cleanup] .
  note core = core_fields [OF same2(2)] core_fields [OF cleanup_core, of pid h2]
  show ?thesis
  proof (cases "map_has (cleanups h) pid")
    case True
    with Some show ?thesis using that(1) by (simp add: loadPlugin_def)
  next
    case False
    note goal = that(2)
    show ?thesis
    proof (cases "pm_entry (manifest def) = []")
      case True
      with Some False show ?thesis by (intro goal [of _ _ h]) (simp_all add: loadPlugin_def)
    next
      case entry: False
      show ?thesis
      proof (cases "\<exists>x. r = Inr x \<and> isAPIVersionCompatible (pm_apiVersion (manifest def)) x")
        case False
        with Some \<open>\<not> map_has (cleanups h) pid\<close> entry res show ?thesis
          by (cases r) (auto simp: loadPlugin_def h1 same1 intro!: goal [of _ _ h1])
      next
        case True
        show ?thesis
        proof (cases e)
          case None
          with Some False True entry res run sf show ?thesis
            by (auto simp: loadPlugin_def core h1 same2(1)
                intro!: goal [of True "Some None" "h2\<lparr>cleanups := map_set pid (?caps, cl) (cleanups h2)\<rparr>"])
        next
          case (Some m)
          with \<open>map_get (definitions h) pid = Some def\<close> False True entry res run sf show ?thesis
            by (auto simp: loadPlugin_def core h1 same3 intro!: goal [of False _ "cleanupPluginContributions pid h2"])
        qed
      qed
    qed
  qed
qed

lemma others_setRuntime [simp]: "others_same pid h (setRuntime p a e h') = others_same pid h h'"
proof -
  have "view (setRuntime p a e h') k = view h' k" "h_config (setRuntime p a e h') = h_config h'" for k
    by (simp_all add: setRuntime_def view_def Let_def split: option.split)
  then show ?thesis by (simp add: others_same_def)
qed

lemma load_others: "others_same pid h (loadPlugin major pid h)"
  by (cases rule: load_cases [of major pid h]) simp_all

lemma definitions_load [simp]: "definitions (loadPlugin major pid h) = definitions h"
  by (cases rule: load_cases [of major pid h]) simp_all

lemma active_load_other:
  assumes "k \<noteq> pid"
  shows "active (loadPlugin major pid h) k = active h k"
proof (cases rule: load_cases [of major pid h])
  case (2 h1 a e)
  then have "active h1 k = active h k" by (simp add: active_def)
  with 2 assms show ?thesis by (simp add: active_setRuntime)
qed simp

lemma unload_others: "others_same pid h (fst (unloadPlugin pid h))"
proof (cases "map_get (cleanups h) pid")
  case None
  then show ?thesis by (simp add: unloadPlugin_def)
next
  case (Some c)
  obtain h1 e where r: "run_cleanup pid c h = (h1, e)" by (cases "run_cleanup pid c h")
  from run_cleanup_facts(2) [OF r] Some r show ?thesis by (cases e) (simp_all add: unloadPlugin_def)
qed

lemma load_defs_definitions: "definitions (fst (load_defs major ce en defs h)) = definitions h"
proof (induction defs arbitrary: h)
  case (Cons def defs)
  obtain h1 e where u: "unloadPlugin (pm_id (manifest def)) h = (h1, e)" by (cases "unloadPlugin (pm_id (manifest def)) h")
  with definitions_unload [of "pm_id (manifest def)" h] Cons show ?case
    by (cases ce; cases e) (simp_all add: Let_def)
qed simp

lemma load_defs_active:
  assumes "host_inv h" "snd (load_defs major False en defs h) = None" "active (fst (load_defs major False en defs h)) k"
  shows "(\<exists>d\<in>set defs. pm_id (manifest d) = k \<and> \<not> isExternalPluginManifestEntry (pm_entry (manifest d))) \<or>
    active h k \<and> (\<forall>d\<in>set defs. pm_id (manifest d) \<noteq> k)"
  using assms
proof (induction defs arbitrary: h)
  case (Cons def defs)
  let ?pid = "pm_id (manifest def)"
  obtain h1 e where u: "unloadPlugin ?pid h = (h1, e)" by (cases "unloadPlugin ?pid h")
  have i1: "host_inv h1" using inv_unload [OF Cons.prems(1), of ?pid] u by simp
  have act: "active h1 k \<longleftrightarrow> active h k \<and> k \<noteq> ?pid" if "e = None"
    using active_unload [of h ?pid h1 k] Cons.prems(1) u that by (simp add: host_inv_def)
  show ?case
  proof (cases "isExternalPluginManifestEntry (pm_entry (manifest def))")
    case True
    let ?h2 = "setRuntime ?pid False (Some (Some restricted_mode_error)) h1"
    from True Cons.prems u have e: "e = None" by (cases e) (simp_all add: Let_def)
    have "active ?h2 k \<longrightarrow> active h k \<and> k \<noteq> ?pid"
      using act [OF e] by (simp add: active_setRuntime)
    with Cons.IH [of ?h2] Cons.prems True u e i1 show ?thesis by (auto simp: Let_def inv_setRuntime)
  next
    case ext: False
    show ?thesis
    proof (cases "or_default (map_get en ?pid) True")
      case True
      with Cons.IH [of "loadPlugin major ?pid h"] Cons.prems ext active_load_other [of k ?pid major h] inv_load [of h major ?pid]
      show ?thesis by (cases "k = ?pid") (auto simp: Let_def)
    next
      case False
      from False ext Cons.prems u have e: "e = None" by (cases e) (simp_all add: Let_def)
      with Cons.IH [of h1] Cons.prems False ext u act i1 show ?thesis by (auto simp: Let_def)
    qed
  qed
qed simp

lemma sort_key_empty [simp]: "sort_key f xs = [] \<longleftrightarrow> xs = []"
  by (metis length_0_conv length_sort)

lemma active_external:
  "getActiveExternalPluginIds collate h = [] \<longleftrightarrow>
     (\<forall>r\<in>set (map_values (runtime h)). isActive r \<longrightarrow> \<not> isExternalPluginManifestEntry (pm_entry (rt_manifest r)))"
  by (auto simp: getActiveExternalPluginIds_def filter_empty_conv)

lemma restricted_helper:
  assumes inv: "host_inv h" and ok: "loadEnabledPlugins collate community major h = (h', None)"
    and off: "community \<noteq> Some True"
  shows "getActiveExternalPluginIds collate h' = []"
proof -
  let ?defs = "sort_key (\<lambda>d. collate (pm_id (manifest d))) (map_values (definitions h))"
  have run: "load_defs major False (readPersistedState (h_prefs h)) ?defs h = (h', None)"
    using ok off by (cases community) (simp_all add: loadEnabledPlugins_def or_default_def)
  have inv': "host_inv h'" using inv_load_defs [OF inv] run by (metis fst_conv)
  have defs: "definitions h' = definitions h" using load_defs_definitions run by (metis fst_conv)
  have "\<not> isExternalPluginManifestEntry (pm_entry (rt_manifest r))"
    if r: "r \<in> set (map_values (runtime h'))" "isActive r" for r
  proof -
    from r(1) obtain k where "(k, r) \<in> set (runtime h')" by (auto simp: map_values_def)
    then have k: "map_get (runtime h') k = Some r" using inv' by (simp add: host_inv_def books_ok_def wf_map_def)
    then obtain d where d: "map_get (definitions h) k = Some d" "rt_manifest r = manifest d" "pm_id (manifest d) = k"
      using inv' defs books_def [of h' k r] books_id [of h' k] by (auto simp: host_inv_def)
    then have "d \<in> set ?defs" by (force simp: map_values_def dest: map_of_SomeD)
    moreover have "active h' k" using k r(2) by (auto simp: active_def)
    ultimately obtain d' where d': "d' \<in> set ?defs" "pm_id (manifest d') = k"
        "\<not> isExternalPluginManifestEntry (pm_entry (manifest d'))"
      using load_defs_active [OF inv, of major "readPersistedState (h_prefs h)" ?defs k] run d(3) by auto
    from d'(1) obtain k' where "(k', d') \<in> set (definitions h)" by (auto simp: map_values_def)
    then have "map_get (definitions h) k' = Some d'" using inv by (simp add: host_inv_def books_ok_def wf_map_def)
    with d' inv d(1) books_id [of h k' d'] have "d' = d" by (simp add: host_inv_def)
    with d' d(2) show ?thesis by simp
  qed
  then show ?thesis by (simp add: active_external)
qed

section \<open>The persisted state\<close>

lemma bool_entries_map [simp]: "bool_entries (map (\<lambda>(k, b). (k, JBool b)) m) = m"
  by (induction m) auto

lemma read_write:
  assumes "wf_map (or_default (plugin_state_entry p) [])"
  shows "readPersistedState (snd (writePersistedState True enabled p)) = enabled"
proof -
  let ?m = "map_set PLUGIN_STATE_ENABLED_KEY (JObj (map (\<lambda>(k, b). (k, JBool b)) enabled)) (or_default (plugin_state_entry p) [])"
  have "plugin_state_entry (snd (writePersistedState True enabled p)) =
      Some (assign (or_default (plugin_state_entry p) []) ?m)"
    by (cases "overrides p"; cases "Option.bind (overrides p) p_plugins")
       (simp_all add: writePersistedState_def saveOverrides_def Let_def merge_overrides_def plugin_state_entry_def
        bind_non_empty merge_plugin_overrides_def get_set or_default_def empty_prefs_def)
  moreover have "map_get (assign (or_default (plugin_state_entry p) []) ?m) PLUGIN_STATE_ENABLED_KEY =
      Some (JObj (map (\<lambda>(k, b). (k, JBool b)) enabled))"
    using assms by (simp add: get_assign get_set)
  ultimately show ?thesis by (simp add: readPersistedState_def)
qed

lemma prefs_setRuntime_unload [simp]: "h_prefs (fst (unloadPlugin pid h)) = h_prefs h"
proof (cases "map_get (cleanups h) pid")
  case None
  then show ?thesis using core_fields(5) [OF cleanup_core, of pid h] by (simp add: unloadPlugin_def)
next
  case (Some c)
  obtain h1 e where r: "run_cleanup pid c h = (h1, e)" by (cases "run_cleanup pid c h")
  from core_fields(5) [OF run_cleanup_facts(1) [OF r]] Some r show ?thesis
    by (cases e) (simp_all add: unloadPlugin_def)
qed

section \<open>Properties\<close>

text \<open>C3. Capabilities hold for good: after any sequence of registering, loading, unloading, enabling, disabling,
  start-up and recovery, whatever a plugin still contributes to any registry is of a kind that the capabilities it
  was loaded with include, and every plugin marked active has a cleanup to run.\<close>

theorem capabilities_confine:
  assumes "h = fold host_run ops (empty_host p)"
  shows "(contributes c h pid \<longrightarrow> (\<exists>caps cl. map_get (cleanups h) pid = Some (caps, cl) \<and> c \<in> set caps)) \<and>
    (active h pid \<longrightarrow> map_has (cleanups h) pid)"
  using inv_history [of ops p] unfolding assms host_inv_def covered_def books_ok_def by blast

text \<open>C7. Restricted Mode: when community plugins are not enabled, or the setting cannot be read, and no
  plugin's cleanup throws, no external plugin is active once the start-up has run, whatever happened before.\<close>

theorem restricted_mode:
  assumes "loadEnabledPlugins collate community major (fold host_run ops (empty_host p)) = (h', None)"
    "community \<noteq> Some True"
  shows "getActiveExternalPluginIds collate h' = []"
  by (rule restricted_helper [OF inv_history assms])


text \<open>Disabling is remembered: when the preference write succeeds the stored state says the plugin is off,
  and every other plugin's stored state is unchanged; when it fails nothing is unloaded and an error is raised.\<close>

theorem disable_persists:
  assumes "wf_map (or_default (plugin_state_entry (h_prefs h)) [])"
  shows "map_get (readPersistedState (h_prefs (fst (disablePlugin True pid h)))) k =
      (if k = pid then Some False else map_get (readPersistedState (h_prefs h)) k) \<and>
    disablePlugin False pid h = (h, Some ''save failed'')"
proof -
  obtain p where w: "writePersistedState True (map_set pid False (readPersistedState (h_prefs h))) (h_prefs h) = (True, p)"
    by (simp add: writePersistedState_def saveOverrides_def Let_def)
  with read_write [OF assms, of "map_set pid False (readPersistedState (h_prefs h))"]
  have "readPersistedState p = map_set pid False (readPersistedState (h_prefs h))" by simp
  with w show ?thesis
    by (simp add: disablePlugin_def Let_def get_set writePersistedState_def [of False] saveOverrides_def)
qed

text \<open>A plugin whose own cleanup throws: the unload raises its error, and everything the plugin contributed
  is gone, yet its cleanup stays registered, it keeps its active mark, and loading it again does nothing.\<close>

theorem throwing_cleanup:
  assumes "map_get (cleanups h) pid = Some (caps, Some code)" "run_code pid caps code h = (h1, Some e)"
  shows "snd (unloadPlugin pid h) = Some e \<and> \<not> contributes c (fst (unloadPlugin pid h)) pid \<and>
    active (fst (unloadPlugin pid h)) pid = active h pid \<and>
    loadPlugin major pid (fst (unloadPlugin pid h)) = fst (unloadPlugin pid h)"
proof -
  have core: "host_core (cleanupPluginContributions pid h1) = host_core h"
    using run_code_core [of pid caps code h] assms(2) by simp
  then have "map_has (cleanups (cleanupPluginContributions pid h1)) pid"
    using core_fields(2) [OF core] assms(1) by (simp add: map_has_def)
  then have "loadPlugin major pid (cleanupPluginContributions pid h1) = cleanupPluginContributions pid h1"
    by (simp add: loadPlugin_def split: option.split)
  with active_core [OF core] assms show ?thesis by (simp add: unloadPlugin_def run_cleanup_def)
qed

section \<open>Examples\<close>

text \<open>An external plugin that contributes one editor extension; \<open>cl\<close> is the cleanup its setup returns.\<close>

definition sample_plugin :: "plugin_code option \<Rightarrow> plugin_definition" where
  "sample_plugin cl = \<lparr> manifest = \<lparr> pm_id = ''demo'', pm_name = ''Demo'', pm_version = ''0.1'', pm_apiVersion = ''1.0'',
       pm_entry = ''main.js'', pm_capabilities = [Cap_editorExtensions], pm_description = None, pm_author = None,
       pm_homepage = None \<rparr>,
     setup_fn = (([RegisterEditorExtensions [''bold'']], None), cl) \<rparr>"

definition sample_ops :: "plugin_code option \<Rightarrow> host_op list" where
  "sample_ops cl = [Register (sample_plugin cl), Load (Inr 1) ''demo'']"

definition sample_host :: "plugin_code option \<Rightarrow> plugin_host" where
  "sample_host cl = fold host_run (sample_ops cl) (empty_host \<lparr> overrides = None, isLoading = False \<rparr>)"

lemma sample_compatible: "isAPIVersionCompatible ''1.0'' 1"
  by code_simp

lemma sample_external: "isExternalPluginManifestEntry ''main.js''"
  by code_simp

lemmas sample_defs = sample_host_def sample_ops_def sample_plugin_def empty_host_def registerPlugin_def Let_def loadPlugin_def
  resolveSupportedPluginAPIMajor_def run_code_def setRuntime_def registry_updates empty_registry_def map_has_def
  sample_compatible

lemma sample_host_facts:
  "map_get (cleanups (sample_host cl)) ''demo'' = Some ([Cap_editorExtensions], cl)"
  "contributes Cap_editorExtensions (sample_host cl) ''demo''"
  "active (sample_host cl) ''demo''"
  "getActiveExternalPluginIds (\<lambda>_. 0) (sample_host cl) = [''demo'']"
  by (simp_all add: sample_defs active_def getActiveExternalPluginIds_def map_values_def sample_external)

theorem capabilities_confine_witness:
  "\<exists>caps cl. map_get (cleanups (sample_host None)) ''demo'' = Some (caps, cl) \<and> Cap_editorExtensions \<in> set caps"
  using capabilities_confine [OF sample_host_def [of None], of Cap_editorExtensions "''demo''"] sample_host_facts(2) [of None]
  by simp

lemma sample_definitions: "map_values (definitions (sample_host None)) = [sample_plugin None]"
  by (simp add: sample_defs map_values_def)

lemma sample_start: "snd (loadEnabledPlugins (\<lambda>_. 0) None (Inr 1) (sample_host None)) = None"
  unfolding loadEnabledPlugins_def sample_definitions
  by (simp add: sample_plugin_def sample_external or_default_def unloadPlugin_def run_cleanup_def sample_host_facts(1)
      Let_def)

theorem restricted_mode_witness:
  "getActiveExternalPluginIds (\<lambda>_. 0) (sample_host None) = [''demo''] \<and>
    getActiveExternalPluginIds (\<lambda>_. 0) (fst (loadEnabledPlugins (\<lambda>_. 0) None (Inr 1) (sample_host None))) = []"
  using restricted_mode [of "\<lambda>_. 0" None "Inr 1" "sample_ops None" "\<lparr> overrides = None, isLoading = False \<rparr>"
      "fst (loadEnabledPlugins (\<lambda>_. 0) None (Inr 1) (sample_host None))"] sample_start sample_host_facts(4) [of None]
  by (simp add: prod_eq_iff flip: sample_host_def)


theorem disable_persists_witness:
  "map_get (readPersistedState (h_prefs (fst (disablePlugin True ''demo'' (sample_host None))))) ''demo'' = Some False"
  using disable_persists [of "sample_host None" "''demo''" "''demo''"]
  by (simp add: sample_defs plugin_state_entry_def or_default_def)

theorem throwing_cleanup_witness:
  "active (fst (unloadPlugin ''demo'' (sample_host (Some ([], Some ''boom''))))) ''demo'' \<and>
    \<not> contributes Cap_editorExtensions (fst (unloadPlugin ''demo'' (sample_host (Some ([], Some ''boom''))))) ''demo''"
  using throwing_cleanup [OF sample_host_facts(1) [of "Some ([], Some ''boom'')"],
      of "sample_host (Some ([], Some ''boom''))" "''boom''"] sample_host_facts(3) [of "Some ([], Some ''boom'')"]
  by (simp add: run_code_def)

end
