(* ===== verification/Hotkeys.thy ===== *)
theory Hotkeys
  imports JS_Text Shortcuts
begin

text \<open>
  Keyboard dispatch: \<open>hotkeys/utils/hotkeyMatcher.ts\<close>, \<open>hotkeys/context/useHotkeyProviderValue.ts\<close>,
  \<open>hotkeys/hooks/useHotkey.ts\<close> and the dialog counter of \<open>shared/stores/dialog.store.ts\<close>.
  What a handler does is not part of these files: a handler is a name, and \<open>declines\<close> says for which
  handlers the call returns \<open>false\<close>.  \<open>mac\<close> is \<open>isMacPlatform()\<close>.  Each listener is modelled as
  the list of the handlers it calls, in order, and whether it prevents the default action.
\<close>

section \<open>Events and targets\<close>

record event_target =
  tagName :: string
  role :: "string option"
  type_attr :: "string option"
  contenteditable_attr :: "string option"
  isContentEditable :: bool
  closest_editable :: bool
  closest_excalidraw :: bool

record keyboard_event =
  ev_key :: string
  ctrlKey :: bool
  metaKey :: bool
  altKey :: bool
  shiftKey :: bool
  ev_target :: "event_target option"

definition SPECIAL_KEY_SET :: "string list" where
  "SPECIAL_KEY_SET = [''?'', '':'', ''shift+;'', ''shift+/'']"

definition NON_TEXT_INPUT_TYPES :: "string list" where
  "NON_TEXT_INPUT_TYPES = [''checkbox'', ''radio'', ''button'', ''submit'', ''image'', ''reset'']"

record target_classification =
  inInputField :: bool
  isInteractiveElement :: bool

definition classifyEventTarget :: "event_target option \<Rightarrow> target_classification" where
  "classifyEventTarget target =
     (case target of
        None \<Rightarrow> \<lparr> inInputField = False, isInteractiveElement = False \<rparr>
      | Some el \<Rightarrow>
          let tag = tagName el;
              inputType = (case type_attr el of Some t \<Rightarrow> toLowerCase t | None \<Rightarrow> []);
              isNonTextInput = (tag = ''INPUT'' \<and> inputType \<in> set NON_TEXT_INPUT_TYPES);
              isEditable = (isContentEditable el \<or> closest_editable el)
          in \<lparr> inInputField = ((tag = ''INPUT'' \<and> \<not> isNonTextInput) \<or> tag = ''TEXTAREA'' \<or> isEditable),
               isInteractiveElement = (tag = ''BUTTON'' \<or> tag = ''A'' \<or> isNonTextInput \<or> role el = Some ''button'' \<or>
                 role el = Some ''link'' \<or> role el = Some ''checkbox'' \<or> role el = Some ''radio'') \<rparr>)"

definition isHotkeyEligibleForTarget :: "keyboard_event \<Rightarrow> event_target option \<Rightarrow> bool option \<Rightarrow> bool" where
  "isHotkeyEligibleForTarget event target allowInInput =
     (if allowInInput = Some True then True
      else
        let c = classifyEventTarget target;
            hasModifier = (ctrlKey event \<or> metaKey event \<or> altKey event)
        in if inInputField c then False
           else if isInteractiveElement c \<and> \<not> hasModifier \<and> ev_key event \<noteq> ''Escape'' then False
           else True)"

section \<open>Combos\<close>

record combo =
  requireKey :: "string option"
  requireCtrl :: bool
  requireMeta :: bool
  requireAlt :: bool
  requireShift :: bool

definition combo_part :: "bool \<Rightarrow> string \<Rightarrow> combo \<Rightarrow> combo" where
  "combo_part mac part c =
     (if part = ''mod'' then (if mac then c\<lparr>requireMeta := True\<rparr> else c\<lparr>requireCtrl := True\<rparr>)
      else if part = ''ctrl'' \<or> part = ''control'' then c\<lparr>requireCtrl := True\<rparr>
      else if part = ''cmd'' \<or> part = ''command'' \<or> part = ''meta'' then c\<lparr>requireMeta := True\<rparr>
      else if part = ''alt'' \<or> part = ''option'' then c\<lparr>requireAlt := True\<rparr>
      else if part = ''shift'' then c\<lparr>requireShift := True\<rparr>
      else c\<lparr>requireKey := Some part\<rparr>)"

definition combo_parts :: "string \<Rightarrow> string list" where
  "combo_parts s = filter (\<lambda>p. p \<noteq> []) (map (\<lambda>part. toLowerCase (trim part)) (split_char (CHR ''+'') s))"

definition parse_combo :: "bool \<Rightarrow> string \<Rightarrow> combo" where
  "parse_combo mac s =
     (let c = fold (combo_part mac) (combo_parts s)
            \<lparr> requireKey = None, requireCtrl = False, requireMeta = False, requireAlt = False, requireShift = False \<rparr>
      in if requireKey c = Some ''space'' then c\<lparr>requireKey := Some '' ''\<rparr> else c)"

definition backslash :: string where
  "backslash = [CHR 0x5C]"

definition createHotkeyMatcher :: "bool \<Rightarrow> string \<Rightarrow> keyboard_event \<Rightarrow> bool" where
  "createHotkeyMatcher mac s event =
     (let c = parse_combo mac s; k = toLowerCase (ev_key event) in
      (case requireKey c of
         None \<Rightarrow> True
       | Some rk \<Rightarrow> if rk = backslash \<and> requireShift c then k = ''|'' else k = rk) \<and>
      ctrlKey event = requireCtrl c \<and> metaKey event = requireMeta c \<and>
      altKey event = requireAlt c \<and> shiftKey event = requireShift c)"

section \<open>The registered hotkeys\<close>

record hotkey_config =
  hk_key :: string
  hk_handler :: string
  allowInInput :: "bool option"
  hk_description :: "string option"
  hk_category :: "string option"
  hk_priority :: "int option"
  hk_capture :: "bool option"

record registered_hotkey = hotkey_config +
  hk_id :: string

record hotkey_registry =
  hotkeys :: "(string, registered_hotkey) jsmap"
  nextIdRef :: nat

definition hotkey_id :: "nat \<Rightarrow> string" where
  "hotkey_id n = ''hotkey-'' @ nat_str n"

definition with_id :: "string \<Rightarrow> hotkey_config \<Rightarrow> registered_hotkey" where
  "with_id i c = hotkey_config.extend c \<lparr> hk_id = i \<rparr>"

definition register_hotkey :: "hotkey_config \<Rightarrow> hotkey_registry \<Rightarrow> string \<times> hotkey_registry" where
  "register_hotkey config r =
     (let i = hotkey_id (nextIdRef r)
      in (i, r\<lparr>hotkeys := map_set i (with_id i config) (hotkeys r), nextIdRef := nextIdRef r + 1\<rparr>))"

definition unregister_hotkey :: "string \<Rightarrow> hotkey_registry \<Rightarrow> hotkey_registry" where
  "unregister_hotkey i r = r\<lparr>hotkeys := map_delete i (hotkeys r)\<rparr>"

definition getRegisteredHotkeys :: "hotkey_registry \<Rightarrow> registered_hotkey list" where
  "getRegisteredHotkeys r = map_values (hotkeys r)"

section \<open>Listeners\<close>

definition prio :: "registered_hotkey \<Rightarrow> int" where
  "prio h = (case hk_priority h of Some p \<Rightarrow> p | None \<Rightarrow> 0)"

definition is_special :: "registered_hotkey \<Rightarrow> bool" where
  "is_special h \<longleftrightarrow> hk_key h \<in> set SPECIAL_KEY_SET"

text \<open>The maps from combo to hotkeys, in insertion order; hotkeys with a special key are kept apart.\<close>

definition group_by_key :: "registered_hotkey list \<Rightarrow> (string, registered_hotkey list) jsmap" where
  "group_by_key hs =
     fold (\<lambda>h m. map_set (hk_key h) ((case map_get m (hk_key h) of Some l \<Rightarrow> l | None \<Rightarrow> []) @ [h]) m) hs []"

definition captureMap :: "hotkey_registry \<Rightarrow> (string, registered_hotkey list) jsmap" where
  "captureMap r = group_by_key (filter (\<lambda>h. \<not> is_special h \<and> hk_capture h = Some True) (getRegisteredHotkeys r))"

definition bubbleMap :: "hotkey_registry \<Rightarrow> (string, registered_hotkey list) jsmap" where
  "bubbleMap r = group_by_key (filter (\<lambda>h. \<not> is_special h \<and> hk_capture h \<noteq> Some True) (getRegisteredHotkeys r))"

definition specialCharHotkeys :: "hotkey_registry \<Rightarrow> registered_hotkey list" where
  "specialCharHotkeys r = filter is_special (getRegisteredHotkeys r)"

definition bubbleMatchersAndHandlers :: "hotkey_registry \<Rightarrow> (string \<times> registered_hotkey list) list" where
  "bubbleMatchersAndHandlers r = map (\<lambda>(k, handlers). (k, sort_desc prio handlers)) (bubbleMap r)"

definition captureHotkeysWithMatchers :: "hotkey_registry \<Rightarrow> registered_hotkey list" where
  "captureHotkeysWithMatchers r = sort_desc prio (concat (map snd (captureMap r)))"

text \<open>The loop the listeners share: skip what may not run, call the others until one does not decline.
  The result is the handlers called and whether the last one consumed the key.\<close>

fun call_until_consumed ::
  "(registered_hotkey \<Rightarrow> bool) \<Rightarrow> (registered_hotkey \<Rightarrow> bool) \<Rightarrow> registered_hotkey list \<Rightarrow> registered_hotkey list \<times> bool" where
  "call_until_consumed may declines [] = ([], False)"
| "call_until_consumed may declines (h # hs) =
     (if \<not> may h then call_until_consumed may declines hs
      else if declines h then (case call_until_consumed may declines hs of (calls, consumed) \<Rightarrow> (h # calls, consumed))
      else ([h], True))"

definition eligible :: "keyboard_event \<Rightarrow> registered_hotkey \<Rightarrow> bool" where
  "eligible event h = isHotkeyEligibleForTarget event (ev_target event) (allowInInput h)"

text \<open>The bubble listener: the first combo that matches decides.  While a dialog is open it is not installed.
  The Boolean says whether the default action is prevented.\<close>

definition handleBubble ::
  "bool \<Rightarrow> (registered_hotkey \<Rightarrow> bool) \<Rightarrow> int \<Rightarrow> hotkey_registry \<Rightarrow> keyboard_event \<Rightarrow> registered_hotkey list \<times> bool" where
  "handleBubble mac declines openCount r event =
     (if openCount > 0 then ([], False)
      else
        (case List.find (\<lambda>(k, _). createHotkeyMatcher mac k event) (bubbleMatchersAndHandlers r) of
           None \<Rightarrow> ([], False)
         | Some (_, sortedHandlers) \<Rightarrow> call_until_consumed (eligible event) declines sortedHandlers))"

definition handleCapture ::
  "bool \<Rightarrow> (registered_hotkey \<Rightarrow> bool) \<Rightarrow> int \<Rightarrow> hotkey_registry \<Rightarrow> keyboard_event \<Rightarrow> registered_hotkey list" where
  "handleCapture mac declines openCount r event =
     (if openCount > 0 then []
      else fst (call_until_consumed (\<lambda>h. createHotkeyMatcher mac (hk_key h) event \<and> eligible event h) declines
        (captureHotkeysWithMatchers r)))"

definition plain_input_field :: "event_target option \<Rightarrow> bool" where
  "plain_input_field t =
     (case t of None \<Rightarrow> False
      | Some el \<Rightarrow> tagName el = ''INPUT'' \<or> tagName el = ''TEXTAREA'' \<or> contenteditable_attr el = Some ''true'')"

definition special_matches :: "registered_hotkey \<Rightarrow> keyboard_event \<Rightarrow> bool" where
  "special_matches h event \<longleftrightarrow>
     (hk_key h = ''?'' \<and> ev_key event = ''?'') \<or> (hk_key h = '':'' \<and> ev_key event = '':'') \<or>
     (hk_key h = ''shift+;'' \<and> ev_key event = '':'' \<and> shiftKey event) \<or>
     (hk_key h = ''shift+/'' \<and> ev_key event = ''?'' \<and> shiftKey event)"

definition handleSpecialChars :: "int \<Rightarrow> hotkey_registry \<Rightarrow> keyboard_event \<Rightarrow> registered_hotkey option" where
  "handleSpecialChars openCount r event =
     (if openCount > 0 then None
      else List.find (\<lambda>h. hk_capture h \<noteq> Some True \<and> special_matches h event \<and>
             \<not> (plain_input_field (ev_target event) \<and> allowInInput h \<noteq> Some True)) (specialCharHotkeys r))"

text \<open>Whether the default action of Space is prevented.\<close>

definition handleSpaceKey :: "int \<Rightarrow> keyboard_event \<Rightarrow> bool" where
  "handleSpaceKey openCount event =
     (let t = ev_target event;
          interactive = (case t of None \<Rightarrow> False
            | Some el \<Rightarrow> tagName el = ''BUTTON'' \<or> tagName el = ''A'' \<or> role el = Some ''button'' \<or> role el = Some ''checkbox'')
      in if (case t of None \<Rightarrow> False | Some el \<Rightarrow> closest_excalidraw el) then False
         else if openCount > 0 then False
         else ev_key event = '' '' \<and> \<not> plain_input_field t \<and> \<not> interactive)"

text \<open>Ctrl+W in an input or a text area: the new value and cursor, and whether the default is prevented.
  \<open>last_word\<close> is the length of the match of \<open>/\S+\s*$/\<close>.\<close>

record text_input =
  in_value :: string
  selectionStart :: "nat option"

definition last_word :: "string \<Rightarrow> nat option" where
  "last_word s =
     (let rest = dropWhile is_space (rev s) in
      if rest = [] then None
      else Some (length (takeWhile is_space (rev s)) + length (takeWhile (\<lambda>c. \<not> is_space c) rest)))"

definition handleCtrlW :: "int \<Rightarrow> keyboard_event \<Rightarrow> text_input \<Rightarrow> text_input \<times> bool" where
  "handleCtrlW openCount event input =
     (let inField = (case ev_target event of None \<Rightarrow> False | Some el \<Rightarrow> tagName el = ''INPUT'' \<or> tagName el = ''TEXTAREA'')
      in if openCount > 0 then (input, False)
         else if inField \<and> ctrlKey event \<and> ev_key event = ''w'' then
           let cursorPos = (case selectionStart input of Some p \<Rightarrow> p | None \<Rightarrow> 0) in
           if cursorPos = 0 then (input, True)
           else
             let textBeforeCursor = take cursorPos (in_value input) in
             (case last_word textBeforeCursor of
                None \<Rightarrow> (input, True)
              | Some deleteLength \<Rightarrow>
                  let kept = take (length textBeforeCursor - deleteLength) textBeforeCursor
                  in (\<lparr> in_value = kept @ drop cursorPos (in_value input),
                        selectionStart = Some (length textBeforeCursor - deleteLength) \<rparr>, True))
         else (input, False))"

section \<open>The help hotkey\<close>

definition useHelpHotkey :: hotkey_config where
  "useHelpHotkey = \<lparr> hk_key = ''shift+/'', hk_handler = ''openHelp'', allowInInput = Some False,
     hk_description = Some ''Toggle help'', hk_category = None, hk_priority = None, hk_capture = Some True \<rparr>"

section \<open>The dialog counter\<close>

definition openDialog :: "int \<Rightarrow> int" where
  "openDialog n = n + 1"

definition closeDialog :: "int \<Rightarrow> int" where
  "closeDialog n = max 0 (n - 1)"

section \<open>The hooks\<close>

text \<open>\<open>useHotkey\<close>: the state is the registry and \<open>hotkeyIdRef\<close>; \<open>useHotkeys\<close> keeps a list.  An effect runs on mount
  and, after the previous cleanup, whenever its dependencies change; the cleanup also runs on unmount.\<close>

definition useHotkey_effect :: "hotkey_config \<Rightarrow> hotkey_registry \<times> string option \<Rightarrow> hotkey_registry \<times> string option" where
  "useHotkey_effect config s =
     (let r = (case snd s of Some i \<Rightarrow> unregister_hotkey i (fst s) | None \<Rightarrow> fst s);
          (i, r') = register_hotkey config r
      in (r', Some i))"

definition useHotkey_cleanup :: "hotkey_registry \<times> string option \<Rightarrow> hotkey_registry \<times> string option" where
  "useHotkey_cleanup s = (case snd s of Some i \<Rightarrow> (unregister_hotkey i (fst s), snd s) | None \<Rightarrow> s)"

fun register_all :: "hotkey_config list \<Rightarrow> hotkey_registry \<Rightarrow> string list \<times> hotkey_registry" where
  "register_all [] r = ([], r)"
| "register_all (c # cs) r =
     (let (i, r1) = register_hotkey c r; (is, r2) = register_all cs r1 in (i # is, r2))"

definition useHotkeys_effect :: "hotkey_config list \<Rightarrow> hotkey_registry \<times> string list \<Rightarrow> hotkey_registry \<times> string list" where
  "useHotkeys_effect configs s =
     (let (is, r) = register_all configs (fold unregister_hotkey (snd s) (fst s)) in (r, is))"

definition useHotkeys_cleanup :: "hotkey_registry \<times> string list \<Rightarrow> hotkey_registry \<times> string list" where
  "useHotkeys_cleanup s = (fold unregister_hotkey (snd s) (fst s), snd s)"

section \<open>Lemmas on combos\<close>

definition MODIFIERS :: "string list" where
  "MODIFIERS = [''mod'', ''ctrl'', ''control'', ''cmd'', ''command'', ''meta'', ''alt'', ''option'', ''shift'']"

definition ctrl_names :: "bool \<Rightarrow> string set" where
  "ctrl_names mac = {''ctrl'', ''control''} \<union> (if mac then {} else {''mod''})"

definition meta_names :: "bool \<Rightarrow> string set" where
  "meta_names mac = {''cmd'', ''command'', ''meta''} \<union> (if mac then {''mod''} else {})"

text \<open>The key of a combo: its last part that is no modifier.\<close>

definition combo_key :: "string list \<Rightarrow> string option" where
  "combo_key ps = (case filter (\<lambda>p. p \<notin> set MODIFIERS) ps of [] \<Rightarrow> None | ks \<Rightarrow> Some (last ks))"

lemma fold_combo_part:
  "fold (combo_part mac) ps c =
     \<lparr> requireKey = (case combo_key ps of None \<Rightarrow> requireKey c | Some k \<Rightarrow> Some k),
       requireCtrl = (requireCtrl c \<or> set ps \<inter> ctrl_names mac \<noteq> {}),
       requireMeta = (requireMeta c \<or> set ps \<inter> meta_names mac \<noteq> {}),
       requireAlt = (requireAlt c \<or> set ps \<inter> {''alt'', ''option''} \<noteq> {}),
       requireShift = (requireShift c \<or> ''shift'' \<in> set ps) \<rparr>"
proof (induction ps arbitrary: c)
  case (Cons p ps)
  show ?case
    unfolding fold_simps o_apply Cons.IH
    by (cases mac) (auto simp: combo_part_def combo_key_def MODIFIERS_def ctrl_names_def meta_names_def split: list.split)
qed (simp add: combo_key_def)

lemmas parse_combo_eq = parse_combo_def [unfolded fold_combo_part Let_def, simplified]

section \<open>Lemmas on the listeners\<close>

lemma call_until_consumed_eq:
  "call_until_consumed may declines hs =
     (let es = filter may hs in (takeWhile declines es @ take 1 (dropWhile declines es), dropWhile declines es \<noteq> []))"
  by (induction hs) (simp_all add: Let_def)

lemma called_subset: "h \<in> set (fst (call_until_consumed may declines hs)) \<Longrightarrow> h \<in> set hs \<and> may h"
  by (induction hs) (auto split: if_splits prod.splits)

lemma group_step:
  assumes "wf_map m" "\<forall>(k, l)\<in>set m. \<forall>x\<in>set l. hk_key x = k"
  shows "(\<forall>(k, l)\<in>set (map_set (hk_key h) ((case map_get m (hk_key h) of Some l \<Rightarrow> l | None \<Rightarrow> []) @ [h]) m). \<forall>x\<in>set l. hk_key x = k)
    \<and> mset (concat (map snd (map_set (hk_key h) ((case map_get m (hk_key h) of Some l \<Rightarrow> l | None \<Rightarrow> []) @ [h]) m))) =
      mset (concat (map snd m)) + {#h#}"
  using assms
proof (induction m)
  case (Cons p m)
  obtain k l where p: "p = (k, l)" by (cases p)
  show ?case
  proof (cases "k = hk_key h")
    case True
    with Cons.prems p show ?thesis by auto
  next
    case False
    with Cons p show ?thesis by (auto simp: wf_map_def)
  qed
qed simp

lemma group_by_key_inv:
  assumes "wf_map m" "\<forall>(k, l)\<in>set m. \<forall>x\<in>set l. hk_key x = k"
  shows "let m' = fold (\<lambda>h m. map_set (hk_key h) ((case map_get m (hk_key h) of Some l \<Rightarrow> l | None \<Rightarrow> []) @ [h]) m) hs m
    in (\<forall>(k, l)\<in>set m'. \<forall>x\<in>set l. hk_key x = k) \<and> mset (concat (map snd m')) = mset (concat (map snd m)) + mset hs"
  using assms
proof (induction hs arbitrary: m)
  case (Cons h hs)
  let ?m = "map_set (hk_key h) ((case map_get m (hk_key h) of Some l \<Rightarrow> l | None \<Rightarrow> []) @ [h]) m"
  from group_step [OF Cons.prems, of h] Cons.IH [of ?m] Cons.prems(1) show ?case by (simp add: Let_def)
qed simp

lemma group_by_key_keys: "(k, l) \<in> set (group_by_key hs) \<Longrightarrow> x \<in> set l \<Longrightarrow> hk_key x = k"
  using group_by_key_inv [of "[]" hs] by (auto simp: group_by_key_def Let_def)

lemma group_by_key_mset: "mset (concat (map snd (group_by_key hs))) = mset hs"
  using group_by_key_inv [of "[]" hs] by (simp add: group_by_key_def Let_def)

lemma group_by_key_set: "(k, l) \<in> set (group_by_key hs) \<Longrightarrow> x \<in> set l \<Longrightarrow> x \<in> set hs"
  using mset_eq_setD [OF group_by_key_mset [of hs]] by force

lemma bubble_called:
  assumes "h \<in> set (fst (handleBubble mac declines n r event))"
  shows "n \<le> 0 \<and> h \<in> set (getRegisteredHotkeys r) \<and> createHotkeyMatcher mac (hk_key h) event \<and> eligible event h"
proof -
  from assms obtain k hs where f: "List.find (\<lambda>(k, _). createHotkeyMatcher mac k event) (bubbleMatchersAndHandlers r) = Some (k, hs)"
    and n: "n \<le> 0" and c: "h \<in> set (fst (call_until_consumed (eligible event) declines hs))"
    by (auto simp: handleBubble_def split: if_splits option.splits)
  from f have k: "createHotkeyMatcher mac k event" "(k, hs) \<in> set (bubbleMatchersAndHandlers r)"
    by (auto simp: find_Some_iff) (metis nth_mem)
  then obtain l where "(k, l) \<in> set (bubbleMap r)" "hs = sort_desc prio l" by (auto simp: bubbleMatchersAndHandlers_def)
  with called_subset [OF c] k(1) n show ?thesis
    using group_by_key_keys group_by_key_set unfolding bubbleMap_def by fastforce
qed

lemma special_not_bubble:
  assumes "h \<in> set (fst (handleBubble mac declines n r event))"
  shows "\<not> is_special h"
proof -
  from assms obtain k hs where f: "List.find (\<lambda>(k, _). createHotkeyMatcher mac k event) (bubbleMatchersAndHandlers r) = Some (k, hs)"
    and c: "h \<in> set (fst (call_until_consumed (eligible event) declines hs))"
    by (auto simp: handleBubble_def split: if_splits option.splits)
  from f have "(k, hs) \<in> set (bubbleMatchersAndHandlers r)"
    by (auto simp: find_Some_iff) (metis nth_mem)
  then obtain l where "(k, l) \<in> set (bubbleMap r)" "hs = sort_desc prio l" by (auto simp: bubbleMatchersAndHandlers_def)
  with called_subset [OF c] show ?thesis using group_by_key_set unfolding bubbleMap_def by fastforce
qed

lemma capture_called:
  assumes "h \<in> set (handleCapture mac declines n r event)"
  shows "n \<le> 0 \<and> h \<in> set (getRegisteredHotkeys r) \<and> createHotkeyMatcher mac (hk_key h) event \<and> eligible event h"
proof -
  from assms have n: "n \<le> 0" and c: "h \<in> set (fst (call_until_consumed
      (\<lambda>h. createHotkeyMatcher mac (hk_key h) event \<and> eligible event h) declines (captureHotkeysWithMatchers r)))"
    by (auto simp: handleCapture_def split: if_splits)
  have "set (captureHotkeysWithMatchers r) \<subseteq> set (getRegisteredHotkeys r)"
    using mset_eq_setD [OF group_by_key_mset] unfolding captureHotkeysWithMatchers_def captureMap_def set_sort_desc
    by (metis (no_types, lifting) filter_is_subset)
  with n called_subset [OF c] show ?thesis by blast
qed

section \<open>Lemmas on the hooks\<close>

text \<open>Registered ids come from the counter.\<close>

definition hk_ok :: "hotkey_registry \<Rightarrow> bool" where
  "hk_ok r \<longleftrightarrow> fst ` set (hotkeys r) \<subseteq> hotkey_id ` {..<nextIdRef r}"

lemma hotkey_id_inject [simp]: "hotkey_id m = hotkey_id n \<longleftrightarrow> m = n"
  by (simp add: hotkey_id_def nat_str_inject)

lemma fresh_id: "hk_ok r \<Longrightarrow> hotkey_id (nextIdRef r) \<notin> fst ` set (hotkeys r)"
  by (auto simp: hk_ok_def)

lemma register_fresh:
  assumes "hk_ok r"
  shows "register_hotkey c r = (hotkey_id (nextIdRef r),
    \<lparr> hotkeys = hotkeys r @ [(hotkey_id (nextIdRef r), with_id (hotkey_id (nextIdRef r)) c)], nextIdRef = nextIdRef r + 1 \<rparr>)"
  using set_fresh [OF fresh_id [OF assms]] by (simp add: register_hotkey_def Let_def)

lemma hk_ok_extend: "hk_ok r \<Longrightarrow> hk_ok \<lparr> hotkeys = hotkeys r @ [(hotkey_id (nextIdRef r), h)], nextIdRef = nextIdRef r + 1 \<rparr>"
  by (auto simp: hk_ok_def image_subset_iff lessThan_Suc)

lemma register_all_fresh:
  assumes "hk_ok r" "register_all cs r = (is, r')"
  shows "hk_ok r' \<and> is = map hotkey_id [nextIdRef r..<nextIdRef r + length cs] \<and> nextIdRef r' = nextIdRef r + length cs \<and>
    hotkeys r' = hotkeys r @ zip is (map2 with_id is cs)"
  using assms
proof (induction cs arbitrary: r "is" r')
  case (Cons c cs)
  let ?r = "\<lparr> hotkeys = hotkeys r @ [(hotkey_id (nextIdRef r), with_id (hotkey_id (nextIdRef r)) c)], nextIdRef = nextIdRef r + 1 \<rparr>"
  obtain js where js: "register_all cs ?r = (js, r')" "is = hotkey_id (nextIdRef r) # js"
    using Cons.prems by (auto simp: register_fresh split: prod.splits)
  have "[nextIdRef r..<nextIdRef r + length (c # cs)] = nextIdRef r # [nextIdRef r + 1..<nextIdRef r + 1 + length cs]"
    by (simp add: upt_conv_Cons del: upt_Suc)
  with Cons.IH [OF hk_ok_extend [OF Cons.prems(1)] js(1)] js(2) show ?case by (simp del: upt_Suc)
qed simp

lemma unregister_all: "hotkeys (fold unregister_hotkey is r) = filter (\<lambda>e. fst e \<notin> set is) (hotkeys r)"
  "nextIdRef (fold unregister_hotkey is r) = nextIdRef r"
  by (induction "is" arbitrary: r) (auto simp: unregister_hotkey_def AList.delete_eq case_prod_unfold intro: filter_cong)

lemma hk_ok_filter: "hk_ok r \<Longrightarrow> hotkeys r' = filter P (hotkeys r) \<Longrightarrow> nextIdRef r' = nextIdRef r \<Longrightarrow> hk_ok r'"
  by (auto simp: hk_ok_def)

text \<open>What holds between the effect and the next cleanup of a hook: the entries of its current configuration, and only
  those, have been added to the registry \<open>r\<close> it found.\<close>

definition hook_owns :: "hotkey_registry \<Rightarrow> hotkey_config list \<Rightarrow> hotkey_registry \<times> string list \<Rightarrow> bool" where
  "hook_owns r cs s \<longleftrightarrow> hk_ok (fst s) \<and> nextIdRef r \<le> nextIdRef (fst s) \<and>
     set (snd s) \<subseteq> hotkey_id ` {nextIdRef r..} \<and> length (snd s) = length cs \<and>
     hotkeys (fst s) = hotkeys r @ zip (snd s) (map2 with_id (snd s) cs)"

lemma drop_own:
  assumes "hk_ok r" "hook_owns r cs s"
  shows "filter (\<lambda>e. fst e \<notin> set (snd s)) (hotkeys (fst s)) = hotkeys r"
proof -
  have "fst e \<notin> set (snd s)" if "e \<in> set (hotkeys r)" for e
    using assms that by (force simp: hk_ok_def hook_owns_def)
  then have "filter (\<lambda>e. fst e \<notin> set (snd s)) (hotkeys r) = hotkeys r" by simp
  moreover have "filter (\<lambda>e. fst e \<notin> set (snd s)) (zip (snd s) ys) = []" for ys
    by (auto simp: filter_empty_conv dest: set_zip_leftD)
  ultimately show ?thesis using assms(2) by (simp add: hook_owns_def)
qed

lemma hook_effect:
  assumes "hk_ok r" "hk_ok r1" "hotkeys (fold unregister_hotkey is r1) = hotkeys r" "nextIdRef r \<le> nextIdRef r1"
  shows "hook_owns r cs (useHotkeys_effect cs (r1, is))"
proof -
  let ?r = "fold unregister_hotkey is r1"
  obtain js r2 where ra: "register_all cs ?r = (js, r2)" by (cases "register_all cs ?r")
  have "hk_ok ?r" using hk_ok_filter [OF assms(2) unregister_all] .
  from register_all_fresh [OF this ra] ra assms(3,4) unregister_all(2) [of "is" r1] show ?thesis
    by (auto simp: hook_owns_def useHotkeys_effect_def simp del: upt_Suc)
qed

lemma hook_rerender:
  assumes "hk_ok r" "hook_owns r cs s"
  shows "hook_owns r cs' (useHotkeys_effect cs' (useHotkeys_cleanup s))"
proof -
  obtain r1 "is" where s: "s = (r1, is)" by (cases s)
  let ?r = "fold unregister_hotkey is r1"
  have "hotkeys ?r = hotkeys r" using drop_own [OF assms] s by (simp add: unregister_all)
  moreover have "hk_ok ?r" using hk_ok_filter [OF _ unregister_all] assms(2) s by (simp add: hook_owns_def)
  moreover have "filter (\<lambda>e. fst e \<notin> set is) (hotkeys ?r) = hotkeys ?r" by (simp add: unregister_all)
  ultimately show ?thesis
    using assms s by (auto simp: useHotkeys_cleanup_def hook_owns_def [of r cs] unregister_all intro!: hook_effect)
qed

lemma hook_renders:
  assumes "hk_ok r" "hook_owns r c s"
  shows "hook_owns r (last (c # css)) (fold (\<lambda>cs s. useHotkeys_effect cs (useHotkeys_cleanup s)) css s)"
  using assms(2)
proof (induction css arbitrary: c s)
  case (Cons d css)
  from Cons.IH [OF hook_rerender [OF assms(1) Cons.prems]] show ?case by simp
qed simp

lemma truncate_with_id [simp]: "hotkey_config.truncate (with_id i c) = c"
  by (cases c) (simp add: with_id_def hotkey_config.defs)

lemma truncate_own: "length is = length cs \<Longrightarrow> map (\<lambda>e. hotkey_config.truncate (snd e)) (zip is (map2 with_id is cs)) = cs"
  by (induction "is" cs rule: list_induct2) simp_all

section \<open>Lemmas on words\<close>

lemma last_word_Some:
  assumes "last_word s = Some n"
  shows "\<exists>pre w sp. s = pre @ w @ sp \<and> n = length w + length sp \<and> w \<noteq> [] \<and> list_all (\<lambda>c. \<not> is_space c) w \<and>
    list_all is_space sp \<and> (pre = [] \<or> is_space (last pre))"
proof -
  let ?rest = "dropWhile is_space (rev s)"
  let ?w = "takeWhile (\<lambda>c. \<not> is_space c) ?rest"
  let ?pre = "dropWhile (\<lambda>c. \<not> is_space c) ?rest"
  from assms have ne: "?rest \<noteq> []" and n: "n = length (takeWhile is_space (rev s)) + length ?w"
    by (auto simp: last_word_def Let_def split: if_splits)
  have "rev s = takeWhile is_space (rev s) @ ?w @ ?pre" by simp
  then have "s = rev ?pre @ rev ?w @ rev (takeWhile is_space (rev s))" by (metis append_assoc rev_append rev_rev_ident)
  moreover have "?w \<noteq> []" using hd_dropWhile [OF ne] ne by (cases ?rest) auto
  moreover have "rev ?pre = [] \<or> is_space (last (rev ?pre))" using hd_dropWhile [of "\<lambda>c. \<not> is_space c" ?rest]
    by (auto simp: last_rev)
  moreover have "list_all (\<lambda>c. \<not> is_space c) (rev ?w)" "list_all is_space (rev (takeWhile is_space (rev s)))"
    by (auto simp: list_all_iff dest: set_takeWhileD)
  ultimately show ?thesis using n by (metis add.commute length_rev rev_is_Nil_conv)
qed

lemma last_word_None: "last_word s = None \<longleftrightarrow> list_all is_space s"
  by (auto simp: last_word_def Let_def list_all_iff)

section \<open>Lemmas on conflicts\<close>

text \<open>What a combo asks of an event: two combos that ask for different things never match the same event.\<close>

definition asks :: "bool \<Rightarrow> string \<Rightarrow> string option \<times> bool \<times> bool \<times> bool \<times> bool" where
  "asks mac s =
     (let c = parse_combo mac s in
      (if requireKey c = Some backslash \<and> requireShift c then Some ''|'' else requireKey c,
       requireCtrl c, requireMeta c, requireAlt c, requireShift c))"

lemma asks_unique:
  assumes "createHotkeyMatcher mac a event" "createHotkeyMatcher mac b event" "fst (asks mac a) \<noteq> None" "fst (asks mac b) \<noteq> None"
  shows "asks mac a = asks mac b"
  using assms by (auto simp: createHotkeyMatcher_def asks_def Let_def split: if_splits option.splits)

lemma distinct_asks:
  assumes "distinct (map (asks mac) ks)" "list_all (\<lambda>k. fst (asks mac k) \<noteq> None) ks" "a \<in> set ks" "b \<in> set ks"
    "createHotkeyMatcher mac a event" "createHotkeyMatcher mac b event"
  shows "a = b"
  using asks_unique [OF assms(5,6)] assms(1-4) by (auto simp: list_all_iff distinct_map inj_on_def)

definition document_page_keys :: "string list" where
  "document_page_keys = keys_of GLOBAL_SHORTCUTS @ keys_of SIDEBAR_SHORTCUTS @ keys_of PANE_SHORTCUTS @ keys_of DOCUMENT_SHORTCUTS"

lemma document_page_parts:
  "map combo_parts document_page_keys =
    [[''shift'', ''/''], [''ctrl'', ''q''], [''ctrl'', ''shift'', ''q''], [''mod'', ''k''],
     [''mod'', ''shift'', ''f''], [''mod'', ''t''], [''ctrl'', ''tab''], [''mod'', ''shift'', ''k''],
     [''alt'', ''arrowleft''], [''alt'', ''arrowright''], [''mod'', ''shift'', ''s''], [''ctrl'', ''b''],
     [''alt'', ''o''], [''mod'', [CHR 0x5C]], [''mod'', ''shift'', [CHR 0x5C]], [''alt'', ''x''], [''alt'', ''h''],
     [''alt'', ''j''], [''alt'', ''k''], [''alt'', ''l''], [''alt'', ''z''], [''mod'', ''s''], [''mod'', ''f''],
     [''mod'', ''h''], [''mod'', ''e''], [''mod'', ''shift'', ''e''], [''escape''], [''mod'', ''shift'', ''c''],
     [''enter''], [''ctrl'', ''d''], [''mod'', ''shift'', ''arrowup''], [''mod'', ''shift'', ''arrowdown''],
     [''mod'', ''shift'', ''d''], [''mod'', ''shift'', ''o'']]"
  by code_simp

definition asks_parts :: "bool \<Rightarrow> string list \<Rightarrow> string option \<times> bool \<times> bool \<times> bool \<times> bool" where
  "asks_parts mac ps =
     (let k = (if combo_key ps = Some ''space'' then Some '' '' else combo_key ps); sh = (''shift'' \<in> set ps) in
      (if k = Some backslash \<and> sh then Some ''|'' else k,
       list_ex (\<lambda>p. p \<in> ctrl_names mac) ps, list_ex (\<lambda>p. p \<in> meta_names mac) ps,
       list_ex (\<lambda>p. p \<in> {''alt'', ''option''}) ps, sh))"

lemma asks_eq: "asks mac s = asks_parts mac (combo_parts s)"
  by (auto simp: asks_def asks_parts_def parse_combo_eq Let_def list_ex_iff backslash_def split: option.split)

lemma document_page_asks:
  "distinct (map (asks mac) document_page_keys)" "list_all (\<lambda>k. fst (asks mac k) \<noteq> None) document_page_keys"
proof -
  have e: "map (asks mac) document_page_keys = map (asks_parts mac) (map combo_parts document_page_keys)"
    by (simp add: asks_eq)
  show "distinct (map (asks mac) document_page_keys)"
    unfolding e document_page_parts
    by (cases mac) (simp_all add: asks_parts_def combo_key_def MODIFIERS_def ctrl_names_def meta_names_def backslash_def)
  have "list_all (\<lambda>k. fst k \<noteq> None) (map (asks mac) document_page_keys)"
    unfolding e document_page_parts
    by (cases mac) (simp_all add: asks_parts_def combo_key_def MODIFIERS_def ctrl_names_def meta_names_def backslash_def)
  then show "list_all (\<lambda>k. fst (asks mac k) \<noteq> None) document_page_keys" by (simp add: list_all_iff)
qed

section \<open>Properties\<close>

text \<open>C10. The matcher does what a combo says: an event matches exactly when each of Ctrl, Meta, Alt and Shift is
  down if and only if one of its names (\<open>mod\<close> being Meta on a Mac and Ctrl elsewhere) is among the parts, in whatever
  order and case, and the key is the last other part, where \<open>space\<close> stands for a blank and a shifted backslash
  arrives as a bar.\<close>

theorem createHotkeyMatcher_correct:
  "createHotkeyMatcher mac s event \<longleftrightarrow>
     (ctrlKey event \<longleftrightarrow> set (combo_parts s) \<inter> ctrl_names mac \<noteq> {}) \<and>
     (metaKey event \<longleftrightarrow> set (combo_parts s) \<inter> meta_names mac \<noteq> {}) \<and>
     (altKey event \<longleftrightarrow> set (combo_parts s) \<inter> {''alt'', ''option''} \<noteq> {}) \<and>
     (shiftKey event \<longleftrightarrow> ''shift'' \<in> set (combo_parts s)) \<and>
     (case combo_key (combo_parts s) of
        None \<Rightarrow> True
      | Some k \<Rightarrow> toLowerCase (ev_key event) =
          (if k = ''space'' then '' '' else if k = backslash \<and> ''shift'' \<in> set (combo_parts s) then ''|'' else k))"
  by (cases "combo_key (combo_parts s)")
     (auto simp: createHotkeyMatcher_def parse_combo_eq Let_def backslash_def)


text \<open>Capture dispatch: the candidates are the matching, eligible capture hotkeys, each once and by falling
  priority; the listener calls them up to and including the first that does not decline.\<close>

theorem handleCapture_correct:
  "\<exists>es. mset es = mset (filter (\<lambda>h. \<not> is_special h \<and> hk_capture h = Some True \<and>
        createHotkeyMatcher mac (hk_key h) event \<and> eligible event h) (getRegisteredHotkeys r)) \<and>
    sorted_wrt (\<lambda>a b. prio b \<le> prio a) es \<and>
    handleCapture mac declines 0 r event = takeWhile declines es @ take 1 (dropWhile declines es)"
proof -
  let ?may = "\<lambda>h. createHotkeyMatcher mac (hk_key h) event \<and> eligible event h"
  let ?es = "filter ?may (captureHotkeysWithMatchers r)"
  have "mset ?es = mset (filter ?may (filter (\<lambda>h. \<not> is_special h \<and> hk_capture h = Some True) (getRegisteredHotkeys r)))"
    unfolding mset_filter captureHotkeysWithMatchers_def captureMap_def mset_sort_desc group_by_key_mset ..
  moreover have "sorted_wrt (\<lambda>a b. prio b \<le> prio a) ?es"
    unfolding captureHotkeysWithMatchers_def by (rule sorted_wrt_filter [OF sorted_sort_desc])
  ultimately show ?thesis
    by (intro exI [of _ ?es]) (simp add: handleCapture_def call_until_consumed_eq Let_def conj_ac)
qed

text \<open>The help hotkey cannot fire: its key is one of the special keys, so it is kept out of the capture and the
  bubble maps, and it asks for the capture phase, so the special-key listener skips it; no event ever calls it.\<close>

theorem help_hotkey_dead:
  "with_id i useHelpHotkey \<notin> set (handleCapture mac declines n r event) \<and>
    with_id i useHelpHotkey \<notin> set (fst (handleBubble mac declines n r event)) \<and>
    handleSpecialChars n r event \<noteq> Some (with_id i useHelpHotkey)"
proof -
  let ?h = "with_id i useHelpHotkey"
  have h: "is_special ?h" "hk_capture ?h = Some True"
    by (simp_all add: is_special_def SPECIAL_KEY_SET_def with_id_def useHelpHotkey_def hotkey_config.defs)
  have "h \<in> set (captureHotkeysWithMatchers r) \<Longrightarrow> \<not> is_special h" for h
    using mset_eq_setD [OF group_by_key_mset] unfolding captureHotkeysWithMatchers_def captureMap_def set_sort_desc
    by (metis (no_types, lifting) mem_Collect_eq set_filter)
  then have "?h \<notin> set (handleCapture mac declines n r event)"
    using h(1) called_subset by (fastforce simp: handleCapture_def split: if_splits)
  moreover have "?h \<notin> set (fst (handleBubble mac declines n r event))"
    using h(1) special_not_bubble by blast
  moreover have "handleSpecialChars n r event \<noteq> Some ?h"
    using h(2) by (auto simp: handleSpecialChars_def find_Some_iff split: if_splits)
  ultimately show ?thesis by blast
qed

text \<open>A component's hotkeys live exactly as long as the component: through any number of re-renders the registry
  is what it was before the component mounted followed by the component's current configurations, and after the
  unmount it is exactly what it was.\<close>

theorem useHotkeys_no_leak:
  assumes "hk_ok r" "s = fold (\<lambda>cs s. useHotkeys_effect cs (useHotkeys_cleanup s)) css (useHotkeys_effect cs0 (r, []))"
  shows "map hotkey_config.truncate (getRegisteredHotkeys (fst s)) =
      map hotkey_config.truncate (getRegisteredHotkeys r) @ last (cs0 # css) \<and>
    hotkeys (fst (useHotkeys_cleanup s)) = hotkeys r"
proof -
  have own: "hook_owns r (last (cs0 # css)) s"
    unfolding assms(2) by (rule hook_renders [OF assms(1) hook_effect]) (simp_all add: assms(1))
  then have "map (\<lambda>e. hotkey_config.truncate (snd e)) (hotkeys (fst s)) =
      map (\<lambda>e. hotkey_config.truncate (snd e)) (hotkeys r) @ last (cs0 # css)"
    using truncate_own [of "snd s" "last (cs0 # css)"] by (simp only: hook_owns_def map_append)
  with drop_own [OF assms(1) own] show ?thesis
    by (simp add: useHotkeys_cleanup_def unregister_all getRegisteredHotkeys_def map_values_def comp_def)
qed

text \<open>Ctrl+W in a text field removes the word before the cursor together with the blanks behind it, keeps
  everything else, and leaves the cursor where the word began; blank text before the cursor is left alone.\<close>

theorem handleCtrlW_correct:
  assumes "ctrlKey event" "ev_key event = ''w''" "ev_target event = Some el" "tagName el = ''INPUT''"
    "selectionStart input = Some p" "0 < p" "p \<le> length (in_value input)" "handleCtrlW 0 event input = (input', prevented)"
  shows "prevented \<and>
    (if list_all is_space (take p (in_value input)) then input' = input
     else \<exists>pre w sp. in_value input = pre @ w @ sp @ drop p (in_value input) \<and> p = length (pre @ w @ sp) \<and>
       w \<noteq> [] \<and> list_all (\<lambda>c. \<not> is_space c) w \<and> list_all is_space sp \<and> (pre = [] \<or> is_space (last pre)) \<and>
       input' = \<lparr> in_value = pre @ drop p (in_value input), selectionStart = Some (length pre) \<rparr>)"
proof (cases "last_word (take p (in_value input))")
  case None
  with assms(1-6,8) have "input' = input \<and> prevented" by (simp add: handleCtrlW_def Let_def)
  with None show ?thesis by (simp add: last_word_None)
next
  case (Some n)
  from last_word_Some [OF this] obtain pre w sp where w: "take p (in_value input) = pre @ w @ sp" "n = length w + length sp"
    "w \<noteq> []" "list_all (\<lambda>c. \<not> is_space c) w" "list_all is_space sp" "pre = [] \<or> is_space (last pre)" by auto
  have l: "p = length (pre @ w @ sp)" using assms(7) unfolding w(1) [symmetric] by simp
  have v: "in_value input = pre @ w @ sp @ drop p (in_value input)"
    using append_take_drop_id [of p "in_value input"] unfolding w(1) append_assoc by (rule sym)
  have nb: "\<not> list_all is_space (take p (in_value input))" using Some last_word_None [of "take p (in_value input)"] by simp
  have res: "prevented" "input' = \<lparr> in_value = pre @ drop p (in_value input), selectionStart = Some (length pre) \<rparr>"
    using assms(1-6,8) Some w(1,2) by (simp_all add: handleCtrlW_def Let_def)
  show ?thesis
    unfolding if_not_P [OF nb] by (intro conjI exI [of _ pre] exI [of _ w] exI [of _ sp]) (fact res v l w)+
qed

text \<open>On the document page no key press is ambiguous: of the default global, sidebar, pane and document
  combos no two different ones match the same event, neither on a Mac nor elsewhere.\<close>

theorem document_page_unambiguous:
  assumes "a \<in> set document_page_keys" "b \<in> set document_page_keys"
    "createHotkeyMatcher mac a event" "createHotkeyMatcher mac b event"
  shows "a = b"
  by (rule distinct_asks [OF document_page_asks assms])

section \<open>Examples\<close>

definition sample_hotkey :: hotkey_config where
  "sample_hotkey = \<lparr> hk_key = ''ctrl+q'', hk_handler = ''quit'', allowInInput = None, hk_description = None,
     hk_category = None, hk_priority = None, hk_capture = Some True \<rparr>"

definition sample_hotkeys :: hotkey_registry where
  "sample_hotkeys = snd (register_hotkey sample_hotkey \<lparr> hotkeys = [], nextIdRef = 0 \<rparr>)"

definition sample_event :: keyboard_event where
  "sample_event = \<lparr> ev_key = ''q'', ctrlKey = True, metaKey = False, altKey = False, shiftKey = False, ev_target = None \<rparr>"

lemma sample_called: "handleCapture False (\<lambda>_. False) 0 sample_hotkeys sample_event = [with_id (hotkey_id 0) sample_hotkey]"
  by code_simp


lemma sample_hotkeys_ok: "hk_ok sample_hotkeys"
  by (simp add: sample_hotkeys_def register_hotkey_def hk_ok_def Let_def)

theorem useHotkeys_no_leak_witness:
  "hotkeys (fst (useHotkeys_cleanup (useHotkeys_effect [sample_hotkey, useHelpHotkey] (sample_hotkeys, [])))) = hotkeys sample_hotkeys"
  using useHotkeys_no_leak [OF sample_hotkeys_ok, of _ "[]" "[sample_hotkey, useHelpHotkey]"] by simp

definition sample_input :: text_input where
  "sample_input = \<lparr> in_value = ''one two  three'', selectionStart = Some 9 \<rparr>"

definition sample_field :: event_target where
  "sample_field = \<lparr> tagName = ''INPUT'', role = None, type_attr = None, contenteditable_attr = None,
     isContentEditable = False, closest_editable = False, closest_excalidraw = False \<rparr>"

definition sample_ctrl_w :: keyboard_event where
  "sample_ctrl_w = sample_event\<lparr>ev_key := ''w'', ev_target := Some sample_field\<rparr>"

lemma sample_ctrl_w_runs:
  "handleCtrlW 0 sample_ctrl_w sample_input = (\<lparr> in_value = ''one three'', selectionStart = Some 4 \<rparr>, True)"
  by code_simp

theorem handleCtrlW_witness:
  "snd (handleCtrlW 0 sample_ctrl_w sample_input)"
  using handleCtrlW_correct [of sample_ctrl_w sample_field sample_input 9] sample_ctrl_w_runs
  by (simp add: sample_ctrl_w_def sample_event_def sample_field_def sample_input_def)

lemma quit_matches: "createHotkeyMatcher False ''ctrl+q'' sample_event"
  by code_simp

theorem document_page_unambiguous_witness:
  "createHotkeyMatcher False ''ctrl+q'' sample_event \<and> \<not> createHotkeyMatcher False ''ctrl+b'' sample_event"
  using document_page_unambiguous [of "''ctrl+q''" "''ctrl+b''" False sample_event] quit_matches
  by (auto simp: document_page_keys_def keys_of_def shortcut_tables def_of_def)

end
