(* ===== verification/Auto_Save.thy ===== *)
theory Auto_Save
  imports Yanta_Base
begin

text \<open>
  Auto-save: \<open>shared/hooks/useAutoSave.ts\<close>, the save-error store \<open>shared/stores/saveError.store.ts\<close> and the
  navigation guard \<open>app/hooks/useNavGuard.tsx\<close>.  One hook instance is a record of its refs and React state;
  \<open>flight\<close> is the suspended \<open>performSave\<close>, that is the key it snapshotted and its retry count, so that
  \<open>isSavingRef\<close> is \<open>flight \<noteq> None\<close>.  Timers are present or absent, and fire as events of their own;
  the outcome of \<open>onSave\<close> is an event.  React runs the effects of a commit before the next event.  The value being
  edited is represented by its comparison key.  The two configuration numbers are \<open>autoSaveMaxRetries\<close> and
  \<open>autoSaveRetryBaseMs\<close>.
\<close>

section \<open>The save-error store\<close>

record save_error_entry =
  se_error :: string
  se_isDirty :: bool

record save_errors =
  errors :: "(nat, save_error_entry) jsmap"
  hasDirtyError :: bool

definition anyDirty :: "(nat, save_error_entry) jsmap \<Rightarrow> bool" where
  "anyDirty es = list_ex se_isDirty (map_values es)"

definition no_errors :: save_errors where
  "no_errors = \<lparr> errors = [], hasDirtyError = False \<rparr>"

definition with_errors :: "(nat, save_error_entry) jsmap \<Rightarrow> save_errors" where
  "with_errors es = \<lparr> errors = es, hasDirtyError = anyDirty es \<rparr>"

definition setError :: "nat \<Rightarrow> string \<Rightarrow> save_errors \<Rightarrow> save_errors" where
  "setError k e st = with_errors (map_set k \<lparr> se_error = e, se_isDirty = True \<rparr> (errors st))"

definition clearError :: "nat \<Rightarrow> save_errors \<Rightarrow> save_errors" where
  "clearError k st = (if \<not> map_has (errors st) k then st else with_errors (map_delete k (errors st)))"

definition setDirtyError :: "nat \<Rightarrow> bool \<Rightarrow> save_errors \<Rightarrow> save_errors" where
  "setDirtyError k dirty st =
     (case map_get (errors st) k of
        None \<Rightarrow> st
      | Some entry \<Rightarrow> if se_isDirty entry = dirty then st
          else with_errors (map_set k (entry\<lparr>se_isDirty := dirty\<rparr>) (errors st)))"

section \<open>The hook\<close>

text \<open>The comparison key of a value; \<open>num_str\<close> prints numbers and \<open>stringify\<close> is \<open>JSON.stringify\<close>.\<close>

definition getAutoSaveKey :: "(rat \<Rightarrow> string) \<Rightarrow> (json \<Rightarrow> string) \<Rightarrow> json option \<Rightarrow> string option \<Rightarrow> string" where
  "getAutoSaveKey num_str stringify v compareKey =
     (case compareKey of
        Some k \<Rightarrow> k
      | None \<Rightarrow>
          (case v of
             None \<Rightarrow> []
           | Some JNull \<Rightarrow> []
           | Some (JStr t) \<Rightarrow> t
           | Some (JNum n) \<Rightarrow> num_str n
           | Some (JBool b) \<Rightarrow> if b then ''true'' else ''false''
           | Some j \<Rightarrow> stringify j))"

datatype save_state = Idle | Saving | Saved | Error

record as_config =
  autoSaveMaxRetries :: nat
  autoSaveRetryBaseMs :: nat

record auto_save =
  saveState :: save_state
  saveError :: "string option"
  hasUnsavedChanges :: bool
  timeoutRef :: bool
  retryTimeoutRef :: "(nat \<times> nat) option"
  savedStateTimeoutRef :: bool
  retryCountRef :: nat
  flight :: "(string \<times> nat) option"
  currentKeyRef :: string
  lastSavedKeyRef :: string
  initialKeyRef :: string
  hasUserMadeChangesRef :: bool
  prevIsInitializedRef :: bool
  effect_cleanup :: bool
  enabledRef :: bool
  isInitialized :: bool
  saveOnBlur :: bool
  mounted :: bool

abbreviation isSavingRef :: "auto_save \<Rightarrow> bool" where
  "isSavingRef s \<equiv> flight s \<noteq> None"

definition initial_auto_save :: "bool \<Rightarrow> bool \<Rightarrow> bool \<Rightarrow> auto_save" where
  "initial_auto_save en ini blur = \<lparr> saveState = Idle, saveError = None, hasUnsavedChanges = False, timeoutRef = False,
     retryTimeoutRef = None, savedStateTimeoutRef = False, retryCountRef = 0, flight = None, currentKeyRef = [],
     lastSavedKeyRef = [], initialKeyRef = [], hasUserMadeChangesRef = False, prevIsInitializedRef = ini,
     effect_cleanup = False, enabledRef = en, isInitialized = ini, saveOnBlur = blur, mounted = True \<rparr>"

text \<open>\<open>performSave\<close> up to the call of \<open>onSave\<close>.\<close>

definition performSave :: "nat \<Rightarrow> auto_save \<Rightarrow> auto_save" where
  "performSave retryCount s =
     (if isSavingRef s then s
      else s\<lparr>flight := Some (currentKeyRef s, retryCount), saveState := Saving, saveError := None\<rparr>)"

text \<open>\<open>performSave\<close> after \<open>onSave\<close> has resolved, and after it has thrown.\<close>

definition save_resolved :: "nat \<Rightarrow> auto_save \<times> save_errors \<Rightarrow> auto_save \<times> save_errors" where
  "save_resolved me x =
     (case flight (fst x) of
        None \<Rightarrow> x
      | Some (savedKey, retryCount) \<Rightarrow>
          let s1 = (fst x)\<lparr>lastSavedKeyRef := savedKey, saveState := Saved, retryCountRef := 0,
                savedStateTimeoutRef := True, flight := None\<rparr>
          in (if enabledRef s1 \<and> currentKeyRef s1 \<noteq> savedKey then s1\<lparr>hasUnsavedChanges := True, timeoutRef := True\<rparr>
              else s1\<lparr>hasUnsavedChanges := False\<rparr>,
              clearError me (snd x)))"

definition save_thrown :: "as_config \<Rightarrow> nat \<Rightarrow> string \<Rightarrow> auto_save \<times> save_errors \<Rightarrow> auto_save \<times> save_errors" where
  "save_thrown cfg me e x =
     (case flight (fst x) of
        None \<Rightarrow> x
      | Some (savedKey, retryCount) \<Rightarrow>
          let s1 = (fst x)\<lparr>flight := None\<rparr> in
          if retryCount < autoSaveMaxRetries cfg then
            (s1\<lparr>retryCountRef := retryCount + 1,
                retryTimeoutRef := Some (retryCount + 1, autoSaveRetryBaseMs cfg * 2 ^ retryCount)\<rparr>, snd x)
          else (s1\<lparr>saveError := Some e, saveState := Error, retryCountRef := 0\<rparr>, setError me e (snd x)))"

definition saveNow :: "auto_save \<Rightarrow> auto_save" where
  "saveNow s = performSave 0 (s\<lparr>timeoutRef := False\<rparr>)"

text \<open>The three timers.\<close>

definition timer_fires :: "auto_save \<Rightarrow> auto_save" where
  "timer_fires s = (if timeoutRef s then (performSave 0 s)\<lparr>timeoutRef := False\<rparr> else s)"

definition retry_fires :: "auto_save \<Rightarrow> auto_save" where
  "retry_fires s =
     (case retryTimeoutRef s of None \<Rightarrow> s | Some (n, _) \<Rightarrow> (performSave n s)\<lparr>retryTimeoutRef := None\<rparr>)"

definition saved_fires :: "auto_save \<Rightarrow> auto_save" where
  "saved_fires s = (if savedStateTimeoutRef s then s\<lparr>saveState := Idle, savedStateTimeoutRef := False\<rparr> else s)"

text \<open>The effects of a commit: the initialisation effect and the effect on the value.\<close>

definition init_effect :: "string \<Rightarrow> bool \<Rightarrow> auto_save \<Rightarrow> auto_save" where
  "init_effect k ini s =
     (if ini \<and> \<not> prevIsInitializedRef s
      then s\<lparr>initialKeyRef := k, lastSavedKeyRef := k, hasUserMadeChangesRef := False, hasUnsavedChanges := False,
             prevIsInitializedRef := ini\<rparr>
      else s\<lparr>prevIsInitializedRef := ini\<rparr>)"

definition value_effect :: "string \<Rightarrow> auto_save \<Rightarrow> auto_save" where
  "value_effect k s =
     (let valueChanged = (k \<noteq> lastSavedKeyRef s);
          s1 = s\<lparr>currentKeyRef := k, hasUserMadeChangesRef := hasUserMadeChangesRef s \<or> k \<noteq> initialKeyRef s,
                 hasUnsavedChanges := valueChanged, effect_cleanup := False\<rparr>
      in if \<not> enabledRef s1 \<or> \<not> valueChanged \<or> \<not> hasUserMadeChangesRef s1 then s1
         else if isSavingRef s1 then s1
         else s1\<lparr>timeoutRef := True, effect_cleanup := True\<rparr>)"

text \<open>A commit with the key \<open>k\<close> and the props \<open>en\<close> and \<open>ini\<close>; \<open>vchg\<close> and \<open>dchg\<close> say whether the identity of the
  value and the delay changed.  Effects run when a dependency changed, the cleanup of the value effect first.\<close>

definition commit :: "string \<Rightarrow> bool \<Rightarrow> bool \<Rightarrow> bool \<Rightarrow> bool \<Rightarrow> auto_save \<Rightarrow> auto_save" where
  "commit k en ini vchg dchg s =
     (let keychg = (k \<noteq> currentKeyRef s);
          run_init = (vchg \<or> keychg \<or> ini \<noteq> isInitialized s);
          run_value = (vchg \<or> keychg \<or> dchg \<or> en \<noteq> enabledRef s);
          s1 = s\<lparr>enabledRef := en, isInitialized := ini\<rparr>;
          s2 = (if run_value \<and> effect_cleanup s then s1\<lparr>timeoutRef := False\<rparr> else s1);
          s3 = (if run_init then init_effect k ini s2 else s2)
      in if run_value then value_effect k s3 else s3)"

definition mount :: "string \<Rightarrow> bool \<Rightarrow> bool \<Rightarrow> bool \<Rightarrow> auto_save" where
  "mount k en ini blur = value_effect k (init_effect k ini (initial_auto_save en ini blur))"

definition handleBlur :: "auto_save \<Rightarrow> auto_save" where
  "handleBlur s =
     (if saveOnBlur s \<and> enabledRef s \<and> isInitialized s \<and> hasUnsavedChanges s \<and> \<not> isSavingRef s then saveNow s else s)"

definition handleBeforeUnload :: "auto_save \<Rightarrow> auto_save" where
  "handleBeforeUnload s = (if enabledRef s \<and> hasUnsavedChanges s then saveNow s else s)"

definition unmount :: "nat \<Rightarrow> auto_save \<times> save_errors \<Rightarrow> auto_save \<times> save_errors" where
  "unmount me x =
     ((fst x)\<lparr>timeoutRef := False, savedStateTimeoutRef := False, retryTimeoutRef := None, mounted := False\<rparr>,
      clearError me (snd x))"

text \<open>The effect on \<open>saveState\<close> and \<open>hasUnsavedChanges\<close>, which runs after every commit that changes one of them.\<close>

definition sync_dirty :: "nat \<Rightarrow> auto_save \<Rightarrow> auto_save \<times> save_errors \<Rightarrow> auto_save \<times> save_errors" where
  "sync_dirty me old x =
     (if mounted (fst x) \<and> (saveState (fst x) \<noteq> saveState old \<or> hasUnsavedChanges (fst x) \<noteq> hasUnsavedChanges old)
      then (fst x, setDirtyError me (saveState (fst x) = Error \<and> hasUnsavedChanges (fst x)) (snd x))
      else x)"

section \<open>Events\<close>

datatype as_event =
    Commit string bool bool bool bool
  | TimerFires | RetryFires | SavedFires
  | Resolved | Thrown string
  | Blur | BeforeUnload | SaveNow
  | Unmount

text \<open>After the unmount there are no commits and no listeners; the suspended save and its timers go on.\<close>

fun as_effect :: "as_config \<Rightarrow> nat \<Rightarrow> as_event \<Rightarrow> auto_save \<times> save_errors \<Rightarrow> auto_save \<times> save_errors" where
  "as_effect cfg me (Commit k en ini vchg dchg) (s, st) = (if mounted s then commit k en ini vchg dchg s else s, st)"
| "as_effect cfg me TimerFires (s, st) = (timer_fires s, st)"
| "as_effect cfg me RetryFires (s, st) = (retry_fires s, st)"
| "as_effect cfg me SavedFires (s, st) = (saved_fires s, st)"
| "as_effect cfg me Resolved x = save_resolved me x"
| "as_effect cfg me (Thrown e) x = save_thrown cfg me e x"
| "as_effect cfg me Blur (s, st) = (if mounted s then handleBlur s else s, st)"
| "as_effect cfg me BeforeUnload (s, st) = (if mounted s then handleBeforeUnload s else s, st)"
| "as_effect cfg me SaveNow (s, st) = (saveNow s, st)"
| "as_effect cfg me Unmount x = (if mounted (fst x) then unmount me x else x)"

definition as_run :: "as_config \<Rightarrow> nat \<Rightarrow> as_event \<Rightarrow> auto_save \<times> save_errors \<Rightarrow> auto_save \<times> save_errors" where
  "as_run cfg me ev x = sync_dirty me (fst x) (as_effect cfg me ev x)"

text \<open>The store is shared: other instances may change it between two events, but not the entry of this one.\<close>

definition store_ok :: "save_errors \<Rightarrow> bool" where
  "store_ok st \<longleftrightarrow> wf_map (errors st) \<and> hasDirtyError st = anyDirty (errors st)"

definition entry :: "save_errors \<Rightarrow> nat \<Rightarrow> save_error_entry option" where
  "entry st k = map_get (errors st) k"

inductive as_reach :: "as_config \<Rightarrow> nat \<Rightarrow> auto_save \<times> save_errors \<Rightarrow> bool" for cfg me where
  start: "store_ok st \<Longrightarrow> entry st me = None \<Longrightarrow> as_reach cfg me (mount k en ini blur, st)"
| step: "as_reach cfg me x \<Longrightarrow> as_reach cfg me (as_run cfg me ev x)"
| others: "as_reach cfg me (s, st) \<Longrightarrow> store_ok st' \<Longrightarrow> entry st' me = entry st me \<Longrightarrow> as_reach cfg me (s, st')"

section \<open>Flushing on quit and the navigation guard\<close>

text \<open>The registered savers as their live dirty flag and hook state; \<open>flushAllDirty\<close> calls \<open>saveNow\<close> of the dirty ones.\<close>

definition flushAllDirty :: "auto_save list \<Rightarrow> auto_save list" where
  "flushAllDirty ss = map (\<lambda>s. if hasUnsavedChanges s then saveNow s else s) ss"

record 'p nav_guard =
  showDialog :: bool
  pendingNavRef :: "'p option"

text \<open>The second component is the page navigated to, if any.\<close>

definition guardedNavigate :: "save_errors \<Rightarrow> 'p \<Rightarrow> 'p nav_guard \<Rightarrow> 'p nav_guard \<times> 'p option" where
  "guardedNavigate st page g =
     (if hasDirtyError st then (g\<lparr>pendingNavRef := Some page, showDialog := True\<rparr>, None) else (g, Some page))"

definition confirmNavigation :: "'p nav_guard \<Rightarrow> 'p nav_guard \<times> 'p option" where
  "confirmNavigation g = (g\<lparr>showDialog := False, pendingNavRef := None\<rparr>, pendingNavRef g)"

definition cancelNavigation :: "'p nav_guard \<Rightarrow> 'p nav_guard" where
  "cancelNavigation g = g\<lparr>showDialog := False, pendingNavRef := None\<rparr>"

section \<open>The interface of the error store\<close>

locale keyed_errors =
  fixes lookup :: "'st \<Rightarrow> nat \<Rightarrow> 'e option"
    and valid :: "'st \<Rightarrow> bool"
    and put :: "nat \<Rightarrow> string \<Rightarrow> 'st \<Rightarrow> 'st"
    and drop_entry :: "nat \<Rightarrow> 'st \<Rightarrow> 'st"
    and mark :: "nat \<Rightarrow> bool \<Rightarrow> 'st \<Rightarrow> 'st"
  assumes others_kept: "k \<noteq> me \<Longrightarrow> lookup (put me e st) k = lookup st k"
      "k \<noteq> me \<Longrightarrow> lookup (drop_entry me st) k = lookup st k"
      "k \<noteq> me \<Longrightarrow> lookup (mark me b st) k = lookup st k"
    and valid_kept: "valid st \<Longrightarrow> valid (put me e st)" "valid st \<Longrightarrow> valid (drop_entry me st)"
      "valid st \<Longrightarrow> valid (mark me b st)"
    and present: "lookup (put me e st) me \<noteq> None" "(lookup (mark me b st) me = None) = (lookup st me = None)"
begin

definition guarantees :: "nat \<Rightarrow> 'st \<Rightarrow> 'st \<Rightarrow> bool" where
  "guarantees me st st' \<longleftrightarrow> (valid st \<longrightarrow> valid st') \<and> (\<forall>k. k \<noteq> me \<longrightarrow> lookup st' k = lookup st k)"

lemma guarantees_ops: "guarantees me st st" "guarantees me st (put me e st)" "guarantees me st (drop_entry me st)"
  "guarantees me st (mark me b st)"
  by (simp_all add: guarantees_def others_kept valid_kept)

lemma guarantees_trans: "guarantees me st st' \<Longrightarrow> guarantees me st' st'' \<Longrightarrow> guarantees me st st''"
  by (simp add: guarantees_def)

end

lemma entry_ops:
  "entry (setError me e st) k = (if k = me then Some \<lparr> se_error = e, se_isDirty = True \<rparr> else entry st k)"
  "entry (clearError me st) k = (if k = me then None else entry st k)"
  "entry (setDirtyError me b st) k = (if k = me then map_option (se_isDirty_update (\<lambda>_. b)) (entry st me) else entry st k)"
  by (simp_all add: entry_def setError_def clearError_def setDirtyError_def with_errors_def js_maps map_has_def split: option.split)

lemma store_ok_ops:
  "store_ok st \<Longrightarrow> store_ok (setError me e st)" "store_ok st \<Longrightarrow> store_ok (clearError me st)"
  "store_ok st \<Longrightarrow> store_ok (setDirtyError me b st)"
  by (simp_all add: store_ok_def setError_def clearError_def setDirtyError_def with_errors_def split: option.split)

interpretation error_store: keyed_errors entry store_ok setError clearError setDirtyError
  by unfold_locales (simp_all add: entry_ops store_ok_ops)

section \<open>The invariant of a mounted hook\<close>

definition pending :: "auto_save \<Rightarrow> bool" where
  "pending s \<longleftrightarrow> timeoutRef s \<or> isSavingRef s \<or> retryTimeoutRef s \<noteq> None"

definition dirty :: "auto_save \<Rightarrow> bool" where
  "dirty s \<longleftrightarrow> currentKeyRef s \<noteq> lastSavedKeyRef s"

definition cared_for :: "nat \<Rightarrow> auto_save \<times> save_errors \<Rightarrow> bool" where
  "cared_for me x \<longleftrightarrow> (enabledRef (fst x) \<longrightarrow> hasUnsavedChanges (fst x) = dirty (fst x)) \<and>
     (enabledRef (fst x) \<and> hasUserMadeChangesRef (fst x) \<and> dirty (fst x) \<longrightarrow> pending (fst x) \<or> entry (snd x) me \<noteq> None)"

definition error_shown :: "nat \<Rightarrow> auto_save \<times> save_errors \<Rightarrow> bool" where
  "error_shown me x \<longleftrightarrow> (isSavingRef (fst x) \<longrightarrow> saveState (fst x) \<noteq> Error) \<and>
     (saveState (fst x) = Error \<longrightarrow> (\<exists>e. entry (snd x) me = Some e \<and> se_isDirty e = hasUnsavedChanges (fst x)))"

definition bounded :: "as_config \<Rightarrow> auto_save \<Rightarrow> bool" where
  "bounded cfg s \<longleftrightarrow> (\<forall>k n. flight s = Some (k, n) \<longrightarrow> n \<le> autoSaveMaxRetries cfg) \<and>
     (\<forall>n d. retryTimeoutRef s = Some (n, d) \<longrightarrow>
        0 < n \<and> n \<le> autoSaveMaxRetries cfg \<and> d = autoSaveRetryBaseMs cfg * 2 ^ (n - 1))"

lemmas hook_defs = performSave_def saveNow_def timer_fires_def retry_fires_def saved_fires_def handleBlur_def
  handleBeforeUnload_def

lemma cared_sync: "cared_for me (sync_dirty me old x) = cared_for me x"
  by (simp add: cared_for_def sync_dirty_def entry_ops)

lemma cared_value: "cared_for me (value_effect k s, st)"
  by (auto simp: cared_for_def dirty_def pending_def value_effect_def Let_def)

lemma cared_init: "cared_for me (s, st) \<Longrightarrow> k = currentKeyRef s \<Longrightarrow> cared_for me (init_effect k ini s, st)"
  by (cases "ini \<and> \<not> prevIsInitializedRef s") (simp_all add: init_effect_def cared_for_def dirty_def pending_def)

lemma cared_commit:
  assumes "cared_for me (s, st)"
  shows "cared_for me (commit k en ini vchg dchg s, st)"
proof (cases "vchg \<or> k \<noteq> currentKeyRef s \<or> dchg \<or> en \<noteq> enabledRef s")
  case True
  then show ?thesis by (simp add: commit_def Let_def cared_value)
next
  case False
  let ?s = "s\<lparr>enabledRef := en, isInitialized := ini\<rparr>"
  from False have eq: "commit k en ini vchg dchg s = (if ini \<noteq> isInitialized s then init_effect k ini ?s else ?s)"
    by (simp add: commit_def Let_def)
  have c: "cared_for me (?s, st)" using assms False by (simp add: cared_for_def dirty_def pending_def)
  have "cared_for me (init_effect k ini ?s, st)" by (rule cared_init [OF c]) (use False in simp)
  with c show ?thesis unfolding eq by (cases "ini = isInitialized s") (simp_all only: if_True if_False simp_thms)
qed

lemma cared_resolved: "cared_for me x \<Longrightarrow> cared_for me (save_resolved me x)"
  by (cases "flight (fst x)") (auto simp: save_resolved_def cared_for_def dirty_def pending_def Let_def split: if_splits)

lemma cared_thrown: "cared_for me x \<Longrightarrow> cared_for me (save_thrown cfg me e x)"
  by (cases "flight (fst x)") (auto simp: save_thrown_def cared_for_def dirty_def pending_def Let_def entry_ops split: if_splits)

lemma cared_hooks:
  assumes "cared_for me (s, st)"
  shows "cared_for me (timer_fires s, st)" "cared_for me (retry_fires s, st)" "cared_for me (saved_fires s, st)"
    "cared_for me (handleBlur s, st)" "cared_for me (handleBeforeUnload s, st)" "cared_for me (saveNow s, st)"
  using assms by (auto simp: hook_defs cared_for_def dirty_def pending_def split: option.split)

lemma effect_fields [simp]:
  "mounted (init_effect k ini s) = mounted s" "saveState (init_effect k ini s) = saveState s"
  "flight (init_effect k ini s) = flight s" "retryTimeoutRef (init_effect k ini s) = retryTimeoutRef s"
  "mounted (value_effect k s) = mounted s" "saveState (value_effect k s) = saveState s"
  "flight (value_effect k s) = flight s" "retryTimeoutRef (value_effect k s) = retryTimeoutRef s"
  by (simp_all add: init_effect_def) (simp_all add: value_effect_def Let_def)

lemma commit_fields [simp]:
  "mounted (commit k en ini v d s) = mounted s" "saveState (commit k en ini v d s) = saveState s"
  "flight (commit k en ini v d s) = flight s" "retryTimeoutRef (commit k en ini v d s) = retryTimeoutRef s"
  by (simp_all add: commit_def Let_def)

lemma mounted_perform [simp]: "mounted (performSave n s) = mounted s" "mounted (saveNow s) = mounted s"
  by (simp_all add: performSave_def saveNow_def)

lemma mounted_hooks [simp]:
  "mounted (timer_fires s) = mounted s" "mounted (retry_fires s) = mounted s" "mounted (saved_fires s) = mounted s"
  "mounted (handleBlur s) = mounted s" "mounted (handleBeforeUnload s) = mounted s"
  "mounted (fst (save_resolved me x)) = mounted (fst x)" "mounted (fst (save_thrown cfg me e x)) = mounted (fst x)"
  "\<not> mounted (fst (unmount me x))" "fst (sync_dirty me old x) = fst x"
  by (simp_all add: timer_fires_def retry_fires_def saved_fires_def handleBlur_def handleBeforeUnload_def save_resolved_def
      save_thrown_def unmount_def sync_dirty_def Let_def split: option.split)

lemma cared_step:
  assumes "mounted (fst x) \<longrightarrow> cared_for me x"
  shows "mounted (fst (as_run cfg me ev x)) \<longrightarrow> cared_for me (as_run cfg me ev x)"
proof -
  obtain s st where x: "x = (s, st)" by (cases x)
  show ?thesis
    using assms cared_commit [of me s st] cared_hooks [of me s st] cared_resolved [of me x] cared_thrown [of me x]
    unfolding as_run_def cared_sync x by (cases ev) simp_all
qed

lemma shown_sync:
  assumes "mounted (fst x)" "isSavingRef (fst x) \<longrightarrow> saveState (fst x) \<noteq> Error"
    "saveState (fst x) = Error \<longrightarrow> entry (snd x) me \<noteq> None"
    "saveState old = Error \<and> saveState (fst x) = Error \<longrightarrow> error_shown me (old, snd x)"
  shows "error_shown me (sync_dirty me old x)"
  using assms by (auto simp: sync_dirty_def error_shown_def entry_ops)

lemma perform_fields:
  "flight (performSave n s) = (if isSavingRef s then flight s else Some (currentKeyRef s, n))"
  "saveState (performSave n s) = (if isSavingRef s then saveState s else Saving)"
  "retryTimeoutRef (performSave n s) = retryTimeoutRef s"
  by (simp_all add: performSave_def)

definition quiet :: "auto_save \<Rightarrow> auto_save \<Rightarrow> bool" where
  "quiet s s' \<longleftrightarrow> (isSavingRef s' \<longrightarrow> saveState s' \<noteq> Error) \<and> (saveState s' = Error \<longrightarrow> saveState s = Error)"

lemma quiet_hooks:
  assumes "isSavingRef s \<longrightarrow> saveState s \<noteq> Error"
  shows "quiet s (commit k en ini v d s)" "quiet s (timer_fires s)" "quiet s (saved_fires s)" "quiet s (saveNow s)"
    "quiet s (handleBlur s)" "quiet s (handleBeforeUnload s)" "quiet s (retry_fires s)"
proof -
  show q: "quiet s (saveNow s)" using assms by (simp add: quiet_def saveNow_def perform_fields)
  show "quiet s (handleBlur s)" "quiet s (handleBeforeUnload s)"
    using q assms by (simp_all add: handleBlur_def handleBeforeUnload_def quiet_def)
  show "quiet s (commit k en ini v d s)" "quiet s (timer_fires s)" "quiet s (saved_fires s)"
    using assms by (simp_all add: quiet_def timer_fires_def saved_fires_def perform_fields)
  show "quiet s (retry_fires s)"
    using assms by (simp add: quiet_def retry_fires_def perform_fields split: option.split)
qed

lemma shown_store_same:
  assumes "error_shown me (s, st)" "mounted s'" "quiet s s'"
  shows "error_shown me (sync_dirty me s (s', st))"
proof (rule shown_sync)
  show "saveState (fst (s', st)) = Error \<longrightarrow> entry (snd (s', st)) me \<noteq> None"
    using assms(1,3) by (auto simp: error_shown_def quiet_def)
qed (use assms in \<open>simp_all add: quiet_def\<close>)

lemma shown_step:
  assumes "mounted (fst x) \<longrightarrow> error_shown me x" "mounted (fst (as_run cfg me ev x))"
  shows "error_shown me (as_run cfg me ev x)"
proof -
  obtain s st where x: "x = (s, st)" by (cases x)
  have m: "mounted s" using assms(2) x by (cases ev) (simp_all add: as_run_def split: if_splits)
  with assms(1) x have e: "error_shown me (s, st)" by simp
  then have "isSavingRef s \<longrightarrow> saveState s \<noteq> Error" by (simp add: error_shown_def)
  note same = quiet_hooks [OF this, THEN shown_store_same [OF e, rotated]]
  show ?thesis
  proof (cases ev)
    case (Commit k en ini v d)
    with x m same show ?thesis by (simp add: as_run_def)
  next
    case Resolved
    have "error_shown me (sync_dirty me s (save_resolved me (s, st)))"
      using m e by (intro shown_sync) (auto simp: save_resolved_def error_shown_def Let_def split: option.splits)
    with x Resolved show ?thesis by (simp add: as_run_def)
  next
    case (Thrown er)
    have "error_shown me (sync_dirty me s (save_thrown cfg me er (s, st)))"
      using m e by (intro shown_sync) (auto simp: save_thrown_def error_shown_def Let_def entry_ops split: option.splits)
    with x Thrown show ?thesis by (simp add: as_run_def)
  next
    case Unmount
    with assms(2) x m show ?thesis by (simp add: as_run_def)
  qed (use x m in \<open>simp_all add: as_run_def same\<close>)
qed

lemma bounded_perform: "bounded cfg s \<Longrightarrow> n \<le> autoSaveMaxRetries cfg \<Longrightarrow> bounded cfg (performSave n s)"
  by (auto simp: bounded_def perform_fields split: if_splits)

lemma bounded_fields:
  "flight s' = flight s \<Longrightarrow> retryTimeoutRef s' = retryTimeoutRef s \<Longrightarrow> bounded cfg s' = bounded cfg s"
  by (simp add: bounded_def)

lemma bounded_drop: "bounded cfg s \<Longrightarrow> bounded cfg (s\<lparr>retryTimeoutRef := None\<rparr>)"
  by (simp add: bounded_def)

lemma bounded_thrown:
  assumes "bounded cfg (fst x)"
  shows "bounded cfg (fst (save_thrown cfg me e x))"
proof (cases "flight (fst x)")
  case None
  then show ?thesis using assms by (simp add: save_thrown_def)
next
  case (Some kn)
  obtain k n where kn: "kn = (k, n)" by (cases kn)
  show ?thesis
    using assms Some kn by (cases "n < autoSaveMaxRetries cfg") (simp_all add: save_thrown_def bounded_def Let_def)
qed

lemma bounded_resolved: "bounded cfg (fst x) \<Longrightarrow> bounded cfg (fst (save_resolved me x))"
  by (simp add: save_resolved_def bounded_def Let_def split: option.split)

lemma bounded_now: "bounded cfg s \<Longrightarrow> bounded cfg (saveNow s)"
  unfolding saveNow_def by (rule bounded_perform) (simp_all add: bounded_def)

lemma bounded_retry:
  assumes "bounded cfg s"
  shows "bounded cfg (retry_fires s)"
proof (cases "retryTimeoutRef s")
  case (Some nd)
  then obtain n d where "retryTimeoutRef s = Some (n, d)" by (cases nd) simp
  with assms bounded_drop [OF bounded_perform [OF assms, of n]] show ?thesis
    by (simp add: retry_fires_def bounded_def)
qed (simp add: retry_fires_def assms)

lemma bounded_step:
  assumes "bounded cfg (fst x)"
  shows "bounded cfg (fst (as_run cfg me ev x))"
proof -
  obtain s st where x: "x = (s, st)" by (cases x)
  have b: "bounded cfg s" using assms x by simp
  have "bounded cfg (timer_fires s)"
    using bounded_perform [OF b, of 0] bounded_fields [of "(performSave 0 s)\<lparr>timeoutRef := False\<rparr>" "performSave 0 s" cfg]
    by (simp add: timer_fires_def b)
  moreover have "bounded cfg (saved_fires s)" "bounded cfg (commit k en ini v d s)" "bounded cfg (fst (unmount me (s, st)))" for k en ini v d
    using b by (simp_all add: saved_fires_def bounded_def unmount_def)
  moreover have "bounded cfg (handleBlur s)" "bounded cfg (handleBeforeUnload s)"
    using b bounded_now [OF b] by (simp_all add: handleBlur_def handleBeforeUnload_def)
  ultimately show ?thesis
    using b bounded_now [OF b] bounded_retry [OF b] bounded_thrown [of cfg x me] bounded_resolved [of cfg x me] x
    by (cases ev) (simp_all add: as_run_def)
qed

lemma mount_facts:
  "cared_for me (mount k en ini blur, st)" "saveState (mount k en ini blur) = Idle" "bounded cfg (mount k en ini blur)"
proof -
  show "cared_for me (mount k en ini blur, st)" by (simp add: mount_def cared_value)
  show "saveState (mount k en ini blur) = Idle" "bounded cfg (mount k en ini blur)"
    by (simp_all add: mount_def value_effect_def init_effect_def initial_auto_save_def bounded_def Let_def)
qed

lemma reach_inv:
  assumes "as_reach cfg me x"
  shows "(mounted (fst x) \<longrightarrow> cared_for me x) \<and> (mounted (fst x) \<longrightarrow> error_shown me x) \<and> bounded cfg (fst x) \<and> store_ok (snd x)"
  using assms
proof induction
  case (start st k en ini blur)
  then show ?case by (simp add: error_shown_def mount_facts)
next
  case (step x ev)
  have "store_ok (snd (as_effect cfg me ev x))"
    using step.IH by (cases "(cfg, me, ev, x)" rule: as_effect.cases)
      (auto simp: save_resolved_def save_thrown_def unmount_def store_ok_ops Let_def split: option.splits)
  then have "store_ok (snd (as_run cfg me ev x))" by (simp add: as_run_def sync_dirty_def store_ok_ops)
  with step.IH cared_step [of x me cfg ev] shown_step [of x me cfg ev] bounded_step [of cfg x me ev] show ?case by blast
next
  case (others s st st')
  then show ?case by (simp add: cared_for_def error_shown_def)
qed

section \<open>Progress\<close>

text \<open>What happens next when nobody edits and every save succeeds: the save in flight resolves, else the timer
  fires, else the retry fires.\<close>

definition next_event :: "auto_save \<Rightarrow> as_event" where
  "next_event s =
     (if isSavingRef s then Resolved else if timeoutRef s then TimerFires
      else if retryTimeoutRef s \<noteq> None then RetryFires else SavedFires)"

definition quiesce :: "as_config \<Rightarrow> nat \<Rightarrow> auto_save \<times> save_errors \<Rightarrow> auto_save \<times> save_errors" where
  "quiesce cfg me x = as_run cfg me (next_event (fst x)) x"

definition clean :: "string \<Rightarrow> auto_save \<Rightarrow> bool" where
  "clean k s \<longleftrightarrow> enabledRef s \<and> currentKeyRef s = k \<and> lastSavedKeyRef s = k \<and> \<not> hasUnsavedChanges s \<and>
     (case flight s of None \<Rightarrow> True | Some (k', n) \<Rightarrow> k' = k)"

definition saving :: "string \<Rightarrow> auto_save \<Rightarrow> bool" where
  "saving k s \<longleftrightarrow> enabledRef s \<and> currentKeyRef s = k \<and> (\<exists>n. flight s = Some (k, n))"

definition waiting :: "string \<Rightarrow> auto_save \<Rightarrow> bool" where
  "waiting k s \<longleftrightarrow> enabledRef s \<and> currentKeyRef s = k \<and> flight s = None \<and> (timeoutRef s \<or> retryTimeoutRef s \<noteq> None)"

definition behind :: "string \<Rightarrow> auto_save \<Rightarrow> bool" where
  "behind k s \<longleftrightarrow> enabledRef s \<and> currentKeyRef s = k \<and> (\<exists>k' n. flight s = Some (k', n) \<and> k' \<noteq> k)"

lemma fst_quiesce:
  "fst (quiesce cfg me x) =
     (if isSavingRef (fst x) then fst (save_resolved me x) else if timeoutRef (fst x) then timer_fires (fst x)
      else if retryTimeoutRef (fst x) \<noteq> None then retry_fires (fst x) else saved_fires (fst x))"
  by (cases x) (simp add: quiesce_def as_run_def next_event_def)

lemma quiesce_behind: "behind k (fst x) \<Longrightarrow> waiting k (fst (quiesce cfg me x))"
  by (auto simp: fst_quiesce behind_def waiting_def save_resolved_def Let_def)

lemma quiesce_waiting: "waiting k (fst x) \<Longrightarrow> saving k (fst (quiesce cfg me x))"
  by (cases "timeoutRef (fst x)")
     (auto simp: fst_quiesce waiting_def saving_def timer_fires_def retry_fires_def performSave_def split: prod.split)

lemma quiesce_saving: "saving k (fst x) \<Longrightarrow> clean k (fst (quiesce cfg me x))"
  by (auto simp: fst_quiesce saving_def clean_def save_resolved_def Let_def)

lemma quiesce_clean:
  assumes "clean k (fst x)"
  shows "clean k (fst (quiesce cfg me x))"
proof (cases "flight (fst x)")
  case None
  with assms show ?thesis
    by (auto simp: fst_quiesce clean_def timer_fires_def retry_fires_def saved_fires_def performSave_def)
next
  case (Some kn)
  with assms show ?thesis by (cases kn) (simp add: fst_quiesce clean_def save_resolved_def Let_def)
qed

lemma pending_stages:
  assumes "enabledRef s" "pending s"
  shows "behind (currentKeyRef s) s \<or> waiting (currentKeyRef s) s \<or> saving (currentKeyRef s) s"
proof (cases "flight s")
  case None
  with assms show ?thesis by (simp add: pending_def waiting_def)
next
  case (Some kn)
  with assms show ?thesis by (cases kn) (auto simp: behind_def saving_def)
qed

lemma three_steps: "(f ^^ 3) x = f (f (f x))"
  by (simp add: numeral_3_eq_3)

lemma quiesce_three:
  assumes "enabledRef (fst x)" "pending (fst x)"
  shows "clean (currentKeyRef (fst x)) (fst ((quiesce cfg me ^^ 3) x))"
  unfolding three_steps
  using pending_stages [OF assms] quiesce_behind quiesce_waiting quiesce_saving quiesce_clean by meson

section \<open>Properties\<close>

text \<open>C2. No edit is forgotten: however commits, timers, save outcomes, blur, unload and other editors' errors
  interleave, a mounted and enabled editor shows unsaved changes exactly when the content differs from what was last
  saved, and if the user changed it then a save is scheduled, running or being retried, or its failure is in the error
  store; a failed state always has its entry there, dirty exactly when there are unsaved changes.\<close>

theorem no_edit_forgotten:
  assumes "as_reach cfg me (s, st)" "mounted s" "enabledRef s"
  shows "hasUnsavedChanges s = (currentKeyRef s \<noteq> lastSavedKeyRef s) \<and>
    (hasUserMadeChangesRef s \<and> hasUnsavedChanges s \<longrightarrow>
       timeoutRef s \<or> isSavingRef s \<or> retryTimeoutRef s \<noteq> None \<or> map_has (errors st) me) \<and>
    (saveState s = Error \<and> hasUnsavedChanges s \<longrightarrow> hasDirtyError st)"
proof -
  from reach_inv [OF assms(1)] assms(2) have c: "cared_for me (s, st)" "error_shown me (s, st)" "store_ok st" by auto
  have "hasDirtyError st" if err: "saveState s = Error" "hasUnsavedChanges s"
  proof -
    obtain e where "map_get (errors st) me = Some e" "se_isDirty e"
      using c(2) err by (auto simp: error_shown_def entry_def)
    then have "anyDirty (errors st)" by (force simp: anyDirty_def list_ex_iff map_values_def dest: map_of_SomeD)
    with c(3) show ?thesis by (simp add: store_ok_def)
  qed
  with c(1) assms(3) show ?thesis by (simp add: cared_for_def dirty_def pending_def entry_def map_has_def)
qed

text \<open>C4. Edits reach the disk: in every reachable state of a mounted, enabled editor whose content the user
  changed and whose save has not failed for good, three further events without edits (the running save
  resolves, the timer or retry fires, that save resolves) leave the content saved and the editor without unsaved
  changes.\<close>

theorem edits_are_saved:
  assumes "as_reach cfg me (s, st)" "mounted s" "enabledRef s" "hasUserMadeChangesRef s" "hasUnsavedChanges s"
    "\<not> map_has (errors st) me"
  shows "let s' = fst ((quiesce cfg me ^^ 3) (s, st)) in
    currentKeyRef s' = currentKeyRef s \<and> lastSavedKeyRef s' = currentKeyRef s \<and> \<not> hasUnsavedChanges s'"
proof -
  from reach_inv [OF assms(1)] assms(2) have "cared_for me (s, st)" by simp
  with assms(3-6) have "pending s" by (simp add: cared_for_def entry_def map_has_def)
  with quiesce_three [of "(s, st)" cfg me] assms(3) show ?thesis by (simp add: clean_def Let_def)
qed

text \<open>Retries are bounded: no reachable state is more than the configured number of retries deep, and the delay
  of the retry that is scheduled is the base delay doubled once per earlier retry, hence never more than the base
  times two to the number of retries.\<close>

theorem retries_bounded:
  assumes "as_reach cfg me (s, st)"
  shows "(\<forall>k n. flight s = Some (k, n) \<longrightarrow> n \<le> autoSaveMaxRetries cfg) \<and>
    (\<forall>n d. retryTimeoutRef s = Some (n, d) \<longrightarrow> n \<le> autoSaveMaxRetries cfg \<and>
       d = autoSaveRetryBaseMs cfg * 2 ^ (n - 1) \<and> d \<le> autoSaveRetryBaseMs cfg * 2 ^ autoSaveMaxRetries cfg)"
proof -
  have "autoSaveRetryBaseMs cfg * 2 ^ (n - 1) \<le> autoSaveRetryBaseMs cfg * 2 ^ autoSaveMaxRetries cfg"
    if "n \<le> autoSaveMaxRetries cfg" for n
    using that by (intro mult_le_mono2 power_increasing) auto
  moreover have "bounded cfg s" using reach_inv [OF assms] by simp
  ultimately show ?thesis unfolding bounded_def by blast
qed

text \<open>Flushing on quit: every editor with unsaved changes and no save running starts one for exactly its current
  content, and clean editors are left alone; but an editor whose save is running starts nothing, so that the flush is
  acknowledged while edits made since that save began are neither saved nor scheduled any more.\<close>

theorem flushAllDirty_correct:
  assumes "i < length ss" "s = ss ! i" "s' = flushAllDirty ss ! i"
  shows "flight s' = (if hasUnsavedChanges s \<and> \<not> isSavingRef s then Some (currentKeyRef s, 0) else flight s) \<and>
    (\<not> hasUnsavedChanges s \<longrightarrow> s' = s) \<and> (hasUnsavedChanges s \<longrightarrow> \<not> timeoutRef s')"
  using assms by (simp add: flushAllDirty_def saveNow_def performSave_def)

lemma reach_fold: "as_reach cfg me x \<Longrightarrow> as_reach cfg me (fold (as_run cfg me) evs x)"
  by (induction evs arbitrary: x) (simp_all add: as_reach.step)

definition default_as_config :: as_config where
  "default_as_config = \<lparr> autoSaveMaxRetries = 3, autoSaveRetryBaseMs = 1000 \<rparr>"

text \<open>An editor is loaded, edited and unmounted while its save is running; that save and its three retries fail.\<close>

definition closed_while_saving :: "as_event list" where
  "closed_while_saving = [Commit ''a'' True True True False, Commit ''b'' True True True False, TimerFires, Unmount,
     Thrown ''disk full'', RetryFires, Thrown ''disk full'', RetryFires, Thrown ''disk full'', RetryFires, Thrown ''disk full'']"

text \<open>A closed editor can leave its error behind: there is a reachable state, under the default configuration, in
  which the editor is unmounted, nothing is running or scheduled any more, and the error store still holds its dirty
  error, so that the navigation guard asks before every navigation from then on.\<close>

theorem unmounted_error_stays:
  "\<exists>s st. as_reach default_as_config 0 (s, st) \<and> \<not> mounted s \<and> flight s = None \<and> \<not> timeoutRef s \<and>
     retryTimeoutRef s = None \<and> map_has (errors st) 0 \<and> snd (guardedNavigate st page g) = None"
proof -
  let ?x = "fold (as_run default_as_config 0) closed_while_saving (mount ''a'' False False True, no_errors)"
  have "as_reach default_as_config 0 ?x"
    by (intro reach_fold as_reach.start) (simp_all add: no_errors_def store_ok_def anyDirty_def map_values_def entry_def)
  moreover have "\<not> mounted (fst ?x) \<and> flight (fst ?x) = None \<and> \<not> timeoutRef (fst ?x) \<and> retryTimeoutRef (fst ?x) = None \<and>
      map_has (errors (snd ?x)) 0 \<and> hasDirtyError (snd ?x)"
    by code_simp
  ultimately show ?thesis
    by (intro exI [of _ "fst ?x"] exI [of _ "snd ?x"]) (simp add: guardedNavigate_def)
qed

section \<open>Examples\<close>

definition sample_editor :: "auto_save \<times> save_errors" where
  "sample_editor = fold (as_run default_as_config 0) [Commit ''a'' True True True False, Commit ''b'' True True True False, TimerFires,
     Commit ''c'' True True True False] (mount ''a'' False False True, no_errors)"

lemma sample_editor_reach: "as_reach default_as_config 0 (fst sample_editor, snd sample_editor)"
  unfolding sample_editor_def prod.collapse
  by (intro reach_fold as_reach.start) (simp_all add: no_errors_def store_ok_def anyDirty_def map_values_def entry_def)

lemma sample_editor_state:
  "mounted (fst sample_editor) \<and> enabledRef (fst sample_editor) \<and> hasUserMadeChangesRef (fst sample_editor) \<and>
   hasUnsavedChanges (fst sample_editor) \<and> \<not> map_has (errors (snd sample_editor)) 0 \<and>
   flight (fst sample_editor) = Some (''b'', 0) \<and> currentKeyRef (fst sample_editor) = ''c''"
  by code_simp

theorem no_edit_forgotten_witness:
  "currentKeyRef (fst sample_editor) \<noteq> lastSavedKeyRef (fst sample_editor)"
  using no_edit_forgotten [OF sample_editor_reach] sample_editor_state by simp

theorem edits_are_saved_witness:
  "lastSavedKeyRef (fst ((quiesce default_as_config 0 ^^ 3) (fst sample_editor, snd sample_editor))) = ''c''"
  using edits_are_saved [OF sample_editor_reach] sample_editor_state by (simp add: Let_def)

theorem retries_bounded_witness:
  "\<exists>k n. flight (fst sample_editor) = Some (k, n) \<and> n \<le> 3"
  using retries_bounded [OF sample_editor_reach] sample_editor_state by (simp add: default_as_config_def)

theorem flushAllDirty_witness:
  "flight (flushAllDirty [fst sample_editor] ! 0) = Some (''b'', 0)"
  using flushAllDirty_correct [of 0 "[fst sample_editor]" "fst sample_editor" "flushAllDirty [fst sample_editor] ! 0"]
    sample_editor_state by simp

end
