(* ===== verification/Document_Session.thy ===== *)
theory Document_Session
  imports Auto_Save JS_Text "HOL-Library.List_Lexorder" "HOL-Library.Char_ord"
begin

text \<open>
  Editing a document: \<open>document/hooks/useDocumentForm.ts\<close>, \<open>useDocumentPersistence.ts\<close>, \<open>useDocumentSaver.ts\<close>,
  \<open>useDocumentLoader.ts\<close> and their helpers \<open>document/utils/documentUtils.ts\<close>, \<open>assetExtractor.ts\<close> and
  \<open>shared/utils/contentHash.ts\<close>, composed with the auto-save hook.  \<open>stringify\<close> is \<open>JSON.stringify\<close> on the
  normalised blocks, \<open>num_str\<close> prints numbers, and \<open>json_str\<close> is \<open>JSON.stringify\<close> on values.
\<close>

section \<open>Blocks\<close>

datatype block = Block (b_id: string) (b_type: string) (b_props: "(string \<times> json) list option")
  (b_content: "json list option") (b_children: "block list option")

definition text_of :: "json \<Rightarrow> string" where
  "text_of c = (case get_prop c ''text'' of Some (JStr t) \<Rightarrow> t | _ \<Rightarrow> [])"

definition extractTitleFromBlocks :: "block list \<Rightarrow> string" where
  "extractTitleFromBlocks blocks =
     (case blocks of
        [] \<Rightarrow> ''Untitled''
      | firstBlock # _ \<Rightarrow>
          if b_type firstBlock \<noteq> ''heading'' \<or>
             Option.bind (b_props firstBlock) (\<lambda>p. map_of p ''level'') \<noteq> Some (JNum 1) then ''Untitled''
          else
            let text = (case b_content firstBlock of None \<Rightarrow> [] | Some cs \<Rightarrow> trim (concat (map text_of cs)))
            in if text = [] then ''Untitled''
               else if length text > 200 then take 200 text @ ''...'' else text)"

definition DEFAULT_PROP_VALUES :: "(string, json) jsmap" where
  "DEFAULT_PROP_VALUES = [(''textColor'', JStr ''default''), (''backgroundColor'', JStr ''default''),
     (''textAlignment'', JStr ''left'')]"

definition normalizeProps :: "(string \<times> json) list option \<Rightarrow> (string \<times> json) list option" where
  "normalizeProps props =
     (case props of
        None \<Rightarrow> None
      | Some m \<Rightarrow>
          let out = filter (\<lambda>(k, v). map_get DEFAULT_PROP_VALUES k \<noteq> Some v) m
          in if out \<noteq> [] then Some out else None)"

datatype nblock = NBlock string "(string \<times> json) list option" "json list option" "nblock list option"

fun normalizeBlock :: "block \<Rightarrow> nblock" where
  "normalizeBlock (Block i t p c ch) =
     NBlock t (normalizeProps p) c
       (case ch of None \<Rightarrow> None | Some [] \<Rightarrow> None | Some (b # bs) \<Rightarrow> Some (map normalizeBlock (b # bs)))"

definition computeContentHash :: "(nblock list \<Rightarrow> string) \<Rightarrow> block list \<Rightarrow> string" where
  "computeContentHash stringify blocks = stringify (map normalizeBlock blocks)"

definition is_hex :: "char \<Rightarrow> bool" where
  "is_hex c \<longleftrightarrow> is_digit c \<or> (97 \<le> ccode c \<and> ccode c \<le> 102)"

text \<open>The match of \<open>/\/assets\/[^/]+\/([a-f0-9]{64})/\<close> at the start of a string, and its first match.\<close>

definition asset_here :: "string \<Rightarrow> string option" where
  "asset_here s =
     (if \<not> startsWith s ''/assets/'' then None
      else
        let r = drop 8 s; folder = takeWhile (\<lambda>c. c \<noteq> CHR ''/'') r; h = take 64 (drop (length folder + 1) r)
        in if folder \<noteq> [] \<and> length folder < length r \<and> length h = 64 \<and> list_all is_hex h then Some h else None)"

fun asset_match :: "string \<Rightarrow> string option" where
  "asset_match [] = None"
| "asset_match (c # s) = (case asset_here (c # s) of Some h \<Rightarrow> Some h | None \<Rightarrow> asset_match s)"

definition image_hash :: "block \<Rightarrow> string option" where
  "image_hash b =
     (if b_type b = ''image'' then
        (case Option.bind (b_props b) (\<lambda>p. map_of p ''url'') of Some (JStr url) \<Rightarrow> asset_match url | _ \<Rightarrow> None)
      else None)"

fun traverse :: "block list \<Rightarrow> string list" where
  "traverse [] = []"
| "traverse (Block i t p c ch # bs) =
     (case image_hash (Block i t p c ch) of Some h \<Rightarrow> [h] | None \<Rightarrow> []) @
     (case ch of Some cs \<Rightarrow> traverse cs | None \<Rightarrow> []) @ traverse bs"

definition extractAssetHashes :: "block list \<Rightarrow> string list" where
  "extractAssetHashes blocks = js_unique (traverse blocks)"

definition IMAGE_EXTENSIONS :: "string list" where
  "IMAGE_EXTENSIONS = [''.png'', ''.jpg'', ''.jpeg'', ''.gif'', ''.webp'']"

definition isImageFileUrl :: "string \<Rightarrow> bool" where
  "isImageFileUrl url = list_ex (\<lambda>e. startsWith (rev (toLowerCase url)) (rev e)) IMAGE_EXTENSIONS"

definition needsLeadingH1 :: "block list \<Rightarrow> bool" where
  "needsLeadingH1 blocks =
     (case blocks of
        [] \<Rightarrow> True
      | b # _ \<Rightarrow> b_type b \<noteq> ''heading'' \<or> Option.bind (b_props b) (\<lambda>p. map_of p ''level'') \<noteq> Some (JNum 1))"

section \<open>The form\<close>

datatype document_kind = Kind_document | Kind_canvas

record scene =
  elements :: "json list"
  appState :: "(string, json) jsmap option"

record form_data =
  title :: string
  blocks :: "block list"
  tags :: "string list"
  kind :: document_kind
  fscene :: "scene option"
  assets :: "(string, string) jsmap option"

record form_state =
  formData :: form_data
  hasChanges :: bool

definition DEFAULT_FORM_DATA :: form_data where
  "DEFAULT_FORM_DATA = \<lparr> title = [], blocks = [], tags = [], kind = Kind_document, fscene = None, assets = None \<rparr>"

text \<open>An updater returns \<open>None\<close> for the object it was given.\<close>

definition updateFormData :: "(form_data \<Rightarrow> form_data option) \<Rightarrow> form_state \<Rightarrow> form_state" where
  "updateFormData updater s =
     (case updater (formData s) of None \<Rightarrow> s | Some nxt \<Rightarrow> s\<lparr>formData := nxt, hasChanges := True\<rparr>)"

definition setTitle :: "string \<Rightarrow> form_state \<Rightarrow> form_state" where
  "setTitle t = updateFormData (\<lambda>prev. if title prev = t then None else Some (prev\<lparr>title := t\<rparr>))"

definition setBlocks :: "block list \<Rightarrow> form_state \<Rightarrow> form_state" where
  "setBlocks bs = updateFormData (\<lambda>prev. Some (prev\<lparr>blocks := bs, title := extractTitleFromBlocks bs\<rparr>))"

definition setScene :: "scene \<Rightarrow> (string, string) jsmap \<Rightarrow> form_state \<Rightarrow> form_state" where
  "setScene sc as = updateFormData (\<lambda>prev. Some (prev\<lparr>fscene := Some sc, assets := Some as\<rparr>))"

definition removeTag :: "string \<Rightarrow> form_state \<Rightarrow> form_state" where
  "removeTag t = updateFormData (\<lambda>prev. if t \<notin> set (tags prev) then None
     else Some (prev\<lparr>tags := filter (\<lambda>x. x \<noteq> t) (tags prev)\<rparr>))"

definition setTags :: "string list \<Rightarrow> form_state \<Rightarrow> form_state" where
  "setTags ts = updateFormData (\<lambda>prev. if sort (tags prev) = sort ts then None else Some (prev\<lparr>tags := ts\<rparr>))"

definition initializeForm :: "form_data \<Rightarrow> form_state \<Rightarrow> form_state" where
  "initializeForm d s =
     s\<lparr>formData := d\<lparr>title := (if title d \<noteq> [] then title d
          else if kind d = Kind_document then extractTitleFromBlocks (blocks d) else title d)\<rparr>,
       hasChanges := False\<rparr>"

definition resetChanges :: "form_state \<Rightarrow> form_state" where
  "resetChanges s = s\<lparr>hasChanges := False\<rparr>"

section \<open>What is saved\<close>

record save_request =
  sr_path :: string
  sr_projectAlias :: string
  sr_title :: string
  sr_blocks :: "block list"
  sr_tags :: "string list"
  sr_expectedHash :: "string option"
  sr_kind :: document_kind
  sr_scene :: "scene option"
  sr_assets :: "(string, string) jsmap option"

text \<open>A file block that points at an image is upgraded to an image block with its url and caption.\<close>

definition upgrade_block :: "block \<Rightarrow> block" where
  "upgrade_block b =
     (case Option.bind (b_props b) (\<lambda>p. map_of p ''url'') of
        Some (JStr url) \<Rightarrow>
          if b_type b = ''file'' \<and> url \<noteq> [] \<and> isImageFileUrl url then
            (let caption = Option.bind (b_props b) (\<lambda>p. map_of p ''caption'') in
             Block (b_id b) ''image''
               (Some ((''url'', JStr url) # (if truthy caption then [(''caption'', the caption)] else [])))
               (b_content b) (b_children b))
          else b
      | _ \<Rightarrow> b)"

definition save_params :: "string option \<Rightarrow> string \<Rightarrow> string option \<Rightarrow> form_data \<Rightarrow> save_request" where
  "save_params path alias expected f = \<lparr>
     sr_path = (case path of Some p \<Rightarrow> p | None \<Rightarrow> []), sr_projectAlias = alias,
     sr_title = (if title f = [] then ''Untitled'' else title f),
     sr_blocks = (if kind f = Kind_canvas then [] else map upgrade_block (blocks f)),
     sr_tags = tags f, sr_expectedHash = expected, sr_kind = kind f, sr_scene = fscene f, sr_assets = assets f \<rparr>"

definition ORPHAN_CLEANUP_MIN_INTERVAL_MS :: int where
  "ORPHAN_CLEANUP_MIN_INTERVAL_MS = 2 * 60 * 1000"

text \<open>Whether the orphan cleanup runs, and the new value of \<open>lastOrphanCleanupAt\<close>.\<close>

definition orphan_cleanup :: "int \<Rightarrow> int \<Rightarrow> bool \<times> int" where
  "orphan_cleanup now lastOrphanCleanupAt =
     (if now - lastOrphanCleanupAt > ORPHAN_CLEANUP_MIN_INTERVAL_MS then (True, now) else (False, lastOrphanCleanupAt))"

section \<open>The comparison key\<close>

definition PERSISTED_APP_STATE_KEYS :: "string list" where
  "PERSISTED_APP_STATE_KEYS = [''scrollX'', ''scrollY'', ''zoom'', ''viewBackgroundColor'', ''gridSize'', ''gridStep'',
     ''gridModeEnabled'', ''zenModeEnabled'', ''objectsSnapModeEnabled'', ''currentItemStrokeColor'',
     ''currentItemBackgroundColor'', ''currentItemFillStyle'', ''currentItemStrokeWidth'', ''currentItemStrokeStyle'',
     ''currentItemRoughness'', ''currentItemOpacity'', ''currentItemFontFamily'', ''currentItemFontSize'',
     ''currentItemTextAlign'', ''currentItemStartArrowhead'', ''currentItemEndArrowhead'', ''currentItemRoundness'',
     ''currentItemArrowType'']"

record printers =
  stringify :: "nblock list \<Rightarrow> string"
  num_str :: "rat \<Rightarrow> string"
  json_str :: "json \<Rightarrow> string"

definition element_key :: "printers \<Rightarrow> json \<Rightarrow> string" where
  "element_key P el =
     (case get_prop el ''id'' of Some (JStr i) \<Rightarrow> i | _ \<Rightarrow> []) @ '':'' @
     (case get_prop el ''version'' of Some (JNum n) \<Rightarrow> num_str P n | _ \<Rightarrow> ''0'') @ '';''"

definition sceneKey :: "printers \<Rightarrow> form_data \<Rightarrow> string" where
  "sceneKey P f = (case fscene f of None \<Rightarrow> [] | Some sc \<Rightarrow> concat (map (element_key P) (elements sc)))"

definition appStateKey :: "printers \<Rightarrow> form_data \<Rightarrow> string" where
  "appStateKey P f =
     (case Option.bind (fscene f) appState of
        None \<Rightarrow> []
      | Some a \<Rightarrow> concat (map (\<lambda>k. k @ ''='' @ (case map_get a k of Some v \<Rightarrow> json_str P v | None \<Rightarrow> ''undefined'') @ '';'')
          PERSISTED_APP_STATE_KEYS))"

definition assetsKey :: "form_data \<Rightarrow> string" where
  "assetsKey f =
     (case assets f of
        None \<Rightarrow> []
      | Some m \<Rightarrow> join '';'' (map (\<lambda>k. k @ ''='' @ (case map_get m k of Some v \<Rightarrow> v | None \<Rightarrow> [])) (sort (map fst m))))"

definition newline :: string where
  "newline = [CHR 0x0A]"

definition compareKey :: "printers \<Rightarrow> string \<Rightarrow> form_data \<Rightarrow> string" where
  "compareKey P blocksHash f =
     blocksHash @ newline @ title f @ newline @ join '','' (tags f) @ newline @ sceneKey P f @ newline @
     appStateKey P f @ newline @ assetsKey f"

section \<open>A document being edited\<close>

text \<open>\<open>Writing\<close> is a backend save in progress, with the form it was given; \<open>Hashing\<close> is the \<open>getHash\<close> call that
  follows it.  \<open>onDisk\<close> is what the backend last stored.\<close>

datatype save_phase = NoSave | Writing form_data | Hashing

record doc_session =
  form :: form_state
  blocksHash :: string
  pendingHash :: bool
  editor :: auto_save
  errs :: save_errors
  phase :: save_phase
  docLoading :: bool
  editorReady :: bool
  onDisk :: "form_data option"

definition auto_event :: "as_config \<Rightarrow> nat \<Rightarrow> as_event \<Rightarrow> doc_session \<Rightarrow> doc_session" where
  "auto_event cfg me ev s =
     (let (e, st) = as_run cfg me ev (editor s, errs s)
      in s\<lparr>editor := e, errs := st,
           phase := (if \<not> isSavingRef (editor s) \<and> isSavingRef e then Writing (formData (form s)) else phase s)\<rparr>)"

text \<open>A render: the hook gets the comparison key, \<open>enabled: hasChanges && !isLoading\<close> and \<open>isInitialized: isEditorReady\<close>.\<close>

definition render :: "printers \<Rightarrow> as_config \<Rightarrow> nat \<Rightarrow> bool \<Rightarrow> doc_session \<Rightarrow> doc_session" where
  "render P cfg me vchg s =
     auto_event cfg me (Commit (compareKey P (blocksHash s) (formData (form s))) (hasChanges (form s) \<and> \<not> docLoading s)
       (editorReady s) vchg False) s"

definition edit :: "printers \<Rightarrow> as_config \<Rightarrow> nat \<Rightarrow> (form_state \<Rightarrow> form_state) \<Rightarrow> doc_session \<Rightarrow> doc_session" where
  "edit P cfg me f s =
     (let form' = f (form s) in
      render P cfg me (formData form' \<noteq> formData (form s))
        (s\<lparr>form := form', pendingHash := (pendingHash s \<or> blocks (formData form') \<noteq> blocks (formData (form s)))\<rparr>))"

text \<open>The animation frame that computes the hash of the blocks.\<close>

definition hash_frame :: "printers \<Rightarrow> as_config \<Rightarrow> nat \<Rightarrow> doc_session \<Rightarrow> doc_session" where
  "hash_frame P cfg me s =
     (if pendingHash s
      then render P cfg me False
        (s\<lparr>blocksHash := computeContentHash (stringify P) (blocks (formData (form s))), pendingHash := False\<rparr>)
      else s)"

text \<open>\<open>doSave\<close> after the backend stored the document: the dirty flag is reset before the new hash is fetched.\<close>

definition written :: "printers \<Rightarrow> as_config \<Rightarrow> nat \<Rightarrow> doc_session \<Rightarrow> doc_session" where
  "written P cfg me s =
     (case phase s of
        Writing f \<Rightarrow> render P cfg me False (s\<lparr>form := resetChanges (form s), onDisk := Some f, phase := Hashing\<rparr>)
      | _ \<Rightarrow> s)"

definition hash_fetched :: "as_config \<Rightarrow> nat \<Rightarrow> doc_session \<Rightarrow> doc_session" where
  "hash_fetched cfg me s = (case phase s of Hashing \<Rightarrow> auto_event cfg me Resolved (s\<lparr>phase := NoSave\<rparr>) | _ \<Rightarrow> s)"

text \<open>\<open>doSave\<close> after the backend refused: a conflict is reported and swallowed, any other error is thrown on.\<close>

definition write_failed :: "as_config \<Rightarrow> nat \<Rightarrow> string \<Rightarrow> doc_session \<Rightarrow> doc_session" where
  "write_failed cfg me message s =
     (case phase s of
        Writing f \<Rightarrow> auto_event cfg me (if str_includes message ''ERR_CONFLICT'' then Resolved else Thrown message) (s\<lparr>phase := NoSave\<rparr>)
      | _ \<Rightarrow> s)"

definition open_document :: "printers \<Rightarrow> as_config \<Rightarrow> nat \<Rightarrow> form_data \<Rightarrow> save_errors \<Rightarrow> doc_session" where
  "open_document P cfg me f st =
     (let fs = initializeForm f \<lparr> formData = DEFAULT_FORM_DATA, hasChanges = False \<rparr>;
          h = computeContentHash (stringify P) (blocks f)
      in render P cfg me False \<lparr> form = fs, blocksHash = h, pendingHash = False,
           editor = mount (compareKey P h (formData fs)) False False True, errs = st, phase = NoSave, docLoading = False,
           editorReady = True, onDisk = Some (formData fs) \<rparr>)"

section \<open>Loading a document\<close>

text \<open>\<open>awaiting\<close> is the path whose promise the live effect waits for: an effect that was cleaned up is cancelled and
  never looks at its response.  \<open>inflight\<close> are the paths with a pending request, which effects of the same path
  share.  A response is the document, with the path it was requested for, or an error.\<close>

record loader =
  documentPath :: "string option"
  l_data :: "(string \<times> form_data) option"
  l_isLoading :: bool
  l_error :: "string option"
  awaiting :: "string option"
  inflight :: "string list"

definition loadDocumentOnce :: "string \<Rightarrow> string list \<Rightarrow> string list" where
  "loadDocumentOnce path loads = (if path \<in> set loads then loads else loads @ [path])"

text \<open>The effect for a new path, or for a reload of the same one.\<close>

definition load_effect :: "string option \<Rightarrow> loader \<Rightarrow> loader" where
  "load_effect path l =
     (case path of
        None \<Rightarrow> l\<lparr>documentPath := path, l_data := None, l_isLoading := False, l_error := None, awaiting := None\<rparr>
      | Some p \<Rightarrow>
          if p = [] then l\<lparr>documentPath := path, l_data := None, l_isLoading := False, l_error := None, awaiting := None\<rparr>
          else
            l\<lparr>documentPath := path, l_data := (if documentPath l \<noteq> path then None else l_data l), l_isLoading := True,
              l_error := None, awaiting := Some p, inflight := loadDocumentOnce p (inflight l)\<rparr>)"

definition load_settled :: "string \<Rightarrow> string + form_data \<Rightarrow> loader \<Rightarrow> loader" where
  "load_settled p result l =
     (if p \<notin> set (inflight l) then l
      else
        let l1 = l\<lparr>inflight := filter (\<lambda>q. q \<noteq> p) (inflight l)\<rparr> in
        if awaiting l \<noteq> Some p then l1
        else (case result of
            Inl message \<Rightarrow> l1\<lparr>l_error := Some message, l_isLoading := False, awaiting := None\<rparr>
          | Inr d \<Rightarrow> l1\<lparr>l_data := Some (p, d), l_isLoading := False, awaiting := None\<rparr>))"

inductive load_reach :: "loader \<Rightarrow> bool" where
  mounted: "load_reach (load_effect path \<lparr> documentPath = path, l_data = None, l_isLoading = False, l_error = None,
    awaiting = None, inflight = loads \<rparr>)"
| changed: "load_reach l \<Longrightarrow> load_reach (load_effect path l)"
| settled: "load_reach l \<Longrightarrow> load_reach (load_settled p result l)"
| shared: "load_reach l \<Longrightarrow> load_reach (l\<lparr>inflight := inflight l @ [p]\<rparr>)"

section \<open>Lemmas on sessions\<close>

lemma sync_no_errors [simp]: "sync_dirty me old (s, no_errors) = (s, no_errors)"
  by (simp add: sync_dirty_def setDirtyError_def no_errors_def)

lemma clear_no_errors [simp]: "clearError me no_errors = no_errors"
  by (simp add: clearError_def no_errors_def map_has_def)

lemma compareKey_title: "compareKey P h (f\<lparr>title := a\<rparr>) = compareKey P h (f\<lparr>title := b\<rparr>) \<longleftrightarrow> a = b"
  by (simp add: compareKey_def sceneKey_def appStateKey_def assetsKey_def)

lemma compareKey_title_self: "compareKey P h (f\<lparr>title := a\<rparr>) = compareKey P h f \<longleftrightarrow> a = title f"
  using compareKey_title [of P h a f "title f"] by simp

text \<open>The hook of an editor whose last saved key is \<open>k0\<close>: nothing is running or scheduled.\<close>

definition settled :: "string \<Rightarrow> auto_save \<Rightarrow> bool" where
  "settled k0 e \<longleftrightarrow> currentKeyRef e = k0 \<and> lastSavedKeyRef e = k0 \<and> initialKeyRef e = k0 \<and> \<not> hasUnsavedChanges e \<and>
     \<not> timeoutRef e \<and> flight e = None \<and> retryTimeoutRef e = None \<and> \<not> enabledRef e \<and> isInitialized e \<and>
     prevIsInitializedRef e \<and> mounted e"

lemma open_settled:
  "settled (compareKey P (computeContentHash (stringify P) (blocks f)) (formData (form (open_document P cfg me f no_errors))))
     (editor (open_document P cfg me f no_errors))"
  by (simp add: settled_def open_document_def render_def auto_event_def as_run_def Let_def mount_def commit_def init_effect_def
      value_effect_def initial_auto_save_def initializeForm_def)

lemma commit_edit:
  assumes "settled k0 e" "k \<noteq> k0"
  shows "let e' = commit k True True True False e in
    currentKeyRef e' = k \<and> lastSavedKeyRef e' = k0 \<and> hasUnsavedChanges e' \<and> timeoutRef e' \<and> flight e' = None \<and>
    retryTimeoutRef e' = None \<and> enabledRef e' \<and> isInitialized e' \<and> prevIsInitializedRef e' \<and> mounted e'"
  using assms by (simp add: settled_def commit_def init_effect_def value_effect_def Let_def)

lemma commit_edit_saving:
  assumes "flight e = Some (k1, n)" "isInitialized e" "prevIsInitializedRef e"
  shows "let e' = commit k True True True False e in
    currentKeyRef e' = k \<and> \<not> timeoutRef e' = (\<not> timeoutRef e \<or> effect_cleanup e) \<and> flight e' = Some (k1, n) \<and>
    retryTimeoutRef e' = retryTimeoutRef e \<and> enabledRef e' \<and> isInitialized e' \<and> prevIsInitializedRef e' \<and>
    mounted e' = mounted e \<and> \<not> effect_cleanup e'"
  using assms by (auto simp: commit_def init_effect_def value_effect_def Let_def)

lemma commit_disable:
  assumes "isInitialized e" "prevIsInitializedRef e" "enabledRef e" "\<not> effect_cleanup e"
  shows "let e' = commit (currentKeyRef e) False True False False e in
    currentKeyRef e' = currentKeyRef e \<and> timeoutRef e' = timeoutRef e \<and> flight e' = flight e \<and>
    retryTimeoutRef e' = retryTimeoutRef e \<and> \<not> enabledRef e' \<and> mounted e' = mounted e"
  using assms by (simp add: commit_def value_effect_def Let_def)

text \<open>One step of the session at a time.\<close>

lemma title_edit:
  assumes "errs s = no_errors" "mounted (editor s)" "t \<noteq> title (formData (form s))"
    "e' = commit (compareKey P (blocksHash s) ((formData (form s))\<lparr>title := t\<rparr>)) (\<not> docLoading s) (editorReady s) True False (editor s)"
  shows "edit P cfg me (setTitle t) s = s\<lparr>form := \<lparr> formData = (formData (form s))\<lparr>title := t\<rparr>, hasChanges = True \<rparr>, editor := e'\<rparr>"
proof -
  have "formData (form s) \<noteq> (formData (form s))\<lparr>title := t\<rparr>" using assms(3) by (metis form_data.select_convs(1) form_data.surjective form_data.update_convs(1))
  with assms show ?thesis
    by (cases s; cases "form s"; cases "flight (editor s)")
       (auto simp: edit_def setTitle_def updateFormData_def render_def auto_event_def as_run_def Let_def)
qed

lemma timer_starts_save:
  assumes "errs s = no_errors" "timeoutRef (editor s)" "flight (editor s) = None"
  shows "auto_event cfg me TimerFires s =
    s\<lparr>editor := (performSave 0 (editor s))\<lparr>timeoutRef := False\<rparr>, phase := Writing (formData (form s))\<rparr>"
  using assms by (simp add: auto_event_def as_run_def timer_fires_def performSave_def)

lemma written_step:
  assumes "errs s = no_errors" "mounted (editor s)" "phase s = Writing f"
    "e' = commit (compareKey P (blocksHash s) (formData (form s))) False (editorReady s) False False (editor s)"
    "isSavingRef (editor s)"
  shows "written P cfg me s = s\<lparr>form := (form s)\<lparr>hasChanges := False\<rparr>, onDisk := Some f, phase := Hashing, editor := e'\<rparr>"
  using assms by (simp add: written_def render_def auto_event_def as_run_def resetChanges_def)

lemma hash_fetched_disabled:
  assumes "errs s = no_errors" "phase s = Hashing" "flight (editor s) = Some (k, n)" "\<not> enabledRef (editor s)"
  shows "hash_fetched cfg me s = s\<lparr>phase := NoSave, editor := (editor s)\<lparr>lastSavedKeyRef := k, saveState := Saved,
      retryCountRef := 0, savedStateTimeoutRef := True, flight := None, hasUnsavedChanges := False\<rparr>\<rparr>"
  using assms by (simp add: hash_fetched_def auto_event_def as_run_def save_resolved_def Let_def)

lemma open_fields [simp]:
  "errs (open_document P cfg me f no_errors) = no_errors" "phase (open_document P cfg me f no_errors) = NoSave"
  "docLoading (open_document P cfg me f no_errors) = False" "editorReady (open_document P cfg me f no_errors) = True"
  "blocksHash (open_document P cfg me f no_errors) = computeContentHash (stringify P) (blocks f)"
  by (simp_all add: open_document_def render_def auto_event_def as_run_def Let_def mount_def initial_auto_save_def)

text \<open>The title is edited once and the timer starts a save.\<close>

lemma saving_session:
  assumes "s0 = open_document P cfg me f no_errors" "t1 \<noteq> title (formData (form s0))"
    "s2 = auto_event cfg me TimerFires (edit P cfg me (setTitle t1) s0)"
  shows "errs s2 = no_errors" "form s2 = \<lparr> formData = (formData (form s0))\<lparr>title := t1\<rparr>, hasChanges = True \<rparr>"
    "phase s2 = Writing ((formData (form s0))\<lparr>title := t1\<rparr>)" "docLoading s2 = False" "editorReady s2"
    "blocksHash s2 = blocksHash s0" "flight (editor s2) = Some (compareKey P (blocksHash s0) ((formData (form s0))\<lparr>title := t1\<rparr>), 0)"
    "\<not> timeoutRef (editor s2)" "retryTimeoutRef (editor s2) = None" "isInitialized (editor s2)" "prevIsInitializedRef (editor s2)"
    "mounted (editor s2)"
proof -
  let ?new = "compareKey P (blocksHash s0) ((formData (form s0))\<lparr>title := t1\<rparr>)"
  let ?old = "compareKey P (blocksHash s0) (formData (form s0))"
  have set0: "settled ?old (editor s0)" using open_settled [of P f cfg me] assms(1) by simp
  have ne: "?new \<noteq> ?old" using assms(2) by (simp only: compareKey_title_self not_False_eq_True)
  define e1 where "e1 = commit ?new True True True False (editor s0)"
  note f1 = commit_edit [OF set0 ne, folded e1_def, unfolded Let_def]
  have s1: "edit P cfg me (setTitle t1) s0 = s0\<lparr>form := \<lparr> formData = (formData (form s0))\<lparr>title := t1\<rparr>, hasChanges = True \<rparr>, editor := e1\<rparr>"
    using set0 assms(1,2) by (intro title_edit) (simp_all add: e1_def settled_def)
  have s2: "s2 = s0\<lparr>form := \<lparr> formData = (formData (form s0))\<lparr>title := t1\<rparr>, hasChanges = True \<rparr>,
      editor := (performSave 0 e1)\<lparr>timeoutRef := False\<rparr>, phase := Writing ((formData (form s0))\<lparr>title := t1\<rparr>)\<rparr>"
    unfolding assms(3) s1 using f1 assms(1) by (subst timer_starts_save) simp_all
  show "errs s2 = no_errors" "form s2 = \<lparr> formData = (formData (form s0))\<lparr>title := t1\<rparr>, hasChanges = True \<rparr>"
    "phase s2 = Writing ((formData (form s0))\<lparr>title := t1\<rparr>)" "docLoading s2 = False" "editorReady s2"
    "blocksHash s2 = blocksHash s0" "flight (editor s2) = Some (?new, 0)"
    "\<not> timeoutRef (editor s2)" "retryTimeoutRef (editor s2) = None" "isInitialized (editor s2)" "prevIsInitializedRef (editor s2)"
    "mounted (editor s2)"
    unfolding s2 using f1 assms(1) by (simp_all add: performSave_def)
qed

section \<open>Properties\<close>

text \<open>C12. An edit made while a save is running is lost: whatever the document, when the title is changed again while
  the backend stores the previous change, then after the backend has finished the form holds the newest title and the
  disk the previous one, yet the editor shows no unsaved changes, nothing is scheduled, running or reported as an
  error, and flushing on quit does nothing.\<close>

theorem edit_during_save_lost:
  assumes "s0 = open_document P cfg me f no_errors" "t1 \<noteq> title (formData (form s0))" "t2 \<noteq> t1"
    "s2 = auto_event cfg me TimerFires (edit P cfg me (setTitle t1) s0)"
    "s = hash_fetched cfg me (written P cfg me (edit P cfg me (setTitle t2) s2))"
  shows "title (formData (form s)) = t2 \<and> map_option title (onDisk s) = Some t1 \<and> \<not> hasUnsavedChanges (editor s) \<and>
    \<not> timeoutRef (editor s) \<and> \<not> isSavingRef (editor s) \<and> retryTimeoutRef (editor s) = None \<and>
    errs s = no_errors \<and> flushAllDirty [editor s] = [editor s]"
proof -
  note f2 = saving_session [OF assms(1,2,4)]
  let ?newest = "(formData (form s0))\<lparr>title := t2\<rparr>"
  let ?saved = "compareKey P (blocksHash s0) ((formData (form s0))\<lparr>title := t1\<rparr>)"
  define e3 where "e3 = commit (compareKey P (blocksHash s0) ?newest) True True True False (editor s2)"
  note f3 = commit_edit_saving [OF f2(7,10,11), of "compareKey P (blocksHash s0) ?newest", folded e3_def, unfolded Let_def]
  have s3: "edit P cfg me (setTitle t2) s2 = s2\<lparr>form := \<lparr> formData = ?newest, hasChanges = True \<rparr>, editor := e3\<rparr>"
    using title_edit [of s2 t2 e3 P cfg me] f2 assms(3) by (simp add: e3_def)
  define e4 where "e4 = commit (compareKey P (blocksHash s0) ?newest) False True False False e3"
  have f4: "flight e4 = Some (?saved, 0)" "\<not> enabledRef e4" "\<not> timeoutRef e4" "retryTimeoutRef e4 = None"
    using commit_disable [of e3] f3 f2(8,9) by (simp_all add: e4_def Let_def)
  have s4: "written P cfg me (edit P cfg me (setTitle t2) s2) = s2\<lparr>form := \<lparr> formData = ?newest, hasChanges = False \<rparr>,
      onDisk := Some ((formData (form s0))\<lparr>title := t1\<rparr>), phase := Hashing, editor := e4\<rparr>"
    unfolding s3 using f2 f3 by (subst written_step [where e' = e4]) (simp_all add: e4_def)
  have "s = s2\<lparr>form := \<lparr> formData = ?newest, hasChanges = False \<rparr>, onDisk := Some ((formData (form s0))\<lparr>title := t1\<rparr>),
      phase := NoSave, editor := e4\<lparr>lastSavedKeyRef := ?saved, saveState := Saved,
      retryCountRef := 0, savedStateTimeoutRef := True, flight := None, hasUnsavedChanges := False\<rparr>\<rparr>"
    unfolding assms(5) s4 using f2(1) f4 by (subst hash_fetched_disabled) simp_all
  then show ?thesis using f2(1) f4 by (simp add: flushAllDirty_def)
qed

lemma load_reach_inv:
  "load_reach l \<Longrightarrow> (\<forall>p d. l_data l = Some (p, d) \<longrightarrow> documentPath l = Some p) \<and>
     (awaiting l \<noteq> None \<longrightarrow> documentPath l = awaiting l) \<and> l_isLoading l = (awaiting l \<noteq> None) \<and>
     (\<forall>p. awaiting l = Some p \<longrightarrow> p \<in> set (inflight l))"
proof (induction rule: load_reach.induct)
  case (settled l p result)
  show ?case
  proof (cases "p \<in> set (inflight l) \<and> awaiting l = Some p")
    case True
    with settled.IH show ?thesis by (cases result) (auto simp: load_settled_def Let_def)
  next
    case False
    with settled.IH show ?thesis by (auto simp: load_settled_def Let_def)
  qed
qed (auto simp: load_effect_def loadDocumentOnce_def split: option.splits if_splits)

text \<open>C36. A stale response is never shown: in every order of path changes, reloads, responses and requests of other
  panes, a document the loader shows was requested for the current path, and the loading flag is set exactly while a
  request for the current path is outstanding.\<close>

theorem loader_shows_current:
  assumes "load_reach l"
  shows "(\<forall>p d. l_data l = Some (p, d) \<longrightarrow> documentPath l = Some p) \<and>
    (l_isLoading l \<longleftrightarrow> (\<exists>p. awaiting l = Some p \<and> documentPath l = Some p \<and> p \<in> set (inflight l)))"
  using load_reach_inv [OF assms] by auto

section \<open>Lemmas on blocks\<close>

fun all_blocks :: "block list \<Rightarrow> block list" where
  "all_blocks [] = []"
| "all_blocks (Block i t p c ch # bs) =
     Block i t p c ch # (case ch of Some cs \<Rightarrow> all_blocks cs | None \<Rightarrow> []) @ all_blocks bs"

lemma set_traverse: "set (traverse bs) = {h. \<exists>b\<in>set (all_blocks bs). image_hash b = Some h}"
  by (induction bs rule: traverse.induct) (auto split: option.splits)

lemma asset_here_hex: "asset_here s = Some h \<Longrightarrow> length h = 64 \<and> list_all is_hex h"
  by (auto simp: asset_here_def Let_def split: if_splits)

lemma asset_match_hex: "asset_match s = Some h \<Longrightarrow> length h = 64 \<and> list_all is_hex h"
  by (induction s) (auto dest: asset_here_hex split: option.splits)

lemma image_hash_hex: "image_hash b = Some h \<Longrightarrow> length h = 64 \<and> list_all is_hex h"
  by (auto simp: image_hash_def dest: asset_match_hex split: if_splits option.splits json.splits)

text \<open>The asset hashes of a document are those of its image blocks at any depth, each once, and each is a
  string of 64 lower-case hexadecimal digits.\<close>

theorem extractAssetHashes_correct:
  "distinct (extractAssetHashes bs) \<and>
   set (extractAssetHashes bs) = {h. \<exists>b. b \<in> set (all_blocks bs) \<and> image_hash b = Some h} \<and>
   list_all (\<lambda>h. length h = 64 \<and> list_all is_hex h) (extractAssetHashes bs)"
  using image_hash_hex by (auto simp: extractAssetHashes_def set_traverse list_all_iff)

text \<open>A title is never empty and at most 203 characters long, and a document without a leading first-level
  heading is untitled.\<close>

theorem title_bounds:
  "0 < length (extractTitleFromBlocks bs) \<and> length (extractTitleFromBlocks bs) \<le> 203 \<and>
    (needsLeadingH1 bs \<longrightarrow> extractTitleFromBlocks bs = ''Untitled'')"
  by (cases bs) (auto simp: extractTitleFromBlocks_def needsLeadingH1_def Let_def)

text \<open>Hydration by the editor, which fills in cosmetic defaults and empty children, is no change of content.\<close>

lemma normalizeProps_default:
  "map_get DEFAULT_PROP_VALUES k = Some v \<Longrightarrow> normalizeProps (Some (m @ [(k, v)])) = normalizeProps (Some m)"
  "normalizeProps (Some []) = normalizeProps None"
  by (simp_all add: normalizeProps_def)

lemma hash_hydrated:
  assumes "map_get DEFAULT_PROP_VALUES k = Some v"
  shows "computeContentHash st (Block i t (Some (m @ [(k, v)])) c (Some []) # bs) = computeContentHash st (Block j t (Some m) c None # bs)"
  using assms by (simp add: computeContentHash_def normalizeProps_default)

section \<open>Examples\<close>

definition sample_printers :: printers where
  "sample_printers = \<lparr> stringify = (\<lambda>bs. nat_str (length bs)), num_str = (\<lambda>_. ''1''), json_str = (\<lambda>_. ''{}'') \<rparr>"

definition sample_document :: doc_session where
  "sample_document = open_document sample_printers default_as_config 0 (DEFAULT_FORM_DATA\<lparr>title := ''a''\<rparr>) no_errors"

definition sample_saving :: doc_session where
  "sample_saving = auto_event default_as_config 0 TimerFires (edit sample_printers default_as_config 0 (setTitle ''b'') sample_document)"

definition sample_lost :: doc_session where
  "sample_lost = hash_fetched default_as_config 0 (written sample_printers default_as_config 0
     (edit sample_printers default_as_config 0 (setTitle ''c'') sample_saving))"

lemma sample_document_title: "title (formData (form sample_document)) = ''a''"
  by (simp add: sample_document_def open_document_def render_def auto_event_def as_run_def Let_def mount_def initial_auto_save_def
      initializeForm_def)

theorem edit_during_save_lost_witness:
  "title (formData (form sample_lost)) = ''c'' \<and> map_option title (onDisk sample_lost) = Some ''b'' \<and>
    \<not> hasUnsavedChanges (editor sample_lost)"
  using edit_during_save_lost [OF sample_document_def, of "''b''" "''c''" sample_saving sample_lost] sample_document_title
  by (simp add: sample_saving_def sample_lost_def)

definition sample_loader :: loader where
  "sample_loader = load_settled ''x'' (Inr DEFAULT_FORM_DATA) (load_effect (Some ''x'')
     \<lparr> documentPath = Some ''x'', l_data = None, l_isLoading = False, l_error = None, awaiting = None, inflight = [] \<rparr>)"

theorem loader_shows_current_witness:
  "l_data sample_loader = Some (''x'', DEFAULT_FORM_DATA) \<and> documentPath sample_loader = Some ''x''"
proof -
  have "load_reach sample_loader" unfolding sample_loader_def by (intro load_reach.settled load_reach.mounted)
  moreover have "l_data sample_loader = Some (''x'', DEFAULT_FORM_DATA)"
    by (simp add: sample_loader_def load_settled_def load_effect_def loadDocumentOnce_def Let_def)
  ultimately show ?thesis using loader_shows_current [of sample_loader] by simp
qed

definition sample_heading :: block where
  "sample_heading = Block ''1'' ''heading'' (Some [(''level'', JNum 1)]) (Some [JObj [(''text'', JStr '' Plan '')]]) None"

lemma sample_title: "extractTitleFromBlocks [sample_heading] = ''Plan''"
  by code_simp

theorem title_bounds_witness:
  "extractTitleFromBlocks [] = ''Untitled'' \<and> extractTitleFromBlocks [sample_heading] = ''Plan''"
  using title_bounds [of "[]"] sample_title by (simp add: needsLeadingH1_def)

end
