(* ===== verification/Find_Replace.thy ===== *)
theory Find_Replace
  imports JS_Text
begin

text \<open>
  Find and replace in a document: \<open>editor/find/findMatches.ts\<close>, \<open>replace.ts\<close>, \<open>findPlugin.ts\<close> and the actions of
  \<open>useEditorFind.ts\<close>.  A ProseMirror document is a tree of text, inline atoms and nodes; positions count the
  tokens of its content, that is characters, atoms and the opening and closing of nodes.  Changing a document is
  ProseMirror's work: \<open>insertText\<close> is a parameter, and \<open>replaces_range\<close> is what its documentation promises.
\<close>

section \<open>Documents\<close>

datatype pm_node = PText string | PAtom | PNode bool "pm_node list"

datatype token = Ch char | AtomTok | Open bool | Close

fun tokens :: "pm_node \<Rightarrow> token list" where
  "tokens (PText s) = map Ch s"
| "tokens PAtom = [AtomTok]"
| "tokens (PNode tb cs) = Open tb # concat (map tokens cs) @ [Close]"

fun nodeSize :: "pm_node \<Rightarrow> nat" where
  "nodeSize (PText s) = length s"
| "nodeSize PAtom = 1"
| "nodeSize (PNode tb cs) = 2 + sum_list (map nodeSize cs)"

section \<open>Finding\<close>

record find_match =
  m_from :: nat
  m_to :: nat

record text_segment =
  startIdx :: nat
  basePos :: nat

definition mapIndexToPos :: "nat \<Rightarrow> text_segment list \<Rightarrow> nat" where
  "mapIndexToPos idx segments =
     (case List.find (\<lambda>seg. idx \<ge> startIdx seg) (rev segments) of
        Some seg \<Rightarrow> basePos seg + (idx - startIdx seg)
      | None \<Rightarrow> 0)"

definition indexOf_from :: "string \<Rightarrow> string \<Rightarrow> nat \<Rightarrow> nat option" where
  "indexOf_from hay needle start = map_option (\<lambda>i. start + i) (indexOf (drop start hay) needle)"

text \<open>The \<open>while\<close> loop; on an empty needle it would never end.\<close>

partial_function (option) match_loop :: "string \<Rightarrow> string \<Rightarrow> nat option \<Rightarrow> nat list option" where
  "match_loop hay needle idx =
     (case idx of
        None \<Rightarrow> Some []
      | Some i \<Rightarrow>
          Option.bind (match_loop hay needle (indexOf_from hay needle (i + length needle))) (\<lambda>rest. Some (i # rest)))"

declare match_loop.simps [code]

definition flush :: "bool \<Rightarrow> string \<Rightarrow> string \<Rightarrow> text_segment list \<Rightarrow> find_match list option" where
  "flush caseSensitive needle text segments =
     (if length text \<ge> length needle then
        (let hay = (if caseSensitive then text else toLowerCase text) in
         Option.bind (match_loop hay needle (indexOf hay needle))
           (\<lambda>is. Some (map (\<lambda>i. \<lparr> m_from = mapIndexToPos i segments, m_to = mapIndexToPos (i + length needle) segments \<rparr>) is)))
      else Some [])"

text \<open>The children of a textblock from the position \<open>ofs\<close> on; anything but a non-empty text node ends the run.\<close>

fun scan_block ::
  "bool \<Rightarrow> string \<Rightarrow> nat \<Rightarrow> pm_node list \<Rightarrow> string \<Rightarrow> text_segment list \<Rightarrow> find_match list option" where
  "scan_block cs needle ofs [] text segments = flush cs needle text segments"
| "scan_block cs needle ofs (PText t # rest) text segments =
     (if t \<noteq> [] then
        scan_block cs needle (ofs + nodeSize (PText t)) rest (text @ t)
          (segments @ [\<lparr> startIdx = length text, basePos = ofs \<rparr>])
      else
        Option.bind (flush cs needle text segments) (\<lambda>ms.
        Option.bind (scan_block cs needle (ofs + nodeSize (PText t)) rest [] []) (\<lambda>ms'. Some (ms @ ms'))))"
| "scan_block cs needle ofs (child # rest) text segments =
     Option.bind (flush cs needle text segments) (\<lambda>ms.
     Option.bind (scan_block cs needle (ofs + nodeSize child) rest [] []) (\<lambda>ms'. Some (ms @ ms')))"

text \<open>\<open>doc.descendants\<close>: textblocks are searched, other nodes are descended into.\<close>

fun descend :: "bool \<Rightarrow> string \<Rightarrow> nat \<Rightarrow> pm_node list \<Rightarrow> find_match list option" where
  "descend cs needle pos [] = Some []"
| "descend cs needle pos (PNode tb kids # rest) =
     Option.bind (if tb then scan_block cs needle (pos + 1) kids [] [] else descend cs needle (pos + 1) kids) (\<lambda>ms.
     Option.bind (descend cs needle (pos + nodeSize (PNode tb kids)) rest) (\<lambda>ms'. Some (ms @ ms')))"
| "descend cs needle pos (child # rest) = descend cs needle (pos + nodeSize child) rest"

definition findMatches :: "pm_node list \<Rightarrow> string \<Rightarrow> bool option \<Rightarrow> find_match list option" where
  "findMatches doc query caseSensitive =
     (if query = [] then Some []
      else
        let cs = (case caseSensitive of Some b \<Rightarrow> b | None \<Rightarrow> False)
        in descend cs (if cs then query else toLowerCase query) 0 doc)"

section \<open>Replacing\<close>

type_synonym 'd insert_text = "string \<Rightarrow> nat \<Rightarrow> nat \<Rightarrow> 'd \<Rightarrow> 'd"

definition applyReplaceOne :: "'d insert_text \<Rightarrow> 'd \<Rightarrow> find_match \<Rightarrow> string \<Rightarrow> 'd" where
  "applyReplaceOne insertText tr m replacement = insertText replacement (m_from m) (m_to m) tr"

definition applyReplaceAll :: "'d insert_text \<Rightarrow> 'd \<Rightarrow> find_match list \<Rightarrow> string \<Rightarrow> 'd" where
  "applyReplaceAll insertText tr matches replacement =
     fold (\<lambda>m tr. insertText replacement (m_from m) (m_to m) tr) (rev matches) tr"

section \<open>The plugin state\<close>

record find_state =
  fquery :: string
  fcaseSensitive :: bool
  fmatches :: "find_match list"
  activeIndex :: int

definition EMPTY_STATE :: find_state where
  "EMPTY_STATE = \<lparr> fquery = [], fcaseSensitive = False, fmatches = [], activeIndex = -1 \<rparr>"

text \<open>The remainder of JavaScript has the sign of the dividend.\<close>

definition js_rem :: "int \<Rightarrow> int \<Rightarrow> int" where
  "js_rem a b = (if a < 0 then - ((- a) mod b) else a mod b)"

definition wrapIndex :: "int \<Rightarrow> nat \<Rightarrow> int" where
  "wrapIndex index len = (if len = 0 then -1 else js_rem (js_rem index (int len) + int len) (int len))"

definition computeState :: "pm_node list \<Rightarrow> string \<Rightarrow> bool \<Rightarrow> int \<Rightarrow> find_state option" where
  "computeState doc query cs preferredIndex =
     Option.bind (if query \<noteq> [] then findMatches doc query (Some cs) else Some []) (\<lambda>ms.
       Some \<lparr> fquery = query, fcaseSensitive = cs, fmatches = ms, activeIndex = wrapIndex preferredIndex (length ms) \<rparr>)"

record find_meta =
  meta_query :: "string option"
  meta_caseSensitive :: "bool option"
  meta_activeIndex :: "int option"

definition or_else :: "'a option \<Rightarrow> 'a \<Rightarrow> 'a" where
  "or_else x d = (case x of Some v \<Rightarrow> v | None \<Rightarrow> d)"

text \<open>\<open>apply\<close> for a transaction with the given meta that leads to the document \<open>doc\<close>.\<close>

definition find_apply :: "pm_node list \<Rightarrow> bool \<Rightarrow> find_meta option \<Rightarrow> find_state \<Rightarrow> find_state option" where
  "find_apply doc docChanged meta prev =
     (case meta of
        Some m \<Rightarrow>
          (case (meta_activeIndex m, meta_query m, meta_caseSensitive m) of
             (Some i, None, None) \<Rightarrow> Some (prev\<lparr>activeIndex := wrapIndex i (length (fmatches prev))\<rparr>)
           | _ \<Rightarrow> computeState doc (or_else (meta_query m) (fquery prev)) (or_else (meta_caseSensitive m) (fcaseSensitive prev))
               (or_else (meta_activeIndex m) 0))
      | None \<Rightarrow>
          if docChanged \<and> fquery prev \<noteq> [] then computeState doc (fquery prev) (fcaseSensitive prev) (activeIndex prev)
          else Some prev)"

text \<open>The actions of the find bar: the meta each of them dispatches.\<close>

definition setQuery :: "string \<Rightarrow> find_meta" where
  "setQuery q = \<lparr> meta_query = Some q, meta_caseSensitive = None, meta_activeIndex = Some 0 \<rparr>"

definition toggleCaseSensitive :: "bool \<Rightarrow> find_meta" where
  "toggleCaseSensitive prev = \<lparr> meta_query = None, meta_caseSensitive = Some (\<not> prev), meta_activeIndex = Some 0 \<rparr>"

definition step_find :: "int \<Rightarrow> find_state \<Rightarrow> find_meta" where
  "step_find delta s = \<lparr> meta_query = None, meta_caseSensitive = None, meta_activeIndex = Some (activeIndex s + delta) \<rparr>"

definition replaceCurrent :: "pm_node list insert_text \<Rightarrow> pm_node list \<Rightarrow> string \<Rightarrow> find_state
    \<Rightarrow> (pm_node list \<times> find_state) option" where
  "replaceCurrent insertText doc replaceValue s =
     (if activeIndex s < 0 \<or> nat (activeIndex s) \<ge> length (fmatches s) then Some (doc, s)
      else
        let targetIndex = activeIndex s;
            doc' = applyReplaceOne insertText doc (fmatches s ! nat targetIndex) replaceValue
        in case find_apply doc' True None s of
             None \<Rightarrow> None
           | Some s1 \<Rightarrow>
               (case find_apply doc' False (Some \<lparr> meta_query = None, meta_caseSensitive = None, meta_activeIndex = Some targetIndex \<rparr>) s1 of
                  None \<Rightarrow> None
                | Some s2 \<Rightarrow> Some (doc', s2)))"

definition replaceAll :: "pm_node list insert_text \<Rightarrow> pm_node list \<Rightarrow> string \<Rightarrow> find_state
    \<Rightarrow> (pm_node list \<times> find_state) option" where
  "replaceAll insertText doc replaceValue s =
     (if fmatches s = [] then Some (doc, s)
      else
        let doc' = applyReplaceAll insertText doc (fmatches s) replaceValue
        in case find_apply doc' True None s of None \<Rightarrow> None | Some s1 \<Rightarrow> Some (doc', s1))"

section \<open>Occurrences in a string\<close>

definition occ :: "string \<Rightarrow> string \<Rightarrow> nat \<Rightarrow> bool" where
  "occ hay needle i \<longleftrightarrow> i + length needle \<le> length hay \<and> take (length needle) (drop i hay) = needle"

lemma occ_startsWith: "needle \<noteq> [] \<Longrightarrow> occ hay needle i \<longleftrightarrow> startsWith (drop i hay) needle"
proof
  assume "needle \<noteq> []" "startsWith (drop i hay) needle"
  then obtain r where r: "drop i hay = needle @ r" by (auto simp: startsWith_iff)
  with \<open>needle \<noteq> []\<close> have "i < length hay" by (metis append_is_Nil_conv drop_eq_Nil linorder_not_less)
  moreover have "length hay - i = length needle + length r" using r by (metis length_append length_drop)
  ultimately show "occ hay needle i" using r by (simp add: occ_def)
next
  assume "occ hay needle i"
  then show "startsWith (drop i hay) needle" by (metis append_take_drop_id occ_def startsWith_iff)
qed

lemma indexOf_from_Some:
  assumes "needle \<noteq> []" "indexOf_from hay needle s = Some i"
  shows "s \<le> i \<and> occ hay needle i \<and> (\<forall>j. s \<le> j \<and> j < i \<longrightarrow> \<not> occ hay needle j)"
proof -
  from assms(2) obtain k where k: "indexOf (drop s hay) needle = Some k" "i = s + k" by (auto simp: indexOf_from_def)
  obtain pre post where p: "drop s hay = pre @ needle @ post" "length pre = k" using indexOf_Some [OF k(1)] by auto
  have "startsWith (drop k (drop s hay)) needle" using p by (auto simp: startsWith_iff)
  then have "occ hay needle i" using k(2) occ_startsWith [OF assms(1), of hay i] by (simp add: add.commute)
  moreover have "\<not> occ hay needle j" if "s \<le> j" "j < i" for j
  proof -
    have "\<not> startsWith (drop (j - s) (drop s hay)) needle" using indexOf_first [OF k(1), of "j - s"] that k(2) by simp
    then show ?thesis using that(1) occ_startsWith [OF assms(1), of hay j] by simp
  qed
  ultimately show ?thesis using k(2) by simp
qed

lemma indexOf_from_None:
  assumes "needle \<noteq> []" "indexOf_from hay needle s = None" "s \<le> j"
  shows "\<not> occ hay needle j"
proof
  assume "occ hay needle j"
  then obtain r where "drop j hay = needle @ r" using occ_startsWith [OF assms(1), of hay j] by (auto simp: startsWith_iff)
  then have "drop s hay = take (j - s) (drop s hay) @ needle @ r"
    using assms(3) append_take_drop_id [of "j - s" "drop s hay"] by simp
  with assms(2) show False unfolding indexOf_from_def by (auto simp: indexOf_None)
qed

text \<open>Left to right, without overlaps, and with no occurrence in between.\<close>

fun chain :: "string \<Rightarrow> string \<Rightarrow> nat \<Rightarrow> nat list \<Rightarrow> bool" where
  "chain hay needle lo [] = (\<forall>j\<ge>lo. \<not> occ hay needle j)"
| "chain hay needle lo (i # is) \<longleftrightarrow>
     lo \<le> i \<and> occ hay needle i \<and> (\<forall>j. lo \<le> j \<and> j < i \<longrightarrow> \<not> occ hay needle j) \<and> chain hay needle (i + length needle) is"

lemma match_loop_chain:
  assumes "needle \<noteq> []"
  shows "\<exists>is. match_loop hay needle (indexOf_from hay needle s) = Some is \<and> chain hay needle s is"
proof (induction "length hay - s" arbitrary: s rule: less_induct)
  case less
  show ?case
  proof (cases "indexOf_from hay needle s")
    case None
    then show ?thesis using indexOf_from_None [OF assms] by (simp add: match_loop.simps)
  next
    case (Some i)
    note i = indexOf_from_Some [OF assms Some]
    then have "i + length needle \<le> length hay" by (simp add: occ_def)
    with assms i have "length hay - (i + length needle) < length hay - s" by (cases needle) auto
    from less [OF this] obtain "is" where
      "match_loop hay needle (indexOf_from hay needle (i + length needle)) = Some is" "chain hay needle (i + length needle) is"
      by auto
    with i Some show ?thesis by (intro exI [of _ "i # is"]) (simp add: match_loop.simps [of _ _ "Some i"])
  qed
qed

lemma indexOf_from_0: "indexOf_from hay needle 0 = indexOf hay needle"
  by (simp add: indexOf_from_def option.map_ident)

lemma chain_occ: "chain hay needle lo is \<Longrightarrow> i \<in> set is \<Longrightarrow> lo \<le> i \<and> occ hay needle i"
  by (induction "is" arbitrary: lo) fastforce+

lemma chain_sorted: "chain hay needle lo is \<Longrightarrow> sorted_wrt (\<lambda>i j. i + length needle \<le> j) is"
  by (induction "is" arbitrary: lo) (auto dest: chain_occ)

lemma chain_complete:
  "chain hay needle lo is \<Longrightarrow> occ hay needle j \<Longrightarrow> lo \<le> j \<Longrightarrow>
     \<exists>i\<in>set is. i \<le> j \<and> j < i + length needle"
proof (induction "is" arbitrary: lo)
  case (Cons i "is")
  show ?case
  proof (cases "j < i + length needle")
    case True
    with Cons.prems have "i \<le> j" by (meson chain.simps(2) linorder_not_le)
    with True show ?thesis by auto
  next
    case False
    with Cons.IH [of "i + length needle"] Cons.prems show ?thesis by auto
  qed
qed auto

section \<open>Positions\<close>

definition seg_ok :: "nat \<Rightarrow> text_segment list \<Rightarrow> bool" where
  "seg_ok st segs \<longleftrightarrow> segs \<noteq> [] \<and> startIdx (hd segs) = 0 \<and> (\<forall>g\<in>set segs. basePos g = st + startIdx g)"

lemma mapIndexToPos_run:
  assumes "seg_ok st segs"
  shows "mapIndexToPos idx segs = st + idx"
proof -
  have "hd segs \<in> set segs" "startIdx (hd segs) \<le> idx" using assms by (auto simp: seg_ok_def)
  then obtain g where g: "List.find (\<lambda>seg. idx \<ge> startIdx seg) (rev segs) = Some g"
    using find_None_iff [of "\<lambda>seg. idx \<ge> startIdx seg" "rev segs"] by (metis not_Some_eq set_rev)
  then have "g \<in> set segs" "startIdx g \<le> idx"
    by (auto simp: find_Some_iff) (metis nth_mem length_rev set_rev)
  with assms g show ?thesis by (simp add: mapIndexToPos_def seg_ok_def)
qed

lemma seg_ok_extend:
  "(segs = [] \<and> txs = []) \<or> seg_ok st segs \<Longrightarrow> seg_ok st (segs @ [\<lparr> startIdx = length txs, basePos = st + length txs \<rparr>])"
  by (auto simp: seg_ok_def)

lemma length_tokens [simp]: "length (tokens n) = nodeSize n"
proof (induction n)
  case (PNode tb cs)
  then have "map (\<lambda>n. length (tokens n)) cs = map nodeSize cs" by simp
  then show ?case by (simp add: length_concat comp_def del: map_eq_conv)
qed simp_all

lemma length_tokens_all [simp]: "length (concat (map tokens ns)) = sum_list (map nodeSize ns)"
  by (simp add: length_concat comp_def)

section \<open>Occurrences in a document\<close>

text \<open>The characters of the search text at a position of the token sequence, up to case if the search ignores it.\<close>

definition fold_case :: "bool \<Rightarrow> string \<Rightarrow> string" where
  "fold_case cs w = (if cs then w else toLowerCase w)"

definition occurs :: "bool \<Rightarrow> string \<Rightarrow> token list \<Rightarrow> nat \<Rightarrow> bool" where
  "occurs cs needle D p \<longleftrightarrow>
     (\<exists>w. length w = length needle \<and> fold_case cs w = needle \<and> take (length needle) (drop p D) = map Ch w)"

text \<open>\<open>ms\<close> is what a search of the tokens from \<open>lo\<close> to \<open>hi\<close> should return: occurrences only, in order and without
  overlaps, and no occurrence is missed.\<close>

definition finds :: "bool \<Rightarrow> string \<Rightarrow> token list \<Rightarrow> nat \<Rightarrow> nat \<Rightarrow> find_match list \<Rightarrow> bool" where
  "finds cs needle D lo hi ms \<longleftrightarrow>
     list_all (\<lambda>m. lo \<le> m_from m \<and> m_to m = m_from m + length needle \<and> m_to m \<le> hi \<and> occurs cs needle D (m_from m)) ms \<and>
     sorted_wrt (\<lambda>a b. m_to a \<le> m_from b) ms \<and>
     (\<forall>p. lo \<le> p \<and> p + length needle \<le> hi \<and> occurs cs needle D p \<longrightarrow>
        list_ex (\<lambda>m. m_from m \<le> p \<and> p < m_to m) ms)"

lemma length_fold_case [simp]: "length (fold_case cs w) = length w"
  by (simp add: fold_case_def)

lemma occurs_char:
  assumes "occurs cs needle D p" "p \<le> q" "q < p + length needle"
  shows "\<exists>c. D ! q = Ch c"
proof -
  from assms(1) obtain w where w: "length w = length needle" "take (length needle) (drop p D) = map Ch w" by (auto simp: occurs_def)
  then have l: "length needle \<le> length D - p" by (metis length_drop length_map length_take min.absorb_iff2 min.commute)
  have "D ! q = take (length needle) (drop p D) ! (q - p)" using assms(2,3) l by simp
  with w assms(2,3) show ?thesis by simp
qed

text \<open>Two searched regions separated by tokens that are no characters.\<close>

lemma finds_append:
  assumes "finds cs needle D lo mid a" "finds cs needle D mid' hi b" "mid \<le> mid'" "mid' \<le> hi" "lo \<le> mid"
    and gap: "\<And>p. occurs cs needle D p \<Longrightarrow> lo \<le> p \<Longrightarrow> p + length needle \<le> hi \<Longrightarrow> p + length needle \<le> mid \<or> mid' \<le> p"
  shows "finds cs needle D lo hi (a @ b)"
proof -
  have "sorted_wrt (\<lambda>a b. m_to a \<le> m_from b) (a @ b)"
    using assms(1-3) by (fastforce simp: finds_def sorted_wrt_append list_all_iff)
  moreover have "list_all (\<lambda>m. lo \<le> m_from m \<and> m_to m = m_from m + length needle \<and> m_to m \<le> hi \<and> occurs cs needle D (m_from m)) (a @ b)"
    using assms(1-5) by (fastforce simp: finds_def list_all_iff)
  moreover have "list_ex (\<lambda>m. m_from m \<le> p \<and> p < m_to m) (a @ b)"
    if "lo \<le> p" "p + length needle \<le> hi" "occurs cs needle D p" for p
    using gap [OF that(3,1,2)] assms(1,2) that by (auto simp: finds_def)
  ultimately show ?thesis by (simp add: finds_def)
qed

lemma take_drop_run: "i \<le> length xs \<Longrightarrow> n \<le> length xs - i \<Longrightarrow> take n (drop (length pre + i) (pre @ xs @ post)) = take n (drop i xs)"
  by simp

lemma occurs_run:
  assumes "D = pre @ map Ch txs @ post" "i + length needle \<le> length txs"
  shows "occurs cs needle D (length pre + i) \<longleftrightarrow> occ (fold_case cs txs) needle i"
proof -
  have t: "take (length needle) (drop (length pre + i) D) = map Ch (take (length needle) (drop i txs))"
    unfolding assms(1) using assms(2) by (simp add: take_map drop_map)
  have inj: "map Ch u = map Ch v \<longleftrightarrow> u = v" for u v by (simp add: inj_map_eq_map inj_def)
  have "take (length needle) (drop i (fold_case cs txs)) = fold_case cs (take (length needle) (drop i txs))"
    by (simp add: fold_case_def toLowerCase_def take_map drop_map)
  then show ?thesis using assms(2) by (auto simp: occurs_def t inj occ_def)
qed

lemma flush_finds:
  assumes "needle \<noteq> []" "D = pre @ map Ch txs @ post" "(segs = [] \<and> txs = []) \<or> seg_ok (length pre) segs"
  shows "\<exists>ms. flush cs needle txs segs = Some ms \<and> finds cs needle D (length pre) (length pre + length txs) ms"
proof (cases "length txs \<ge> length needle")
  case False
  then show ?thesis by (auto simp: flush_def finds_def)
next
  case True
  with assms(1,3) have seg: "seg_ok (length pre) segs" by auto
  let ?hay = "fold_case cs txs"
  obtain "is" where m: "match_loop ?hay needle (indexOf ?hay needle) = Some is" "chain ?hay needle 0 is"
    using match_loop_chain [OF assms(1), of ?hay 0] by (auto simp: indexOf_from_0)
  let ?ms = "map (\<lambda>i. \<lparr> m_from = length pre + i, m_to = length pre + (i + length needle) \<rparr>) is"
  have "flush cs needle txs segs = Some ?ms"
    using True m(1) mapIndexToPos_run [OF seg] by (simp add: flush_def fold_case_def)
  moreover have "finds cs needle D (length pre) (length pre + length txs) ?ms"
  proof -
    have o: "occ ?hay needle i \<and> i + length needle \<le> length txs" if "i \<in> set is" for i
      using chain_occ [OF m(2) that] by (simp add: occ_def)
    have "list_ex (\<lambda>m. m_from m \<le> p \<and> p < m_to m) ?ms"
      if p: "length pre \<le> p" "p + length needle \<le> length pre + length txs" "occurs cs needle D p" for p
    proof -
      obtain j where j: "p = length pre + j" using p(1) le_Suc_ex by blast
      then have "occ ?hay needle j" using p occurs_run [OF assms(2), of j needle cs] by simp
      from chain_complete [OF m(2) this] show ?thesis using j by (fastforce simp: list_ex_iff)
    qed
    then show ?thesis
      using o occurs_run [OF assms(2), of _ needle cs] chain_sorted [OF m(2)]
      by (auto simp: finds_def list_all_iff sorted_wrt_map)
  qed
  ultimately show ?thesis by blast
qed

section \<open>Well-formed documents\<close>

text \<open>What the editor's schema allows: text nodes are not empty, and stand only in textblocks, which hold nothing but
  text and inline atoms.\<close>

fun inline_ok :: "pm_node \<Rightarrow> bool" where
  "inline_ok (PText t) = (t \<noteq> [])"
| "inline_ok PAtom = True"
| "inline_ok (PNode tb kids) = False"

fun wf_node :: "pm_node \<Rightarrow> bool" where
  "wf_node (PText t) = False"
| "wf_node PAtom = True"
| "wf_node (PNode tb kids) = (if tb then list_all inline_ok kids else (\<forall>k\<in>set kids. wf_node k))"

lemma finds_sep:
  assumes "finds cs needle D lo q a" "finds cs needle D (q + 1) hi b" "lo \<le> q" "q + 1 \<le> hi" "\<And>c. D ! q \<noteq> Ch c"
  shows "finds cs needle D lo hi (a @ b)"
proof (rule finds_append [OF assms(1,2)])
  fix p assume "occurs cs needle D p"
  with occurs_char [of cs needle D p q] assms(5) show "p + length needle \<le> q \<or> q + 1 \<le> p" by fastforce
qed (use assms(3,4) in simp_all)

lemma finds_empty: "needle \<noteq> [] \<Longrightarrow> finds cs needle D lo lo []"
  by (cases needle) (auto simp: finds_def)

lemma finds_skip:
  assumes "needle \<noteq> []" "finds cs needle D (q + 1) hi b" "q + 1 \<le> hi" "\<And>c. D ! q \<noteq> Ch c"
  shows "finds cs needle D q hi b"
  using finds_sep [OF finds_empty [OF assms(1)] assms(2) order_refl assms(3,4)] by simp

lemma scan_block_finds:
  assumes "needle \<noteq> []" "list_all inline_ok kids" "D = pre @ map Ch txs @ concat (map tokens kids) @ post"
    "(segs = [] \<and> txs = []) \<or> seg_ok (length pre) segs" "ofs = length pre + length txs"
  shows "\<exists>ms. scan_block cs needle ofs kids txs segs = Some ms \<and>
    finds cs needle D (length pre) (ofs + sum_list (map nodeSize kids)) ms"
  using assms(2-5)
proof (induction kids arbitrary: pre txs segs ofs)
  case Nil
  then show ?case using flush_finds [OF assms(1), of D pre txs post segs cs] by simp
next
  case (Cons k kids)
  show ?case
  proof (cases k)
    case (PText t)
    have "seg_ok (length pre) (segs @ [\<lparr> startIdx = length txs, basePos = ofs \<rparr>])"
      using seg_ok_extend [OF Cons.prems(3)] Cons.prems(4) by simp
    with Cons.IH [of pre "txs @ t" "segs @ [\<lparr> startIdx = length txs, basePos = ofs \<rparr>]" "ofs + length t"] Cons.prems PText
    show ?thesis by (simp add: add.assoc)
  next
    case PAtom
    let ?R = "concat (map tokens kids) @ post"
    have D: "D = pre @ map Ch txs @ (AtomTok # ?R)" using Cons.prems(2) PAtom by simp
    obtain ms where ms: "flush cs needle txs segs = Some ms" "finds cs needle D (length pre) ofs ms"
      using flush_finds [OF assms(1) D Cons.prems(3), of cs] Cons.prems(4) by auto
    have "D = (pre @ map Ch txs @ [AtomTok]) @ map Ch [] @ ?R" using D by simp
    with Cons.IH [of "pre @ map Ch txs @ [AtomTok]" "[]" "[]" "ofs + 1"] Cons.prems(1,4) obtain ms' where
      ms': "scan_block cs needle (ofs + 1) kids [] [] = Some ms'"
        "finds cs needle D (ofs + 1) (ofs + 1 + sum_list (map nodeSize kids)) ms'" by auto
    have "D ! ofs = AtomTok" using D Cons.prems(4) by (simp add: nth_append)
    with finds_sep [OF ms(2) ms'(2)] Cons.prems(4) ms(1) ms'(1) PAtom show ?thesis by simp
  next
    case (PNode tb ks)
    with Cons.prems(1) show ?thesis by simp
  qed
qed

lemma descend_finds:
  "needle \<noteq> [] \<Longrightarrow> list_all wf_node ns \<Longrightarrow> D = pre @ concat (map tokens ns) @ post \<Longrightarrow> pos = length pre \<Longrightarrow>
    \<exists>ms. descend cs needle pos ns = Some ms \<and> finds cs needle D pos (pos + sum_list (map nodeSize ns)) ms"
proof (induction cs needle pos ns arbitrary: pre post rule: descend.induct [case_names Nil Node Text Atom])
  case (Nil cs needle pos)
  then show ?case by (simp add: finds_empty)
next
  case (Node cs needle pos tb kids rest)
  let ?K = "concat (map tokens kids)" and ?R = "concat (map tokens rest)" and ?n = "sum_list (map nodeSize kids)"
  have D1: "D = (pre @ [Open tb]) @ ?K @ (Close # ?R @ post)" using Node.prems(3) by simp
  have "\<exists>ms. (if tb then scan_block cs needle (pos + 1) kids [] [] else descend cs needle (pos + 1) kids) = Some ms \<and>
      finds cs needle D (pos + 1) (pos + 1 + ?n) ms"
  proof (cases tb)
    case True
    with scan_block_finds [of needle kids D "pre @ [Open tb]" "[]" "Close # ?R @ post" "[]" "pos + 1" cs] Node.prems D1 show ?thesis
      by simp
  next
    case False
    with Node.IH(1) [OF False Node.prems(1) _ D1] Node.prems show ?thesis by (simp add: list_all_iff)
  qed
  then obtain ms where ms: "(if tb then scan_block cs needle (pos + 1) kids [] [] else descend cs needle (pos + 1) kids) = Some ms"
      "finds cs needle D (pos + 1) (pos + 1 + ?n) ms" by blast
  have D2: "D = (pre @ Open tb # ?K @ [Close]) @ ?R @ post" using Node.prems(3) by simp
  obtain ms' where ms': "descend cs needle (pos + nodeSize (PNode tb kids)) rest = Some ms'"
      "finds cs needle D (pos + 1 + ?n + 1) (pos + 1 + ?n + 1 + sum_list (map nodeSize rest)) ms'"
    using Node.IH(2) [OF ms(1) Node.prems(1) _ D2] Node.prems(2,4) by auto
  have "D ! (pos + 1 + ?n) = Close" "D ! pos = Open tb"
    using D2 Node.prems(4) by (simp_all add: nth_append)
  then have "finds cs needle D pos (pos + 1 + ?n + 1 + sum_list (map nodeSize rest)) (ms @ ms')"
    using finds_skip [OF Node.prems(1) finds_sep [OF ms(2) ms'(2)]] by simp
  with ms(1) ms'(1) show ?case by (simp add: add.assoc)
next
  case (Text cs needle pos t rest)
  then show ?case by simp
next
  case (Atom cs needle pos rest)
  then obtain ms where ms: "descend cs needle (pos + 1) rest = Some ms"
      "finds cs needle D (pos + 1) (pos + 1 + sum_list (map nodeSize rest)) ms"
    using Atom.IH [of "pre @ [AtomTok]" post] by auto
  have "D ! pos = AtomTok" using Atom.prems by (simp add: nth_append)
  with finds_skip [OF Atom.prems(1) ms(2)] ms(1) show ?case by simp
qed

section \<open>Lemmas on replacing\<close>

definition replaces_range :: "'d insert_text \<Rightarrow> ('d \<Rightarrow> token list) \<Rightarrow> bool" where
  "replaces_range insertText content \<longleftrightarrow> (\<forall>s f t d. f \<le> t \<and> t \<le> length (content d) \<longrightarrow>
     content (insertText s f t d) = take f (content d) @ map Ch s @ drop t (content d))"

text \<open>All matches replaced at once, from left to right.\<close>

fun replaced :: "string \<Rightarrow> token list \<Rightarrow> nat \<Rightarrow> find_match list \<Rightarrow> token list" where
  "replaced r D lo [] = drop lo D"
| "replaced r D lo (m # ms) = take (m_from m - lo) (drop lo D) @ map Ch r @ replaced r D (m_to m) ms"

lemma take_drop_take: "a \<le> q \<Longrightarrow> take (a - lo) (drop lo (take q D)) = take (a - lo) (drop lo D)"
  by (simp add: drop_take min_absorb1 diff_le_mono)

lemma replaced_prefix:
  "lo \<le> q \<Longrightarrow> q \<le> length D \<Longrightarrow> list_all (\<lambda>m. m_from m \<le> m_to m \<and> m_to m \<le> q) ms \<Longrightarrow>
     sorted_wrt (\<lambda>a b. m_to a \<le> m_from b) ms \<Longrightarrow> list_all (\<lambda>m. lo \<le> m_from m) ms \<Longrightarrow>
     replaced r D lo ms = replaced r (take q D) lo ms @ drop q D"
proof (induction ms arbitrary: lo)
  case Nil
  then show ?case by (metis append_take_drop_id drop_drop drop_take le_add_diff_inverse2 replaced.simps(1))
next
  case (Cons m ms)
  have "take (m_from m - lo) (drop lo (take q D)) = take (m_from m - lo) (drop lo D)"
    using Cons.prems by (intro take_drop_take) auto
  moreover have "replaced r D (m_to m) ms = replaced r (take q D) (m_to m) ms @ drop q D"
    using Cons.prems by (intro Cons.IH) (auto simp: list_all_iff)
  ultimately show ?case by simp
qed

lemma replaced_snoc:
  "list_all (\<lambda>x. lo \<le> m_from x \<and> m_from x \<le> m_to x \<and> m_to x \<le> m_from m) ms \<Longrightarrow> sorted_wrt (\<lambda>a b. m_to a \<le> m_from b) ms \<Longrightarrow>
     lo \<le> m_from m \<Longrightarrow> replaced r D lo (ms @ [m]) = replaced r (take (m_from m) D) lo ms @ map Ch r @ drop (m_to m) D"
proof (induction ms arbitrary: lo)
  case Nil
  then show ?case by (simp add: drop_take)
next
  case (Cons x ms)
  have "take (m_from x - lo) (drop lo (take (m_from m) D)) = take (m_from x - lo) (drop lo D)"
    using Cons.prems by (intro take_drop_take) auto
  moreover have "replaced r D (m_to x) (ms @ [m]) = replaced r (take (m_from m) D) (m_to x) ms @ map Ch r @ drop (m_to m) D"
    using Cons.prems by (intro Cons.IH) (auto simp: list_all_iff)
  ultimately show ?case by simp
qed

lemma replace_all_replaced:
  assumes "replaces_range insertText content"
  shows "list_all (\<lambda>m. m_from m \<le> m_to m \<and> m_to m \<le> length (content d)) ms \<Longrightarrow>
    sorted_wrt (\<lambda>a b. m_to a \<le> m_from b) ms \<Longrightarrow>
    content (applyReplaceAll insertText d ms r) = replaced r (content d) 0 ms"
proof (induction ms arbitrary: d rule: rev_induct)
  case Nil
  then show ?case by (simp add: applyReplaceAll_def)
next
  case (snoc m ms)
  let ?d = "insertText r (m_from m) (m_to m) d"
  have before: "list_all (\<lambda>x. m_from x \<le> m_to x \<and> m_to x \<le> m_from m) ms" "sorted_wrt (\<lambda>a b. m_to a \<le> m_from b) ms"
    using snoc.prems by (auto simp: sorted_wrt_append list_all_iff)
  have c: "content ?d = take (m_from m) (content d) @ map Ch r @ drop (m_to m) (content d)"
    using assms snoc.prems(1) by (simp add: replaces_range_def)
  have l: "m_from m \<le> length (content d)" using snoc.prems(1) by simp
  then have l': "m_from m \<le> length (content ?d)" by (simp add: c)
  have "content (applyReplaceAll insertText d (ms @ [m]) r) = content (applyReplaceAll insertText ?d ms r)"
    by (simp add: applyReplaceAll_def)
  also have "\<dots> = replaced r (content ?d) 0 ms"
    using before l' by (intro snoc.IH) (auto simp: list_all_iff)
  also have "\<dots> = replaced r (take (m_from m) (content ?d)) 0 ms @ drop (m_from m) (content ?d)"
    using before l' by (intro replaced_prefix) (auto simp: list_all_iff)
  also have "\<dots> = replaced r (content d) 0 (ms @ [m])"
    using before l by (subst replaced_snoc) (auto simp: c list_all_iff)
  finally show ?case .
qed

lemma wrapIndex_mod: "0 < len \<Longrightarrow> wrapIndex i len = i mod int len"
proof -
  assume l: "0 < len"
  have "js_rem i (int len) + int len \<ge> 0"
    using pos_mod_bound [of "int len" "- i", THEN less_imp_le] pos_mod_sign [of "int len" i] l by (auto simp: js_rem_def)
  moreover have "(js_rem i (int len) + int len) mod int len = i mod int len"
    by (simp add: js_rem_def mod_minus_eq)
  ultimately show ?thesis using l by (simp add: wrapIndex_def js_rem_def [of "js_rem i (int len) + int len"])
qed

lemma findMatches_finds:
  assumes "list_all wf_node doc" "query \<noteq> []"
  shows "\<exists>ms. findMatches doc query (Some cs) = Some ms \<and>
    finds cs (fold_case cs query) (concat (map tokens doc)) 0 (length (concat (map tokens doc))) ms"
proof -
  have "fold_case cs query \<noteq> []" using assms(2) by (metis length_0_conv length_fold_case)
  from descend_finds [OF this assms(1), of "concat (map tokens doc)" "[]" "[]" 0 cs] show ?thesis
    using assms(2) by (simp add: findMatches_def fold_case_def)
qed

section \<open>The plugin while the document is edited\<close>

text \<open>A transaction either edits the document or carries a meta of the find bar; the find bar never does both.\<close>

inductive find_reach :: "pm_node list \<Rightarrow> find_state \<Rightarrow> bool" where
  opened: "find_reach doc EMPTY_STATE"
| edited: "find_reach doc s \<Longrightarrow> find_apply doc' True None s = Some s' \<Longrightarrow> find_reach doc' s'"
| dispatched: "find_reach doc s \<Longrightarrow> find_apply doc False (Some m) s = Some s' \<Longrightarrow> find_reach doc s'"

definition fresh :: "pm_node list \<Rightarrow> find_state \<Rightarrow> bool" where
  "fresh doc s \<longleftrightarrow> (if fquery s = [] then fmatches s = [] else findMatches doc (fquery s) (Some (fcaseSensitive s)) = Some (fmatches s))"

definition in_range :: "find_state \<Rightarrow> bool" where
  "in_range s \<longleftrightarrow> (if fmatches s = [] then activeIndex s = -1 else 0 \<le> activeIndex s \<and> activeIndex s < int (length (fmatches s)))"

lemma wrapIndex_range: "if len = 0 then wrapIndex i len = -1 else 0 \<le> wrapIndex i len \<and> wrapIndex i len < int len"
  using wrapIndex_mod [of len i] by (auto simp: wrapIndex_def)

lemma computeState_ok: "computeState doc q cs i = Some s \<Longrightarrow> fresh doc s \<and> in_range s"
  using wrapIndex_range [of "length (fmatches s)" i]
  by (auto simp: computeState_def fresh_def in_range_def Option.bind_eq_Some_conv split: if_splits)

lemma navigate_ok:
  "fresh doc s \<Longrightarrow> fresh doc (s\<lparr>activeIndex := wrapIndex i (length (fmatches s))\<rparr>) \<and> in_range (s\<lparr>activeIndex := wrapIndex i (length (fmatches s))\<rparr>)"
  using wrapIndex_range [of "length (fmatches s)" i] by (cases "fmatches s = []") (simp_all add: fresh_def in_range_def)

lemma find_apply_cases:
  assumes "find_apply doc c (Some m) s = Some s'"
  shows "(\<exists>q cs i. computeState doc q cs i = Some s') \<or> (\<exists>i. s' = s\<lparr>activeIndex := wrapIndex i (length (fmatches s))\<rparr>)"
  using assms by (auto simp: find_apply_def split: option.splits)

lemma find_reach_ok: "find_reach doc s \<Longrightarrow> fresh doc s \<and> in_range s"
proof (induction rule: find_reach.induct)
  case (opened doc)
  then show ?case by (simp add: EMPTY_STATE_def fresh_def in_range_def)
next
  case (edited doc s doc' s')
  show ?case
  proof (cases "fquery s = []")
    case True
    with edited show ?thesis by (simp add: find_apply_def fresh_def)
  next
    case False
    with edited.hyps(2) show ?thesis by (intro computeState_ok) (simp add: find_apply_def)
  qed
next
  case (dispatched doc s m s')
  from find_apply_cases [OF dispatched.hyps(2)] dispatched.IH computeState_ok navigate_ok show ?case by blast
qed

text \<open>Both replacements are sequences of dispatches, so the plugin state stays reachable through them.\<close>

lemma replaceCurrent_reach:
  assumes "find_reach doc s" and "replaceCurrent insertText doc r s = Some (doc', s')"
  shows "find_reach doc' s'"
  using assms by (auto simp: replaceCurrent_def Let_def split: if_splits option.splits intro: find_reach.intros)

lemma replaceAll_reach:
  assumes "find_reach doc s" and "replaceAll insertText doc r s = Some (doc', s')"
  shows "find_reach doc' s'"
  using assms by (auto simp: replaceAll_def Let_def split: if_splits option.splits intro: find_reach.intros)

section \<open>Properties\<close>



text \<open>Highlights are never stale: through every sequence of edits, query and case changes and navigation the
  plugin's matches are those of the current document, and the active index points at one of them, or is -1 when there
  are none.\<close>

theorem find_state_fresh:
  assumes "find_reach doc s"
  shows "(if fquery s = [] then fmatches s = [] else findMatches doc (fquery s) (Some (fcaseSensitive s)) = Some (fmatches s)) \<and>
    (if fmatches s = [] then activeIndex s = -1 else 0 \<le> activeIndex s \<and> activeIndex s < int (length (fmatches s)))"
  using find_reach_ok [OF assms] by (simp only: fresh_def in_range_def)

section \<open>Examples\<close>

text \<open>A paragraph whose first word is split by formatting, and an image.\<close>

definition sample_doc :: "pm_node list" where
  "sample_doc = [PNode False [PNode True [PText ''Ba'', PText ''nana'', PAtom, PText ''an'']]]"

lemma sample_doc_wf: "list_all wf_node sample_doc"
  by (simp add: sample_doc_def)

lemma sample_matches: "findMatches sample_doc ''AN'' (Some False) =
    Some [\<lparr> m_from = 3, m_to = 5 \<rparr>, \<lparr> m_from = 5, m_to = 7 \<rparr>, \<lparr> m_from = 9, m_to = 11 \<rparr>]"
  by code_simp


definition token_insert :: "token list insert_text" where
  "token_insert s f t d = take f d @ map Ch s @ drop t d"


definition sample_find :: find_state where
  "sample_find = \<lparr> fquery = ''AN'', fcaseSensitive = False,
     fmatches = [\<lparr> m_from = 3, m_to = 5 \<rparr>, \<lparr> m_from = 5, m_to = 7 \<rparr>, \<lparr> m_from = 9, m_to = 11 \<rparr>], activeIndex = 0 \<rparr>"

lemma sample_find_reach: "find_reach sample_doc sample_find"
proof (rule find_reach.dispatched [OF find_reach.opened])
  show "find_apply sample_doc False (Some (setQuery ''AN'')) EMPTY_STATE = Some sample_find"
    by (simp add: find_apply_def setQuery_def EMPTY_STATE_def computeState_def or_else_def sample_matches sample_find_def
        wrapIndex_def js_rem_def)
qed

theorem find_state_fresh_witness:
  "findMatches sample_doc ''AN'' (Some False) = Some (fmatches sample_find) \<and> activeIndex sample_find < 3"
  using find_state_fresh [OF sample_find_reach] by (simp add: sample_find_def)

end
