(* ===== verification/Search_Text.thy ===== *)
theory Search_Text
  imports JS_Text
begin

text \<open>
  The text functions behind search and quick capture: the query language (\<open>search-index/queryParser.ts\<close>), the
  highlighted excerpt (\<open>search-index/snippet.ts\<close>) and the inline syntax of a quick note
  (\<open>quick-capture/parser.ts\<close>).  A regular expression is modelled by what its global search does: a scan from left
  to right that takes the match at the first position that has one.
\<close>

section \<open>White space\<close>

text \<open>\<open>s.split(/\s+/)\<close> and \<open>s.replace(/\s+/g, " ")\<close>.\<close>

function split_ws :: "string \<Rightarrow> string list" where
  "split_ws s =
     (case dropWhile (\<lambda>c. \<not> is_space c) s of
        [] \<Rightarrow> [s]
      | c # r \<Rightarrow> takeWhile (\<lambda>c. \<not> is_space c) s # split_ws (dropWhile is_space r))"
  by pat_completeness auto
termination
proof (relation "measure length", goal_cases)
  case (2 s c r)
  have "length (dropWhile is_space r) < length (dropWhile (\<lambda>c. \<not> is_space c) s)"
    using 2 length_dropWhile_le [of is_space r] by simp
  then show ?case using length_dropWhile_le [of "\<lambda>c. \<not> is_space c" s] by simp
qed simp

declare split_ws.simps [simp del]

function collapse_ws :: "string \<Rightarrow> string" where
  "collapse_ws [] = []"
| "collapse_ws (c # s) =
     (if is_space c then CHR '' '' # collapse_ws (dropWhile is_space s) else c # collapse_ws s)"
  by pat_completeness auto
termination
  by (relation "measure length") (auto simp: le_imp_less_Suc length_dropWhile_le)

definition words :: "string \<Rightarrow> string list" where
  "words s = filter (\<lambda>w. w \<noteq> []) (split_ws s)"

section \<open>The query language\<close>

record parsed_query =
  pq_text :: string
  pq_projects :: "string list"
  pq_tags :: "string list"
  pq_excludes :: "string list"
  pq_phrases :: "string list"
  pq_unsupported :: "string list"

abbreviation quote_char :: char where
  "quote_char \<equiv> CHR 0x22"

definition SEARCH_OPERATORS :: "string list" where
  "SEARCH_OPERATORS = [''project:alias'', ''tag:name'', ''title:text'', ''body:text'', ''-exclude'',
     quote_char # ''phrase'' @ [quote_char], ''AND OR'']"

definition stripAt :: "string \<Rightarrow> string" where
  "stripAt s = dropWhile (\<lambda>c. c = CHR ''@'') s"

definition stripHash :: "string \<Rightarrow> string" where
  "stripHash s = dropWhile (\<lambda>c. c = CHR ''#'') s"

text \<open>The successive matches of the phrase pattern, a quote, one or more other characters, a quote.\<close>

function exec_phrases :: "string \<Rightarrow> string list" where
  "exec_phrases [] = []"
| "exec_phrases (c # s) =
     (let w = takeWhile (\<lambda>x. x \<noteq> quote_char) s; r = dropWhile (\<lambda>x. x \<noteq> quote_char) s
      in if c = quote_char \<and> w \<noteq> [] \<and> r \<noteq> [] then w # exec_phrases (tl r) else exec_phrases s)"
  by pat_completeness auto
termination
proof (relation "measure length", goal_cases)
  case (2 c s w r)
  then have "length (tl r) < length r" by simp
  then show ?case using 2 length_dropWhile_le [of "\<lambda>x. x \<noteq> quote_char" s] by simp
qed simp_all

definition remove_first :: "string \<Rightarrow> string \<Rightarrow> string" where
  "remove_first p s = (case indexOf s p of None \<Rightarrow> s | Some i \<Rightarrow> take i s @ drop (i + length p) s)"

definition quoted :: "string \<Rightarrow> string" where
  "quoted p = quote_char # p @ [quote_char]"

record query_acc =
  qa_words :: "string list"
  qa_projects :: "string list"
  qa_tags :: "string list"
  qa_excludes :: "string list"
  qa_unsupported :: "string list"

definition parse_token :: "string \<Rightarrow> query_acc \<Rightarrow> query_acc" where
  "parse_token tok a =
     (if tok = [] then a
      else
        let lower = toLowerCase tok in
        if startsWith lower ''project:'' then
          (let v = stripAt (drop 8 tok)
           in if v \<noteq> [] then a\<lparr>qa_projects := qa_projects a @ [toLowerCase v]\<rparr> else a)
        else if startsWith lower ''tag:'' then
          (let v = stripHash (drop 4 tok)
           in if v \<noteq> [] then a\<lparr>qa_tags := qa_tags a @ [toLowerCase v]\<rparr> else a)
        else if startsWith lower ''title:'' \<or> startsWith lower ''body:'' then
          a\<lparr>qa_unsupported := qa_unsupported a @ [tok], qa_words := qa_words a @ [tok]\<rparr>
        else if tok = ''AND'' \<or> tok = ''OR'' then
          a\<lparr>qa_unsupported := qa_unsupported a @ [tok], qa_words := qa_words a @ [tok]\<rparr>
        else if startsWith tok ''-'' \<and> 1 < length tok then
          a\<lparr>qa_excludes := qa_excludes a @ [drop 1 tok]\<rparr>
        else a\<lparr>qa_words := qa_words a @ [tok]\<rparr>)"

definition parseQuery :: "string \<Rightarrow> parsed_query" where
  "parseQuery query =
     (let phrases = exec_phrases query;
          remaining = fold (\<lambda>p r. remove_first (quoted p) r) phrases query;
          a = fold parse_token (split_ws remaining)
                \<lparr>qa_words = [], qa_projects = [], qa_tags = [], qa_excludes = [], qa_unsupported = []\<rparr>
      in \<lparr>pq_text = join '' '' (qa_words a), pq_projects = qa_projects a, pq_tags = qa_tags a,
          pq_excludes = qa_excludes a, pq_phrases = phrases, pq_unsupported = qa_unsupported a\<rparr>)"

definition getFinderUnsupportedWarning :: "string \<Rightarrow> string option" where
  "getFinderUnsupportedWarning query =
     (let parsed = parseQuery query
      in if pq_unsupported parsed = [] then None
         else Some (''Some operators are not supported in the finder: '' @ join '', '' (pq_unsupported parsed) @
           ''. They work in the Search page.''))"

section \<open>The excerpt\<close>

definition RADIUS :: nat where "RADIUS = 70"
definition HEAD_FALLBACK :: nat where "HEAD_FALLBACK = 180"

text \<open>\<open>s.replace(/c/g, r)\<close> for one character.\<close>

definition replace_char :: "char \<Rightarrow> string \<Rightarrow> string \<Rightarrow> string" where
  "replace_char c r s = concat (map (\<lambda>x. if x = c then r else [x]) s)"

definition escapeHtml :: "string \<Rightarrow> string" where
  "escapeHtml s =
     replace_char (CHR 0x27) ''&#39;''
       (replace_char quote_char ''&quot;''
         (replace_char (CHR ''>'') ''&gt;''
           (replace_char (CHR ''<'') ''&lt;''
             (replace_char (CHR ''&'') ''&amp;'' s))))"

abbreviation backslash :: char where
  "backslash \<equiv> CHR 0x5C"

definition regexp_special :: "char \<Rightarrow> bool" where
  "regexp_special c \<longleftrightarrow> c \<in> set (backslash # ''.*+?^${}()|[]'')"

definition escapeRegExp :: "string \<Rightarrow> string" where
  "escapeRegExp s = concat (map (\<lambda>c. if regexp_special c then [backslash, c] else [c]) s)"

text \<open>The pattern is an alternation of escaped literals, matched without regard to case: a backslash makes the next
  character literal, the first alternative that matches at a position wins.  The result is the length of the match.\<close>

fun match_literal :: "string \<Rightarrow> string \<Rightarrow> nat option" where
  "match_literal [] s = Some 0"
| "match_literal (p # ps) [] = None"
| "match_literal (p # ps) (c # s) =
     (if p = backslash then
        (case ps of
           [] \<Rightarrow> None
         | q # qs \<Rightarrow> if lower_char q = lower_char c then map_option Suc (match_literal qs s) else None)
      else if lower_char p = lower_char c then map_option Suc (match_literal ps s) else None)"

fun match_alternatives :: "string list \<Rightarrow> string \<Rightarrow> nat option" where
  "match_alternatives [] s = None"
| "match_alternatives (p # ps) s =
     (case match_literal p s of Some n \<Rightarrow> Some n | None \<Rightarrow> match_alternatives ps s)"

function mark_matches :: "string list \<Rightarrow> string \<Rightarrow> string" where
  "mark_matches alts [] = []"
| "mark_matches alts (c # s) =
     (case match_alternatives alts (c # s) of
        None \<Rightarrow> c # mark_matches alts s
      | Some 0 \<Rightarrow> ''<mark></mark>'' @ c # mark_matches alts s
      | Some (Suc n) \<Rightarrow> ''<mark>'' @ take (Suc n) (c # s) @ ''</mark>'' @ mark_matches alts (drop n s))"
  by pat_completeness auto
termination
  by (relation "measure (\<lambda>(alts, s). length s)") auto

definition first_match :: "string \<Rightarrow> string list \<Rightarrow> nat option" where
  "first_match lower terms =
     fold (\<lambda>term pos.
       if term = [] then pos
       else (case indexOf lower (toLowerCase term) of
               None \<Rightarrow> pos
             | Some i \<Rightarrow> (case pos of None \<Rightarrow> Some i | Some p \<Rightarrow> if i < p then Some i else pos))) terms None"

definition uniqueTerms :: "string list \<Rightarrow> string list" where
  "uniqueTerms terms =
     sort_desc (\<lambda>t. int (length t))
       (filter (\<lambda>t. 2 \<le> length t) (js_unique (map (\<lambda>t. toLowerCase (trim t)) terms)))"

text \<open>The ellipsis is one character outside Latin-1; its encoding stands for it.\<close>

definition ellipsis :: string where
  "ellipsis = [CHR 0xE2, CHR 0x80, CHR 0xA6]"

definition buildSnippet :: "string \<Rightarrow> string list \<Rightarrow> string" where
  "buildSnippet txt terms =
     (let clean = trim (collapse_ws txt) in
      if clean = [] then []
      else
        let pos = first_match (toLowerCase clean) terms;
            start = (case pos of None \<Rightarrow> 0 | Some p \<Rightarrow> p - RADIUS);
            stop = (case pos of None \<Rightarrow> min (length clean) HEAD_FALLBACK | Some p \<Rightarrow> min (length clean) (p + RADIUS * 2));
            excerpt = drop start (take stop clean);
            prefix = (if 0 < start then ellipsis @ '' '' else []);
            suffix = (if stop < length clean then '' '' @ ellipsis else []);
            html = escapeHtml excerpt;
            uts = uniqueTerms terms;
            html' = (if uts \<noteq> [] then mark_matches (map (\<lambda>t. escapeRegExp (escapeHtml t)) uts) html else html)
        in prefix @ html' @ suffix)"

section \<open>Quick capture\<close>

definition is_word_char :: "char \<Rightarrow> bool" where
  "is_word_char c \<longleftrightarrow> is_digit c \<or> (65 \<le> ccode c \<and> ccode c \<le> 90) \<or> (97 \<le> ccode c \<and> ccode c \<le> 122) \<or> c = CHR ''_''"

definition is_alias_char :: "char \<Rightarrow> bool" where
  "is_alias_char c \<longleftrightarrow> is_word_char c \<or> c = CHR ''-''"

text \<open>A marker at the head of the rest of the text: the start of the text or a space, the sign, and a longest run of
  name characters.  A project also looks ahead for a space or the end; a shorter run never helps, it is followed by a
  name character.\<close>

record marker_syntax =
  ms_sign :: char
  ms_char :: "char \<Rightarrow> bool"
  ms_ahead :: bool

definition TAG_REGEX :: marker_syntax where
  "TAG_REGEX = \<lparr>ms_sign = CHR ''#'', ms_char = is_word_char, ms_ahead = False\<rparr>"

definition PROJECT_REGEX :: marker_syntax where
  "PROJECT_REGEX = \<lparr>ms_sign = CHR ''@'', ms_char = is_alias_char, ms_ahead = True\<rparr>"

definition after_sign :: "marker_syntax \<Rightarrow> bool \<Rightarrow> string \<Rightarrow> string option" where
  "after_sign m start s =
     (case s of
        [] \<Rightarrow> None
      | c # r \<Rightarrow>
          if start \<and> c = ms_sign m then Some r
          else if is_space c then (case r of [] \<Rightarrow> None | e # r' \<Rightarrow> if e = ms_sign m then Some r' else None)
          else None)"

definition marker_at :: "marker_syntax \<Rightarrow> bool \<Rightarrow> string \<Rightarrow> (string \<times> string) option" where
  "marker_at m start s =
     (case after_sign m start s of
        None \<Rightarrow> None
      | Some r \<Rightarrow>
          let w = takeWhile (ms_char m) r; rest = dropWhile (ms_char m) r
          in if w = [] \<or> ms_ahead m \<and> rest \<noteq> [] \<and> \<not> is_space (hd rest) then None else Some (w, rest))"

lemma marker_at_shorter: "marker_at m start s = Some (w, rest) \<Longrightarrow> length rest < length s"
proof -
  assume "marker_at m start s = Some (w, rest)"
  then obtain r where r: "after_sign m start s = Some r" "rest = dropWhile (ms_char m) r"
    by (auto simp: marker_at_def Let_def split: option.splits if_splits)
  then have "length r < length s" by (auto simp: after_sign_def split: list.splits if_splits)
  with r(2) show ?thesis using length_dropWhile_le [of "ms_char m" r] by simp
qed

function exec_markers :: "marker_syntax \<Rightarrow> bool \<Rightarrow> string \<Rightarrow> string list" where
  "exec_markers m start [] = []"
| "exec_markers m start (c # s) =
     (case marker_at m start (c # s) of
        Some (w, rest) \<Rightarrow> w # exec_markers m False rest
      | None \<Rightarrow> exec_markers m False s)"
  by pat_completeness auto
termination
  by (relation "measure (\<lambda>(m, start, s). length s)") (auto dest: marker_at_shorter)

function blank_markers :: "marker_syntax \<Rightarrow> bool \<Rightarrow> string \<Rightarrow> string" where
  "blank_markers m start [] = []"
| "blank_markers m start (c # s) =
     (case marker_at m start (c # s) of
        Some (w, rest) \<Rightarrow> CHR '' '' # blank_markers m False rest
      | None \<Rightarrow> c # blank_markers m False s)"
  by pat_completeness auto
termination
  by (relation "measure (\<lambda>(m, start, s). length s)") (auto dest: marker_at_shorter)

record parse_result =
  pr_content :: string
  pr_project :: "string option"
  pr_tags :: "string list"

definition parseTags :: "string \<Rightarrow> string list" where
  "parseTags txt = js_unique (exec_markers TAG_REGEX True txt)"

definition parseProject :: "string \<Rightarrow> string option" where
  "parseProject txt = fold (\<lambda>p project. Some p) (exec_markers PROJECT_REGEX True txt) None"

definition parseContent :: "string \<Rightarrow> string" where
  "parseContent txt =
     (let c1 = blank_markers PROJECT_REGEX True txt;
          c2 = blank_markers TAG_REGEX True c1
      in trim (join [CHR 0x0A] (map (\<lambda>line. trim (collapse_ws line)) (split_char (CHR 0x0A) c2))))"

definition parse_capture :: "string \<Rightarrow> parse_result" where
  "parse_capture txt = \<lparr>pr_content = parseContent txt, pr_project = parseProject txt, pr_tags = parseTags txt\<rparr>"

section \<open>Lemmas on white space\<close>

lemma split_ws_word: "list_all (\<lambda>c. \<not> is_space c) w \<Longrightarrow> split_ws w = [w]"
proof -
  assume "list_all (\<lambda>c. \<not> is_space c) w"
  then have "dropWhile (\<lambda>c. \<not> is_space c) w = []" by (simp add: list_all_iff)
  then show ?thesis by (simp only: split_ws.simps [of w] list.case)
qed

lemma split_ws_append:
  assumes "list_all (\<lambda>c. \<not> is_space c) w" "is_space c"
  shows "split_ws (w @ c # s) = w # split_ws (dropWhile is_space s)"
proof -
  have "dropWhile (\<lambda>c. \<not> is_space c) (w @ c # s) = c # s" "takeWhile (\<lambda>c. \<not> is_space c) (w @ c # s) = w"
    using assms by (simp_all add: list_all_iff takeWhile_append dropWhile_append)
  then show ?thesis by (subst split_ws.simps) simp
qed

lemma words_Nil [simp]: "words [] = []"
  by (simp add: words_def split_ws_word)

lemma words_single: "list_all (\<lambda>c. \<not> is_space c) w \<Longrightarrow> w \<noteq> [] \<Longrightarrow> words w = [w]"
  by (simp add: words_def split_ws_word)

lemma words_drop_space: "words (dropWhile is_space s) = words s"
proof (cases s)
  case (Cons c r)
  then show ?thesis using split_ws_append [of "[]" c r] by (simp add: words_def)
qed simp

lemma words_space: "is_space c \<Longrightarrow> words (c # s) = words s"
  using words_drop_space [of s] words_drop_space [of "c # s"] by simp

lemma words_append:
  "list_all (\<lambda>c. \<not> is_space c) w \<Longrightarrow> w \<noteq> [] \<Longrightarrow> is_space c \<Longrightarrow> words (w @ c # s) = w # words s"
  using words_drop_space [of s] by (simp add: words_def split_ws_append)

lemma words_empty: "s = [] \<or> \<not> is_space (hd s) \<Longrightarrow> words s = [] \<longleftrightarrow> s = []"
proof (cases s)
  case (Cons c r)
  assume "s = [] \<or> \<not> is_space (hd s)"
  with Cons have "\<not> is_space c" by simp
  with Cons show ?thesis by (auto simp: words_def split_ws.simps [of "c # r"] split: list.split)
qed simp

lemma space_is_space [simp]: "is_space (CHR '' '')"
  by (simp add: is_space_def)

lemma words_join:
  "list_all (\<lambda>w. w \<noteq> [] \<and> list_all (\<lambda>c. \<not> is_space c) w) ws \<Longrightarrow> words (join '' '' ws) = ws"
proof (induction ws)
  case (Cons w ws)
  then show ?case by (cases "ws = []") (simp_all add: words_single join_Cons words_append)
qed simp

lemma rtrim_append:
  "rev (dropWhile is_space (rev (a @ b))) =
     (if list_all is_space b then rev (dropWhile is_space (rev a)) else a @ rev (dropWhile is_space (rev b)))"
  by (auto simp: dropWhile_append list_all_iff)

lemma trim_word: "w \<noteq> [] \<Longrightarrow> list_all (\<lambda>c. \<not> is_space c) w \<Longrightarrow> trim w = w"
  by (rule trim_id) (auto simp: list_all_iff)

lemma trim_space: "is_space c \<Longrightarrow> trim (c # s) = trim s"
  by (simp add: trim_def)

lemma trim_word_append:
  assumes "w \<noteq> []" "list_all (\<lambda>c. \<not> is_space c) w" "is_space c" "y = [] \<or> \<not> is_space (hd y)"
  shows "trim (w @ c # y) = (if y = [] then w else w @ c # trim y)"
proof -
  have "dropWhile is_space (w @ c # y) = w @ c # y"
    using assms(1,2) by (cases w) simp_all
  then have *: "trim (w @ c # y) = rev (dropWhile is_space (rev (w @ c # y)))" by (simp add: trim_def)
  show ?thesis
  proof (cases "y = []")
    case True
    have "dropWhile is_space (rev w) = rev w"
      using assms(1,2) by (simp add: dropWhile_eq_self_iff hd_rev list_all_iff)
    with True * assms(3) show ?thesis by simp
  next
    case False
    with assms(4) have "\<not> list_all is_space y" "dropWhile is_space y = y"
      by (cases y; simp)+
    with False * rtrim_append [of "w @ [c]" y] show ?thesis by (simp add: trim_def)
  qed
qed

lemma collapse_word: "list_all (\<lambda>c. \<not> is_space c) w \<Longrightarrow> collapse_ws (w @ s) = w @ collapse_ws s"
  by (induction w) simp_all

lemma hd_collapse: "s = [] \<or> \<not> is_space (hd s) \<Longrightarrow> collapse_ws s = [] \<or> \<not> is_space (hd (collapse_ws s))"
  by (cases s) simp_all

lemma collapse_eq_Nil [simp]: "collapse_ws s = [] \<longleftrightarrow> s = []"
  by (cases s) simp_all

text \<open>Collapsing and trimming a line leaves its words, separated by single spaces.\<close>

lemma trim_collapse: "trim (collapse_ws s) = join '' '' (words s)"
proof (induction "length s" arbitrary: s rule: less_induct)
  case less
  let ?w = "takeWhile (\<lambda>c. \<not> is_space c) s" and ?r = "dropWhile (\<lambda>c. \<not> is_space c) s"
  have w: "list_all (\<lambda>c. \<not> is_space c) ?w" by (auto simp: list_all_iff dest: set_takeWhileD)
  have s: "s = ?w @ ?r" by simp
  show ?case
  proof (cases ?r)
    case Nil
    then have all: "list_all (\<lambda>c. \<not> is_space c) s" by (simp add: list_all_iff)
    show ?thesis
    proof (cases "s = []")
      case False
      with all collapse_word [OF all, of "[]"] show ?thesis by (simp add: words_single trim_word)
    qed (simp add: trim_def)
  next
    case (Cons c r)
    have c: "is_space c" using hd_dropWhile [of "\<lambda>c. \<not> is_space c" s] Cons by simp
    let ?x = "dropWhile is_space r"
    have "length ?r \<le> length s" by (rule length_dropWhile_le)
    then have "length ?x < length s" using Cons length_dropWhile_le [of is_space r] by simp
    then have IH: "trim (collapse_ws ?x) = join '' '' (words ?x)" by (rule less)
    have x: "?x = [] \<or> \<not> is_space (hd ?x)" using hd_dropWhile [of is_space r] by blast
    have col: "collapse_ws s = ?w @ CHR '' '' # collapse_ws ?x"
      using s Cons c collapse_word [OF w, of ?r] by simp
    have sx: "s = ?w @ c # r" using s Cons by simp
    show ?thesis
    proof (cases "?w = []")
      case True
      then have "words s = words ?x" using sx c words_drop_space [of r] words_space [of c r] by simp
      with True col IH show ?thesis by (simp add: trim_space)
    next
      case False
      have ws: "words s = ?w # words ?x"
        using words_append [OF w False c, of r] sx words_drop_space [of r] by simp
      have "words ?x = [] \<longleftrightarrow> ?x = []" using x by (rule words_empty)
      with ws col IH trim_word_append [OF False w space_is_space hd_collapse [OF x]] show ?thesis
        by (auto simp: join_Cons)
    qed
  qed
qed

section \<open>Lemmas on queries\<close>

lemma fold_parse_words: "fold parse_token (split_ws s) a = fold parse_token (words s) a"
proof -
  have "fold parse_token ts a = fold parse_token (filter (\<lambda>w. w \<noteq> []) ts) a" for ts
    by (induction ts arbitrary: a) (auto simp: parse_token_def)
  then show ?thesis by (simp add: words_def)
qed

text \<open>A query written out: phrases first, then the words and operators, separated by single spaces.\<close>

datatype query_token = QProject string | QTag string | QExclude string | QWord string

fun print_token :: "query_token \<Rightarrow> string" where
  "print_token (QProject v) = ''project:'' @ v"
| "print_token (QTag v) = ''tag:'' @ v"
| "print_token (QExclude v) = CHR ''-'' # v"
| "print_token (QWord v) = v"

definition plain :: "string \<Rightarrow> bool" where
  "plain s \<longleftrightarrow> s \<noteq> [] \<and> list_all (\<lambda>c. \<not> is_space c \<and> c \<noteq> quote_char) s"

fun token_ok :: "query_token \<Rightarrow> bool" where
  "token_ok (QProject v) = (plain v \<and> toLowerCase v = v \<and> hd v \<noteq> CHR ''@'')"
| "token_ok (QTag v) = (plain v \<and> toLowerCase v = v \<and> hd v \<noteq> CHR ''#'')"
| "token_ok (QExclude v) = plain v"
| "token_ok (QWord v) =
     (plain v \<and> \<not> startsWith (toLowerCase v) ''project:'' \<and> \<not> startsWith (toLowerCase v) ''tag:'' \<and>
      (startsWith v ''-'' \<longrightarrow> v = ''-''))"

definition search_page_only :: "string \<Rightarrow> bool" where
  "search_page_only w \<longleftrightarrow>
     startsWith (toLowerCase w) ''title:'' \<or> startsWith (toLowerCase w) ''body:'' \<or> w = ''AND'' \<or> w = ''OR''"

definition print_query :: "string list \<Rightarrow> query_token list \<Rightarrow> string" where
  "print_query phrases toks = concat (map (\<lambda>p. quoted p @ '' '') phrases) @ join '' '' (map print_token toks)"

fun word_of :: "query_token \<Rightarrow> string list" where
  "word_of (QWord v) = [v]"
| "word_of _ = []"

fun project_of :: "query_token \<Rightarrow> string list" where
  "project_of (QProject v) = [v]"
| "project_of _ = []"

fun tag_of :: "query_token \<Rightarrow> string list" where
  "tag_of (QTag v) = [v]"
| "tag_of _ = []"

fun exclude_of :: "query_token \<Rightarrow> string list" where
  "exclude_of (QExclude v) = [v]"
| "exclude_of _ = []"

lemma toLowerCase_Cons: "toLowerCase (c # s) = lower_char c # toLowerCase s"
  by (simp add: toLowerCase_def)

lemmas lower_operators = toLowerCase_Cons lower_char_def is_upper_def

lemma strip_no_sign: "v \<noteq> [] \<Longrightarrow> hd v \<noteq> CHR ''@'' \<Longrightarrow> stripAt v = v" "v \<noteq> [] \<Longrightarrow> hd v \<noteq> CHR ''#'' \<Longrightarrow> stripHash v = v"
  by (cases v; simp add: stripAt_def stripHash_def)+

lemma parse_print_token:
  assumes "token_ok t"
  shows "parse_token (print_token t) a =
    a\<lparr>qa_words := qa_words a @ word_of t, qa_projects := qa_projects a @ project_of t, qa_tags := qa_tags a @ tag_of t,
      qa_excludes := qa_excludes a @ exclude_of t, qa_unsupported := qa_unsupported a @ filter search_page_only (word_of t)\<rparr>"
proof (cases t)
  case (QProject v)
  with assms show ?thesis by (simp add: parse_token_def lower_operators strip_no_sign plain_def)
next
  case (QTag v)
  with assms show ?thesis by (simp add: parse_token_def lower_operators strip_no_sign plain_def)
next
  case (QExclude v)
  with assms show ?thesis by (simp add: parse_token_def lower_operators plain_def)
next
  case (QWord v)
  with assms show ?thesis by (auto simp: parse_token_def search_page_only_def plain_def Let_def)
qed

lemma parse_print_tokens:
  assumes "list_all token_ok ts"
  shows "fold parse_token (map print_token ts) a =
    a\<lparr>qa_words := qa_words a @ concat (map word_of ts), qa_projects := qa_projects a @ concat (map project_of ts),
      qa_tags := qa_tags a @ concat (map tag_of ts), qa_excludes := qa_excludes a @ concat (map exclude_of ts),
      qa_unsupported := qa_unsupported a @ filter search_page_only (concat (map word_of ts))\<rparr>"
  using assms by (induction ts arbitrary: a) (simp_all add: parse_print_token)

lemma plain_print_token:
  assumes "token_ok t"
  shows "plain (print_token t)"
proof -
  have "list_all (\<lambda>c. \<not> is_space c \<and> c \<noteq> quote_char) (''project:'' @ ''tag:'' @ ''-'')"
    by (simp add: is_space_def)
  with assms show ?thesis by (cases t) (simp_all add: plain_def)
qed

lemma exec_no_quote: "quote_char \<notin> set s \<Longrightarrow> exec_phrases s = []"
  by (induction s) auto

lemma exec_quoted:
  assumes "p \<noteq> []" "quote_char \<notin> set p"
  shows "exec_phrases (quoted p @ s) = p # exec_phrases s"
proof -
  have "takeWhile (\<lambda>x. x \<noteq> quote_char) (p @ quote_char # s) = p"
    "dropWhile (\<lambda>x. x \<noteq> quote_char) (p @ quote_char # s) = quote_char # s"
    using assms(2) by (auto simp: takeWhile_append dropWhile_append)
  with assms(1) show ?thesis by (simp add: quoted_def)
qed

lemma exec_print_phrases:
  assumes "list_all (\<lambda>p. p \<noteq> [] \<and> quote_char \<notin> set p) ps" "quote_char \<notin> set s"
  shows "exec_phrases (concat (map (\<lambda>p. quoted p @ '' '') ps) @ s) = ps"
  using assms
proof (induction ps)
  case (Cons p ps)
  have "exec_phrases (CHR '' '' # x) = exec_phrases x" for x by simp
  with Cons show ?case by (simp add: exec_quoted del: exec_phrases.simps)
qed (simp add: exec_no_quote)

lemma indexOf_here: "indexOf (p @ s) p = Some 0"
proof (cases "p @ s")
  case (Cons c r)
  moreover have "startsWith (p @ s) p" by (auto simp: startsWith_iff)
  ultimately show ?thesis by simp
qed simp

lemma indexOf_blanks:
  assumes "p \<noteq> []" "hd p \<noteq> c"
  shows "indexOf (replicate n c @ p @ s) p = Some n"
proof (induction n)
  case (Suc n)
  from assms have "\<not> startsWith (c # x) p" for x by (cases p) simp_all
  with Suc show ?case by simp
qed (simp add: indexOf_here)

lemma remove_phrases:
  "fold (\<lambda>p r. remove_first (quoted p) r) ps (replicate n (CHR '' '') @ concat (map (\<lambda>p. quoted p @ '' '') ps) @ s) =
     replicate (n + length ps) (CHR '' '') @ s"
proof (induction ps arbitrary: n)
  case (Cons p ps)
  let ?x = "concat (map (\<lambda>p. quoted p @ '' '') ps) @ s"
  have "indexOf (replicate n (CHR '' '') @ quoted p @ CHR '' '' # ?x) (quoted p) = Some n"
    by (rule indexOf_blanks) (simp_all add: quoted_def)
  then have "remove_first (quoted p) (replicate n (CHR '' '') @ quoted p @ CHR '' '' # ?x) = replicate (Suc n) (CHR '' '') @ ?x"
    by (simp add: remove_first_def replicate_append_same)
  with Cons [of "Suc n"] show ?case by simp
qed simp

lemma words_blanks: "words (replicate n (CHR '' '') @ s) = words s"
  by (induction n) (simp_all add: words_space)

lemma plain_join: "list_all plain ws \<Longrightarrow> quote_char \<notin> set (join '' '' ws)"
  by (induction ws rule: induct_list012) (auto simp: plain_def list_all_iff)

section \<open>Lemmas on excerpts\<close>

definition html_char :: "char \<Rightarrow> string" where
  "html_char c =
     (if c = CHR ''&'' then ''&amp;'' else if c = CHR ''<'' then ''&lt;'' else if c = CHR ''>'' then ''&gt;''
      else if c = quote_char then ''&quot;'' else if c = CHR 0x27 then ''&#39;'' else [c])"

lemma replace_char_append: "replace_char c r (s @ t) = replace_char c r s @ replace_char c r t"
  by (simp add: replace_char_def)

text \<open>The five passes amount to one: the ampersands they insert are never escaped again.\<close>

lemma escapeHtml_chars: "escapeHtml s = concat (map html_char s)"
proof (induction s)
  case (Cons c s)
  have one: "escapeHtml [c] = html_char c" by (simp add: escapeHtml_def html_char_def replace_char_def)
  have "escapeHtml ([c] @ s) = escapeHtml [c] @ escapeHtml s" by (simp only: escapeHtml_def replace_char_append)
  with Cons one show ?case by simp
qed (simp add: escapeHtml_def replace_char_def)

lemma escapeHtml_safe: "set (escapeHtml s) \<inter> {CHR ''<'', CHR ''>'', quote_char, CHR 0x27} = {}"
proof -
  have "set (html_char c) \<inter> {CHR ''<'', CHR ''>'', quote_char, CHR 0x27} = {}" for c
    by (simp add: html_char_def)
  then show ?thesis unfolding escapeHtml_chars set_concat set_map by blast
qed

text \<open>An escaped term matches exactly the strings that equal it up to case.\<close>

lemma match_escaped:
  "match_literal (escapeRegExp q) s = Some n \<longleftrightarrow> n = length q \<and> n \<le> length s \<and> toLowerCase (take n s) = toLowerCase q"
proof (induction q arbitrary: s n)
  case Nil
  then show ?case by (auto simp: escapeRegExp_def toLowerCase_def)
next
  case (Cons c q)
  have "match_literal (escapeRegExp (c # q)) s =
      (case s of [] \<Rightarrow> None | d # r \<Rightarrow> if lower_char c = lower_char d then map_option Suc (match_literal (escapeRegExp q) r) else None)"
    by (cases s) (auto simp: escapeRegExp_def regexp_special_def)
  with Cons show ?case by (cases s) (auto simp: toLowerCase_def)
qed

lemma match_alternatives_Some:
  "match_alternatives ps s = Some n \<Longrightarrow> \<exists>p\<in>set ps. match_literal p s = Some n"
  by (induction ps) (auto split: option.splits)

definition marked_html :: "(bool \<times> string) list \<Rightarrow> string" where
  "marked_html ps = concat (map (\<lambda>(b, s). if b then ''<mark>'' @ s @ ''</mark>'' else s) ps)"

definition marks_terms :: "string list \<Rightarrow> (bool \<times> string) list \<Rightarrow> bool" where
  "marks_terms qs ps \<longleftrightarrow> list_all (\<lambda>(b, s). b \<longrightarrow> list_ex (\<lambda>q. toLowerCase s = toLowerCase q) qs) ps"

lemma mark_pieces:
  "\<exists>ps. mark_matches (map escapeRegExp qs) s = marked_html ps \<and> concat (map snd ps) = s \<and> marks_terms qs ps"
proof (induction "map escapeRegExp qs" s rule: mark_matches.induct)
  case 1
  show ?case by (intro exI [of _ "[]"]) (simp add: marked_html_def marks_terms_def)
next
  case (2 c s)
  let ?alts = "map escapeRegExp qs"
  consider (none) "match_alternatives ?alts (c # s) = None" | (zero) "match_alternatives ?alts (c # s) = Some 0"
    | (some) n where "match_alternatives ?alts (c # s) = Some (Suc n)"
    by (metis not0_implies_Suc option.exhaust)
  then show ?case
  proof cases
    case none
    with 2(1) obtain ps where "mark_matches ?alts s = marked_html ps" "concat (map snd ps) = s" "marks_terms qs ps" by blast
    with none show ?thesis
      by (intro exI [of _ "(False, [c]) # ps"]) (simp add: marked_html_def marks_terms_def)
  next
    case zero
    with 2(2) obtain ps where ps: "mark_matches ?alts s = marked_html ps" "concat (map snd ps) = s" "marks_terms qs ps" by blast
    from match_alternatives_Some [OF zero] obtain q where "q \<in> set qs" "toLowerCase [] = toLowerCase q"
      by (auto simp: match_escaped)
    with ps zero show ?thesis
      by (intro exI [of _ "(True, []) # (False, [c]) # ps"]) (auto simp: marked_html_def marks_terms_def list_ex_iff)
  next
    case some
    with 2(3) obtain ps where ps: "mark_matches ?alts (drop n s) = marked_html ps" "concat (map snd ps) = drop n s"
      "marks_terms qs ps" by blast
    from match_alternatives_Some [OF some] obtain q where "q \<in> set qs" "toLowerCase (take (Suc n) (c # s)) = toLowerCase q"
      by (auto simp: match_escaped)
    with ps some show ?thesis
      by (intro exI [of _ "(True, take (Suc n) (c # s)) # ps"]) (auto simp: marked_html_def marks_terms_def list_ex_iff)
  qed
qed

lemma set_uniqueTerms: "set (uniqueTerms terms) \<subseteq> (\<lambda>t. toLowerCase (trim t)) ` set terms"
  by (auto simp: uniqueTerms_def)

lemma first_match_step:
  "fold (\<lambda>term pos.
       if term = [] then pos
       else (case indexOf lower (toLowerCase term) of
               None \<Rightarrow> pos
             | Some i \<Rightarrow> (case pos of None \<Rightarrow> Some i | Some p \<Rightarrow> if i < p then Some i else pos))) terms pos = res \<Longrightarrow>
   (res = None \<longleftrightarrow> pos = None \<and> (\<forall>t\<in>set terms. t \<noteq> [] \<longrightarrow> indexOf lower (toLowerCase t) = None)) \<and>
   (res = pos \<or> (\<exists>t\<in>set terms. t \<noteq> [] \<and> res = indexOf lower (toLowerCase t)))"
proof (induction terms arbitrary: pos)
  case (Cons t ts)
  let ?pos = "if t = [] then pos
       else (case indexOf lower (toLowerCase t) of
               None \<Rightarrow> pos
             | Some i \<Rightarrow> (case pos of None \<Rightarrow> Some i | Some p \<Rightarrow> if i < p then Some i else pos))"
  from Cons.IH [of ?pos] Cons.prems
  have "(res = None \<longleftrightarrow> ?pos = None \<and> (\<forall>t\<in>set ts. t \<noteq> [] \<longrightarrow> indexOf lower (toLowerCase t) = None)) \<and>
     (res = ?pos \<or> (\<exists>t\<in>set ts. t \<noteq> [] \<and> res = indexOf lower (toLowerCase t)))" by simp
  moreover have "?pos = None \<longleftrightarrow> pos = None \<and> (t \<noteq> [] \<longrightarrow> indexOf lower (toLowerCase t) = None)"
    by (auto split: option.splits)
  moreover have "?pos = pos \<or> t \<noteq> [] \<and> ?pos = indexOf lower (toLowerCase t)"
    by (auto split: option.splits)
  ultimately show ?case by auto
qed simp

lemma first_match_None:
  "first_match lower terms = None \<longleftrightarrow> (\<forall>t\<in>set terms. t \<noteq> [] \<longrightarrow> indexOf lower (toLowerCase t) = None)"
  using first_match_step [OF refl, of lower terms None] by (simp add: first_match_def)

lemma first_match_Some:
  "first_match lower terms = Some p \<Longrightarrow> \<exists>t\<in>set terms. t \<noteq> [] \<and> indexOf lower (toLowerCase t) = Some p"
  using first_match_step [of lower terms None "Some p"] by (auto simp: first_match_def)

text \<open>The excerpt shows the first hit: it starts at most \<open>RADIUS\<close> characters before it and goes on for twice that.\<close>

lemma excerpt_shows_hit:
  assumes "indexOf (toLowerCase clean) (toLowerCase t) = Some p"
  shows "str_includes (toLowerCase (drop (p - RADIUS) (take (min (length clean) (p + RADIUS * 2)) clean))) (take 140 (toLowerCase t))"
proof -
  from indexOf_Some [OF assms] obtain pre post where split: "toLowerCase clean = pre @ toLowerCase t @ post" "length pre = p"
    by blast
  have "toLowerCase (drop a (take (min (length clean) b) clean)) = drop a (take b (toLowerCase clean))" for a b
    by (cases "length clean \<le> b") (simp_all add: toLowerCase_def drop_map take_map min_def)
  also have "drop (p - RADIUS) (take (p + RADIUS * 2) (toLowerCase clean)) =
      drop (p - RADIUS) pre @ take 140 (toLowerCase t) @ take (140 - length t) post"
    unfolding split(1) using split(2) by (simp add: RADIUS_def)
  finally show ?thesis by (auto simp: str_includes_iff sublist_def)
qed

definition wrapped :: "string \<Rightarrow> string \<Rightarrow> bool" where
  "wrapped snippet html \<longleftrightarrow>
     snippet = html \<or> snippet = (ellipsis @ '' '') @ html \<or> snippet = html @ '' '' @ ellipsis \<or>
     snippet = (ellipsis @ '' '') @ html @ '' '' @ ellipsis"

lemma buildSnippet_parts:
  assumes "clean = trim (collapse_ws txt)" "clean \<noteq> []"
  shows "\<exists>start stop. wrapped (buildSnippet txt terms)
      (if uniqueTerms terms \<noteq> [] then mark_matches (map escapeRegExp (map escapeHtml (uniqueTerms terms))) (escapeHtml (drop start (take stop clean)))
       else escapeHtml (drop start (take stop clean))) \<and> stop \<le> start + 210 \<and>
    (\<forall>p. first_match (toLowerCase clean) terms = Some p \<longrightarrow> start = p - RADIUS \<and> stop = min (length clean) (p + RADIUS * 2))"
proof (cases "first_match (toLowerCase clean) terms")
  case None
  with assms show ?thesis
    by - (rule exI [of _ 0], rule exI [of _ "min (length clean) HEAD_FALLBACK"],
      simp add: buildSnippet_def Let_def wrapped_def HEAD_FALLBACK_def comp_def, linarith)
next
  case (Some p)
  with assms show ?thesis
    by - (rule exI [of _ "p - RADIUS"], rule exI [of _ "min (length clean) (p + RADIUS * 2)"],
      simp add: buildSnippet_def Let_def wrapped_def RADIUS_def comp_def, linarith)
qed

lemma marks_terms_mono: "marks_terms qs ps \<Longrightarrow> set qs \<subseteq> set qs' \<Longrightarrow> marks_terms qs' ps"
  by (fastforce simp: marks_terms_def list_all_iff list_ex_iff)

lemma marked_html_plain: "marked_html [(False, s)] = s" "marks_terms qs [(False, s)]"
  by (simp_all add: marked_html_def marks_terms_def)

lemma highlight_pieces:
  "\<exists>ps. (if uts \<noteq> [] then mark_matches (map escapeRegExp (map escapeHtml uts)) html else html) = marked_html ps \<and>
     concat (map snd ps) = html \<and> marks_terms (map escapeHtml uts) ps"
proof (cases "uts = []")
  case True
  then show ?thesis by (intro exI [of _ "[(False, html)]"]) (simp add: marked_html_plain)
next
  case False
  with mark_pieces [of "map escapeHtml uts" html] show ?thesis by simp
qed

section \<open>Lemmas on quick capture\<close>

definition is_marker :: "marker_syntax \<Rightarrow> string \<Rightarrow> bool" where
  "is_marker m t \<longleftrightarrow> t \<noteq> [] \<and> hd t = ms_sign m \<and> tl t \<noteq> [] \<and> list_all (ms_char m) (tl t)"

text \<open>A piece between two spaces is a marker as a whole or not even the beginning of one.\<close>

definition piece_ok :: "marker_syntax \<Rightarrow> string \<Rightarrow> bool" where
  "piece_ok m t \<longleftrightarrow> list_all (\<lambda>c. \<not> is_space c) t \<and>
     (is_marker m t \<or> \<not> (t \<noteq> [] \<and> hd t = ms_sign m \<and> tl t \<noteq> [] \<and> (ms_ahead m \<or> ms_char m (hd (tl t)))) \<or>
      ms_ahead m \<and> \<not> list_all (ms_char m) (tl t))"

definition syntax_ok :: "marker_syntax \<Rightarrow> bool" where
  "syntax_ok m \<longleftrightarrow> \<not> is_space (ms_sign m) \<and> (\<forall>c. ms_char m c \<longrightarrow> \<not> is_space c)"

definition boundary :: "string \<Rightarrow> bool" where
  "boundary s \<longleftrightarrow> s = [] \<or> is_space (hd s)"

abbreviation spaced :: "string list \<Rightarrow> string" where
  "spaced ts \<equiv> concat (map (\<lambda>t. CHR '' '' # t) ts)"

lemma boundary_spaced: "boundary (spaced ts)"
  by (cases ts) (simp_all add: boundary_def)

lemma syntax_ok_regex: "syntax_ok TAG_REGEX" "syntax_ok PROJECT_REGEX"
  by (auto simp: syntax_ok_def TAG_REGEX_def PROJECT_REGEX_def is_space_def is_alias_char_def is_word_char_def is_digit_def)

lemma run_marker:
  assumes "syntax_ok m" "list_all (ms_char m) w" "boundary s"
  shows "takeWhile (ms_char m) (w @ s) = w \<and> dropWhile (ms_char m) (w @ s) = s"
proof -
  have "takeWhile (ms_char m) s = [] \<and> dropWhile (ms_char m) s = s"
    using assms(1,3) by (cases s) (auto simp: boundary_def syntax_ok_def)
  with assms(2) show ?thesis by (simp add: list_all_iff takeWhile_append dropWhile_append)
qed

lemma run_not_all:
  assumes "\<not> list_all P w" "list_all (\<lambda>c. \<not> is_space c) w"
  shows "dropWhile P (w @ s) \<noteq> [] \<and> \<not> is_space (hd (dropWhile P (w @ s)))"
  using assms by (induction w) auto

lemma marker_at_piece:
  assumes "syntax_ok m" "piece_ok m t" "boundary s"
  shows "marker_at m False (CHR '' '' # t @ s) = (if is_marker m t then Some (tl t, s) else None)"
proof (cases t)
  case Nil
  with assms show ?thesis
    by (cases s) (auto simp: marker_at_def after_sign_def is_marker_def boundary_def syntax_ok_def)
next
  case (Cons c w)
  have after: "after_sign m False (CHR '' '' # t @ s) = (if c = ms_sign m then Some (w @ s) else None)"
    using Cons by (simp add: after_sign_def)
  show ?thesis
  proof (cases "is_marker m t")
    case True
    with Cons have w: "c = ms_sign m" "w \<noteq> []" "list_all (ms_char m) w" by (auto simp: is_marker_def)
    from assms(3) have "s = [] \<or> is_space (hd s)" by (simp add: boundary_def)
    with w True Cons run_marker [OF assms(1) w(3) assms(3)] show ?thesis
      unfolding marker_at_def after by (simp add: Let_def)
  next
    case False
    show ?thesis
    proof (cases "c = ms_sign m \<and> w \<noteq> []")
      case True
      then consider "ms_ahead m" "\<not> list_all (ms_char m) w" | "\<not> ms_ahead m" "\<not> ms_char m (hd w)"
        using False Cons assms(2) by (auto simp: piece_ok_def is_marker_def)
      then show ?thesis
      proof cases
        case 1
        with assms(2) Cons have "list_all (\<lambda>c. \<not> is_space c) w" by (simp add: piece_ok_def)
        with 1 False run_not_all [of "ms_char m" w s] show ?thesis unfolding marker_at_def after by (simp add: Let_def)
      next
        case 2
        with True False show ?thesis unfolding marker_at_def after by (cases w) (simp_all add: Let_def)
      qed
    next
      case no: False
      have "takeWhile (ms_char m) s = []"
        using assms(1,3) by (cases s) (auto simp: boundary_def syntax_ok_def)
      with no False show ?thesis unfolding marker_at_def after by (auto simp: Let_def)
    qed
  qed
qed

lemma marker_inside: "\<not> is_space c \<Longrightarrow> marker_at m False (c # s) = None"
  by (simp add: marker_at_def after_sign_def)

lemma skip_word:
  assumes "list_all (\<lambda>c. \<not> is_space c) t"
  shows "exec_markers m False (t @ s) = exec_markers m False s" "blank_markers m False (t @ s) = t @ blank_markers m False s"
  using assms by (induction t) (simp_all add: marker_inside)

lemma markers_spaced:
  assumes "syntax_ok m" "list_all (piece_ok m) ts"
  shows "exec_markers m False (spaced ts) = map tl (filter (is_marker m) ts) \<and>
    blank_markers m False (spaced ts) = spaced (map (\<lambda>t. if is_marker m t then [] else t) ts)"
  using assms(2)
proof (induction ts)
  case (Cons t ts)
  from Cons.prems have t: "list_all (\<lambda>c. \<not> is_space c) t" "piece_ok m t" by (simp_all add: piece_ok_def)
  note at = marker_at_piece [OF assms(1) t(2) boundary_spaced [of ts]]
  show ?case
  proof (cases "is_marker m t")
    case True
    with at Cons show ?thesis by simp
  next
    case False
    with at Cons skip_word [OF t(1), of m "spaced ts"] show ?thesis by simp
  qed
qed simp

text \<open>At the start of the text the first piece stands as if a space came before it.\<close>

lemma markers_start:
  assumes "\<not> is_space c"
  shows "exec_markers m True (c # s) = exec_markers m False (CHR '' '' # c # s) \<and>
    CHR '' '' # blank_markers m True (c # s) =
      (if marker_at m True (c # s) = None then [] else '' '') @ blank_markers m False (CHR '' '' # c # s)"
proof -
  have "marker_at m True (c # s) = marker_at m False (CHR '' '' # c # s)"
    using assms by (simp add: marker_at_def after_sign_def)
  with assms show ?thesis by (cases "marker_at m False (CHR '' '' # c # s)") (auto simp: marker_inside)
qed

lemma markers_start_space:
  assumes "syntax_ok m" "is_space c"
  shows "exec_markers m True (c # s) = exec_markers m False (c # s) \<and> blank_markers m True (c # s) = blank_markers m False (c # s)"
proof -
  have "marker_at m True (c # s) = marker_at m False (c # s)"
    using assms by (auto simp: marker_at_def after_sign_def syntax_ok_def)
  then show ?thesis by simp
qed

text \<open>A quick note written out as tags, projects and other words.\<close>

datatype capture_token = CTag string | CProject string | CWord string

fun print_capture :: "capture_token \<Rightarrow> string" where
  "print_capture (CTag w) = CHR ''#'' # w"
| "print_capture (CProject w) = CHR ''@'' # w"
| "print_capture (CWord w) = w"

fun capture_ok :: "capture_token \<Rightarrow> bool" where
  "capture_ok (CTag w) = (w \<noteq> [] \<and> list_all is_word_char w)"
| "capture_ok (CProject w) = (w \<noteq> [] \<and> list_all is_alias_char w)"
| "capture_ok (CWord w) =
     (w \<noteq> [] \<and> list_all (\<lambda>c. \<not> is_space c) w \<and>
      \<not> (hd w = CHR ''#'' \<and> tl w \<noteq> [] \<and> is_word_char (hd (tl w))) \<and>
      \<not> (hd w = CHR ''@'' \<and> tl w \<noteq> [] \<and> list_all is_alias_char (tl w)))"

fun ctags :: "capture_token \<Rightarrow> string list" where
  "ctags (CTag w) = [w]"
| "ctags _ = []"

fun cprojects :: "capture_token \<Rightarrow> string list" where
  "cprojects (CProject w) = [w]"
| "cprojects _ = []"

fun cwords :: "capture_token \<Rightarrow> string list" where
  "cwords (CWord w) = [w]"
| "cwords _ = []"

lemma name_chars_not_space: "is_word_char c \<Longrightarrow> \<not> is_space c" "is_alias_char c \<Longrightarrow> \<not> is_space c"
  using syntax_ok_regex by (auto simp: syntax_ok_def TAG_REGEX_def PROJECT_REGEX_def)

lemma print_capture_word:
  assumes "capture_ok t"
  shows "print_capture t \<noteq> [] \<and> list_all (\<lambda>c. \<not> is_space c) (print_capture t)"
proof -
  have "\<not> is_space (CHR ''#'')" "\<not> is_space (CHR ''@'')" by (simp_all add: is_space_def)
  with assms show ?thesis by (cases t) (auto simp: list_all_iff name_chars_not_space)
qed

lemma tag_token:
  assumes "capture_ok t"
  shows "piece_ok TAG_REGEX (print_capture t)" "is_marker TAG_REGEX (print_capture t) \<longleftrightarrow> (\<exists>w. t = CTag w)"
  using assms print_capture_word [OF assms]
  by (cases t; auto simp: piece_ok_def is_marker_def TAG_REGEX_def list_all_iff)+

lemma project_token:
  assumes "capture_ok t"
  shows "piece_ok PROJECT_REGEX (print_capture t)" "is_marker PROJECT_REGEX (print_capture t) \<longleftrightarrow> (\<exists>w. t = CProject w)"
  using assms print_capture_word [OF assms]
  by (cases t; auto simp: piece_ok_def is_marker_def PROJECT_REGEX_def list_all_iff)+

lemma tokens_markers:
  assumes "list_all capture_ok ts"
  shows "map tl (filter (is_marker TAG_REGEX) (map print_capture ts)) = concat (map ctags ts)"
    "map tl (filter (is_marker PROJECT_REGEX) (map print_capture ts)) = concat (map cprojects ts)"
  using assms
proof (induction ts)
  case (Cons t ts)
  {
    case 1
    with Cons tag_token(2) [of t] show ?case by (cases t) simp_all
  next
    case 2
    with Cons project_token(2) [of t] show ?case by (cases t) simp_all
  }
qed simp_all

lemma join_spaced: "join '' '' (t # ts) = t @ spaced ts"
proof (induction ts arbitrary: t)
  case (Cons u us)
  then show ?case by (simp add: join_Cons)
qed simp

text \<open>Reading a text of pieces from its start: the markers in order, and the text with the markers blanked, which
  starts with a space exactly when it started with a marker.\<close>

lemma markers_join:
  assumes m: "syntax_ok m" and ts: "list_all (piece_ok m) ts" and t: "t \<noteq> []" "piece_ok m t"
  shows "exec_markers m True (t @ spaced ts) = map tl (filter (is_marker m) (t # ts))"
    and "blank_markers m True (t @ spaced ts) =
      (if is_marker m t then '' '' else t) @ spaced (map (\<lambda>t. if is_marker m t then [] else t) ts)"
proof -
  from t obtain c w where cw: "t = c # w" "\<not> is_space c" by (cases t) (auto simp: piece_ok_def)
  have "marker_at m True (t @ spaced ts) = marker_at m False (CHR '' '' # t @ spaced ts)"
    using cw by (simp add: marker_at_def after_sign_def)
  also have "\<dots> = (if is_marker m t then Some (tl t, spaced ts) else None)"
    by (rule marker_at_piece [OF m t(2) boundary_spaced])
  finally have at: "marker_at m True (t @ spaced ts) = (if is_marker m t then Some (tl t, spaced ts) else None)" .
  note start = markers_start [OF cw(2), of m "w @ spaced ts"]
  note all = markers_spaced [OF m, of "t # ts"]
  show "exec_markers m True (t @ spaced ts) = map tl (filter (is_marker m) (t # ts))"
    using start all ts t cw(1) by simp
  show "blank_markers m True (t @ spaced ts) =
      (if is_marker m t then '' '' else t) @ spaced (map (\<lambda>t. if is_marker m t then [] else t) ts)"
    using start all ts t cw(1) at by (simp split: if_splits)
qed

lemma blank_again:
  assumes m: "syntax_ok m" and ts: "list_all (piece_ok m) ts" and t: "t = '' '' \<or> t \<noteq> [] \<and> piece_ok m t"
  shows "words (blank_markers m True (t @ spaced ts)) = words (spaced (map (\<lambda>t. if is_marker m t then [] else t) ((if t = '' '' then [] else t) # ts)))"
proof (cases "t = '' ''")
  case True
  have "piece_ok m []" by (simp add: piece_ok_def)
  with True ts markers_spaced [OF m, of "[] # ts"] markers_start_space [OF m space_is_space, of "spaced ts"] show ?thesis
    by simp
next
  case False
  with t markers_join(2) [OF m ts] show ?thesis by (auto simp: words_space)
qed

lemma words_spaced: "list_all (\<lambda>t. list_all (\<lambda>c. \<not> is_space c) t) ts \<Longrightarrow> words (spaced ts) = filter (\<lambda>t. t \<noteq> []) ts"
proof (induction ts)
  case (Cons t ts)
  show ?case
  proof (cases "ts = []")
    case True
    with Cons show ?thesis by (cases "t = []") (simp_all add: words_space words_single)
  next
    case False
    then obtain r where r: "spaced ts = CHR '' '' # r" by (cases ts) simp_all
    with Cons have "words r = filter (\<lambda>t. t \<noteq> []) ts" by (simp add: words_space)
    with Cons r show ?thesis by (cases "t = []") (simp_all add: words_space words_append)
  qed
qed simp

lemma set_blank: "set (blank_markers m b s) \<subseteq> insert (CHR '' '') (set s)"
proof (induction m b s rule: blank_markers.induct)
  case (2 m start c s)
  show ?case
  proof (cases "marker_at m start (c # s)")
    case None
    with 2(1) show ?thesis by auto
  next
    case (Some p)
    obtain w rest where p: "p = (w, rest)" by (cases p)
    with Some have "set rest \<subseteq> set (c # s)"
      by (auto simp: marker_at_def after_sign_def Let_def split: option.splits if_splits list.splits dest: set_dropWhileD)
    moreover have "set (blank_markers m False rest) \<subseteq> insert (CHR '' '') (set rest)"
      using 2(2) Some p by blast
    ultimately show ?thesis using Some p by auto
  qed
qed simp

definition kept :: "capture_token \<Rightarrow> string" where
  "kept t = (case t of CWord w \<Rightarrow> w | _ \<Rightarrow> [])"

definition unprojected :: "capture_token \<Rightarrow> string" where
  "unprojected t = (if is_marker PROJECT_REGEX (print_capture t) then [] else print_capture t)"

lemma unprojected_tag:
  assumes "capture_ok t"
  shows "piece_ok TAG_REGEX (unprojected t)" "(if is_marker TAG_REGEX (unprojected t) then [] else unprojected t) = kept t"
proof -
  have "\<not> is_marker TAG_REGEX []" "piece_ok TAG_REGEX []" by (simp_all add: is_marker_def piece_ok_def)
  with tag_token [OF assms] project_token(2) [OF assms]
  show "piece_ok TAG_REGEX (unprojected t)" "(if is_marker TAG_REGEX (unprojected t) then [] else unprojected t) = kept t"
    by (cases t; simp add: unprojected_def kept_def)+
qed

lemma kept_words: "list_all capture_ok ts \<Longrightarrow> filter (\<lambda>t. t \<noteq> []) (map kept ts) = concat (map cwords ts)"
proof (induction ts)
  case (Cons t ts)
  then show ?case by (cases t) (simp_all add: kept_def)
qed simp

lemma kept_ok: "list_all capture_ok ts \<Longrightarrow> list_all (\<lambda>t. list_all (\<lambda>c. \<not> is_space c) t) (map kept ts)"
proof (induction ts)
  case (Cons t ts)
  then show ?case by (cases t) (simp_all add: kept_def)
qed simp

lemma set_join: "x \<in> set (join sep ws) \<Longrightarrow> x \<in> set sep \<or> (\<exists>w\<in>set ws. x \<in> set w)"
  by (induction ws rule: induct_list012) auto

lemma capture_words:
  assumes "list_all capture_ok ts"
  shows "words (blank_markers TAG_REGEX True (blank_markers PROJECT_REGEX True (join '' '' (map print_capture ts)))) =
    concat (map cwords ts)"
proof (cases ts)
  case (Cons t us)
  with assms have t: "capture_ok t" and us: "list_all capture_ok us" by simp_all
  let ?p = "if is_marker PROJECT_REGEX (print_capture t) then '' '' else print_capture t"
  have "list_all (piece_ok PROJECT_REGEX) (map print_capture us)" using us project_token(1) by (simp add: list_all_iff)
  from markers_join(2) [OF syntax_ok_regex(2) this _ project_token(1) [OF t]] print_capture_word [OF t]
  have pass1: "blank_markers PROJECT_REGEX True (join '' '' (map print_capture ts)) = ?p @ spaced (map unprojected us)"
    unfolding Cons list.map join_spaced by (simp add: unprojected_def comp_def)
  have okus: "list_all (piece_ok TAG_REGEX) (map unprojected us)" using us unprojected_tag(1) by (simp add: list_all_iff)
  have okt: "?p = '' '' \<or> ?p \<noteq> [] \<and> piece_ok TAG_REGEX ?p"
    using tag_token(1) [OF t] print_capture_word [OF t] by simp
  have "print_capture t \<noteq> '' ''" using print_capture_word [OF t] by auto
  then have hd: "(if ?p = '' '' then [] else ?p) = unprojected t" by (simp add: unprojected_def)
  have "words (blank_markers TAG_REGEX True (?p @ spaced (map unprojected us))) =
      words (spaced (map (\<lambda>u. if is_marker TAG_REGEX u then [] else u) (map unprojected ts)))"
    using blank_again [OF syntax_ok_regex(1) okus okt] unfolding hd Cons by simp
  also have "map (\<lambda>u. if is_marker TAG_REGEX u then [] else u) (map unprojected ts) = map kept ts"
    using assms unprojected_tag(2) by (simp add: list_all_iff)
  also have "words (spaced (map kept ts)) = filter (\<lambda>t. t \<noteq> []) (map kept ts)"
    by (rule words_spaced [OF kept_ok [OF assms]])
  finally show ?thesis using pass1 kept_words [OF assms] by simp
qed simp

lemma capture_one_line:
  assumes "list_all capture_ok ts"
  shows "CHR 0x0A \<notin> set (blank_markers m b (blank_markers n d (join '' '' (map print_capture ts))))"
proof -
  have "is_space (CHR 0x0A)" by (simp add: is_space_def)
  with assms print_capture_word have "CHR 0x0A \<notin> set w" if "w \<in> set (map print_capture ts)" for w
    using that by (fastforce simp: list_all_iff)
  then have "CHR 0x0A \<notin> set (join '' '' (map print_capture ts))"
    using set_join [of "CHR 0x0A" "'' ''" "map print_capture ts"] by auto
  moreover have "CHR 0x0A \<noteq> CHR '' ''" by simp
  ultimately show ?thesis
    using set_blank [of m b "blank_markers n d (join '' '' (map print_capture ts))"] set_blank [of n d "join '' '' (map print_capture ts)"]
    by auto
qed

lemma capture_markers:
  assumes "list_all capture_ok ts"
  shows "exec_markers TAG_REGEX True (join '' '' (map print_capture ts)) = concat (map ctags ts)"
    "exec_markers PROJECT_REGEX True (join '' '' (map print_capture ts)) = concat (map cprojects ts)"
proof -
  have ok: "list_all (piece_ok TAG_REGEX) (map print_capture us)" "list_all (piece_ok PROJECT_REGEX) (map print_capture us)"
    if "list_all capture_ok us" for us
    using that tag_token(1) project_token(1) by (simp_all add: list_all_iff)
  show "exec_markers TAG_REGEX True (join '' '' (map print_capture ts)) = concat (map ctags ts)"
  proof (cases ts)
    case (Cons t us)
    with assms ok(1) [of us] markers_join(1) [OF syntax_ok_regex(1), of "map print_capture us" "print_capture t"]
      tokens_markers(1) [OF assms] print_capture_word [of t] tag_token(1) [of t]
    show ?thesis unfolding Cons list.map join_spaced by simp
  qed simp
  show "exec_markers PROJECT_REGEX True (join '' '' (map print_capture ts)) = concat (map cprojects ts)"
  proof (cases ts)
    case (Cons t us)
    with assms ok(2) [of us] markers_join(1) [OF syntax_ok_regex(2), of "map print_capture us" "print_capture t"]
      tokens_markers(2) [OF assms] print_capture_word [of t] project_token(1) [of t]
    show ?thesis unfolding Cons list.map join_spaced by simp
  qed simp
qed

lemma fold_last: "fold (\<lambda>p project. Some p) xs r = (if xs = [] then r else Some (last xs))"
  by (induction xs arbitrary: r) simp_all

section \<open>Properties\<close>

text \<open>C40. The query language round-trips: a query that consists of quoted phrases, \<open>project:\<close>, \<open>tag:\<close> and
  \<open>-\<close> operators and other words parses into exactly these parts, in their order; the words that only the search page
  understands stay in the text and are reported.\<close>

theorem parseQuery_roundtrip:
  assumes "list_all (\<lambda>p. p \<noteq> [] \<and> quote_char \<notin> set p) phrases" "list_all token_ok toks"
  shows "parseQuery (print_query phrases toks) =
    \<lparr>pq_text = join '' '' (concat (map word_of toks)), pq_projects = concat (map project_of toks),
      pq_tags = concat (map tag_of toks), pq_excludes = concat (map exclude_of toks), pq_phrases = phrases,
      pq_unsupported = filter search_page_only (concat (map word_of toks))\<rparr>"
proof -
  have plain: "list_all plain (map print_token toks)" using assms(2) plain_print_token by (simp add: list_all_iff)
  then have ws: "words (join '' '' (map print_token toks)) = map print_token toks"
    by (intro words_join) (auto simp: plain_def list_all_iff)
  have "exec_phrases (print_query phrases toks) = phrases"
    unfolding print_query_def by (rule exec_print_phrases [OF assms(1) plain_join [OF plain]])
  then show ?thesis
    using remove_phrases [of phrases 0 "join '' '' (map print_token toks)"]
    by (simp add: parseQuery_def print_query_def fold_parse_words words_blanks ws parse_print_tokens [OF assms(2)])
qed

text \<open>C35. A snippet is safe to render as HTML: it is an excerpt of the cleaned text, at most 210 characters, with every
  character that HTML reads specially escaped, in which whole stretches are wrapped in \<open><mark>\<close>; nothing else is
  inserted but an ellipsis.  Every marked stretch is a search term up to case, and when a term occurs in the text the
  excerpt shows one.\<close>

theorem buildSnippet_safe:
  "\<exists>excerpt ps. sublist excerpt (trim (collapse_ws txt)) \<and> length excerpt \<le> 210 \<and>
     wrapped (buildSnippet txt terms) (marked_html ps) \<and> concat (map snd ps) = escapeHtml excerpt \<and>
     set (concat (map snd ps)) \<inter> {CHR ''<'', CHR ''>'', quote_char, CHR 0x27} = {} \<and>
     marks_terms (map (\<lambda>t. escapeHtml (toLowerCase (trim t))) terms) ps \<and>
     (list_ex (\<lambda>t. t \<noteq> [] \<and> str_includes (toLowerCase (trim (collapse_ws txt))) (toLowerCase t)) terms \<longrightarrow>
      list_ex (\<lambda>t. t \<noteq> [] \<and> str_includes (toLowerCase excerpt) (take 140 (toLowerCase t))) terms)"
proof (cases "trim (collapse_ws txt) = []")
  case True
  then show ?thesis
    by - (rule exI [of _ "[]"], rule exI [of _ "[]"],
      simp add: buildSnippet_def wrapped_def marked_html_def escapeHtml_chars marks_terms_def str_includes_iff toLowerCase_def list_ex_iff)
next
  case False
  let ?clean = "trim (collapse_ws txt)"
  from buildSnippet_parts [OF refl False, of terms] obtain start stop where
    st: "wrapped (buildSnippet txt terms)
      (if uniqueTerms terms \<noteq> [] then mark_matches (map escapeRegExp (map escapeHtml (uniqueTerms terms))) (escapeHtml (drop start (take stop ?clean)))
       else escapeHtml (drop start (take stop ?clean)))" "stop \<le> start + 210"
    "\<And>p. first_match (toLowerCase ?clean) terms = Some p \<Longrightarrow> start = p - RADIUS \<and> stop = min (length ?clean) (p + RADIUS * 2)"
    by blast
  let ?excerpt = "drop start (take stop ?clean)"
  from highlight_pieces [of "uniqueTerms terms" "escapeHtml ?excerpt"] obtain ps where
    html: "(if uniqueTerms terms \<noteq> [] then mark_matches (map escapeRegExp (map escapeHtml (uniqueTerms terms))) (escapeHtml ?excerpt)
       else escapeHtml ?excerpt) = marked_html ps"
    and ps: "concat (map snd ps) = escapeHtml ?excerpt" "marks_terms (map escapeHtml (uniqueTerms terms)) ps" by blast
  from st(1) have wrap: "wrapped (buildSnippet txt terms) (marked_html ps)" by (simp only: html)
  have "marks_terms (map (\<lambda>t. escapeHtml (toLowerCase (trim t))) terms) ps"
    by (rule marks_terms_mono [OF ps(2)]) (use set_uniqueTerms [of terms] in auto)
  moreover have "sublist ?excerpt ?clean" unfolding sublist_def by (metis append_take_drop_id append_assoc)
  moreover have "list_ex (\<lambda>t. t \<noteq> [] \<and> str_includes (toLowerCase ?excerpt) (take 140 (toLowerCase t))) terms"
    if "list_ex (\<lambda>t. t \<noteq> [] \<and> str_includes (toLowerCase ?clean) (toLowerCase t)) terms"
  proof -
    from that obtain p where p: "first_match (toLowerCase ?clean) terms = Some p"
      by (cases "first_match (toLowerCase ?clean) terms") (auto simp: first_match_None list_ex_iff str_includes_def)
    from first_match_Some [OF p] obtain t where "t \<in> set terms" "t \<noteq> []"
      "indexOf (toLowerCase ?clean) (toLowerCase t) = Some p" by blast
    moreover from this(3) have "str_includes (toLowerCase ?excerpt) (take 140 (toLowerCase t))"
      using excerpt_shows_hit [of ?clean t p] st(3) [OF p] by simp
    ultimately show ?thesis by (auto simp: list_ex_iff)
  qed
  moreover have "length ?excerpt \<le> 210" using st(2) by simp
  ultimately show ?thesis using wrap ps(1) escapeHtml_safe [of ?excerpt]
    by (intro exI [of _ ?excerpt] exI [of _ ps] conjI impI) (simp_all only: ps(1))
qed

text \<open>Quick capture reads back what is written: of a note made of tags, projects and other words the parser returns
  the words as content, the last project, and each tag once in the order of first mention.\<close>

theorem parse_capture_roundtrip:
  assumes "list_all capture_ok toks" "projects = concat (map cprojects toks)"
  shows "parse_capture (join '' '' (map print_capture toks)) =
    \<lparr>pr_content = join '' '' (concat (map cwords toks)), pr_project = (if projects = [] then None else Some (last projects)),
      pr_tags = js_unique (concat (map ctags toks))\<rparr>"
proof -
  let ?x = "blank_markers TAG_REGEX True (blank_markers PROJECT_REGEX True (join '' '' (map print_capture toks)))"
  have "trim (join [CHR 0x0A] (map (\<lambda>line. trim (collapse_ws line)) (split_char (CHR 0x0A) ?x))) = trim (collapse_ws ?x)"
    using split_char_single [OF capture_one_line [OF assms(1)]] by simp
  then show ?thesis
    by (simp add: parse_capture_def parseContent_def parseProject_def parseTags_def capture_markers [OF assms(1)] fold_last
        trim_collapse capture_words [OF assms(1)] assms(2))
qed

section \<open>Witnesses and examples\<close>

theorem parseQuery_roundtrip_witness:
  "parseQuery (print_query [''two words''] [QWord ''plan'', QProject ''work'', QExclude ''old'', QWord ''title:x'']) =
     \<lparr>pq_text = ''plan title:x'', pq_projects = [''work''], pq_tags = [], pq_excludes = [''old''],
       pq_phrases = [''two words''], pq_unsupported = [''title:x'']\<rparr>"
  by (subst parseQuery_roundtrip)
    (simp_all add: plain_def is_space_def search_page_only_def lower_operators toLowerCase_def)

theorem buildSnippet_safe_witness:
  "\<exists>ps. wrapped (buildSnippet ''Read  <b> notes'' [''Note'']) (marked_html ps) \<and>
     buildSnippet ''Read  <b> notes'' [''Note''] = ''Read &lt;b&gt; <mark>note</mark>s'' \<and>
     marks_terms [''note''] ps"
proof -
  have e: "buildSnippet ''Read  <b> notes'' [''Note''] = ''Read &lt;b&gt; <mark>note</mark>s''"
    "map (\<lambda>t. escapeHtml (toLowerCase (trim t))) [''Note''] = [''note'']" by code_simp+
  show ?thesis
    using buildSnippet_safe [of "''Read  <b> notes''" "[''Note'']"] unfolding e
    by (elim exE conjE) (intro exI conjI, assumption, rule refl, assumption)
qed

theorem parse_capture_roundtrip_witness:
  "parse_capture ''#todo call @work Bob #todo'' = \<lparr>pr_content = ''call Bob'', pr_project = Some ''work'', pr_tags = [''todo'']\<rparr>"
  using parse_capture_roundtrip [of "[CTag ''todo'', CWord ''call'', CProject ''work'', CWord ''Bob'', CTag ''todo'']" "[''work'']"]
  by (simp add: is_word_char_def is_alias_char_def is_digit_def is_space_def js_unique_def)

text \<open>Terms are looked for in the escaped text, so one that is part of an entity breaks the entity up.\<close>

lemma snippet_breaks_entity: "buildSnippet ''a<b'' [''lt''] = ''a&<mark>lt</mark>;b''"
  by code_simp

text \<open>Removing a tag can leave text that reads as a tag.\<close>

lemma capture_leaves_tag:
  "parse_capture ''a #b#c'' = \<lparr>pr_content = ''a #c'', pr_project = None, pr_tags = [''b'']\<rparr>"
  by code_simp

end
