(* ===== verification/Search_Index.thy ===== *)
theory Search_Index
  imports Search_Text "HOL-Library.List_Lexorder" "HOL-Library.Char_ord"
begin

text \<open>
  The client-side search index: \<open>search-index/searchIndex.store.ts\<close> and the event wiring of
  \<open>app/SearchIndexStoreInit.tsx\<close>.  The full-text engine is the MiniSearch package: \<open>addAll\<close> builds an index from
  the records, or throws, and \<open>msearch\<close> answers a query with ranked ids and terms; both are parameters.  The vault
  is what the backend would export; it changes at any time, and every change is announced by an event.
\<close>

section \<open>Documents and results\<close>

record index_doc =
  doc_id :: string
  doc_type :: string
  doc_title :: string
  doc_body :: string
  doc_alias :: string
  doc_tags :: string
  doc_updated :: string
  doc_noteId :: string

record finder_item =
  fi_key :: string
  fi_type :: string
  fi_title :: string
  fi_projectAlias :: string
  fi_path :: string
  fi_updated :: string
  fi_snippets :: "string list"
  fi_matchCount :: nat
  fi_noteId :: "string option"

definition SEARCH_LIMIT :: nat where "SEARCH_LIMIT = 50"

definition docHasTag :: "index_doc \<Rightarrow> string \<Rightarrow> bool" where
  "docHasTag doc tag \<longleftrightarrow> str_includes ('' '' @ toLowerCase (doc_tags doc) @ '' '') ('' '' @ tag @ '' '')"

definition toFinderItem :: "index_doc \<Rightarrow> string list \<Rightarrow> finder_item" where
  "toFinderItem doc terms =
     \<lparr>fi_key = doc_id doc, fi_type = (if doc_type doc = ''note'' then ''note'' else ''document''),
       fi_title = doc_title doc, fi_projectAlias = doc_alias doc, fi_path = doc_id doc, fi_updated = doc_updated doc,
       fi_snippets = (if doc_body doc \<noteq> [] then [buildSnippet (doc_body doc) terms] else []),
       fi_matchCount = length terms,
       fi_noteId = (if doc_noteId doc \<noteq> [] then Some (doc_noteId doc) else None)\<rparr>"

definition docText :: "index_doc \<Rightarrow> string" where
  "docText doc = toLowerCase (doc_title doc @ [CHR 0x0A] @ doc_body doc)"

definition passesFilters :: "parsed_query \<Rightarrow> index_doc \<Rightarrow> bool" where
  "passesFilters q doc =
     (if pq_projects q \<noteq> [] \<and> toLowerCase (stripAt (doc_alias doc)) \<notin> set (pq_projects q) then False
      else if pq_tags q \<noteq> [] \<and> \<not> list_all (docHasTag doc) (pq_tags q) then False
      else if pq_phrases q \<noteq> [] \<or> pq_excludes q \<noteq> [] then
        (let dt = docText doc in
         if pq_phrases q \<noteq> [] \<and> \<not> list_all (\<lambda>p. str_includes dt (toLowerCase p)) (pq_phrases q) then False
         else if pq_excludes q \<noteq> [] \<and> list_ex (\<lambda>e. str_includes dt (toLowerCase e)) (pq_excludes q) then False
         else True)
      else True)"

section \<open>The store\<close>

datatype index_status = IxIdle | IxBuilding | IxReady | IxError

record 'ix search_store =
  ix_status :: index_status
  ix_index :: "'ix option"
  docsById :: "(string, index_doc) jsmap"

type_synonym 'ix msearch = "'ix \<Rightarrow> string \<Rightarrow> (string \<times> string list) list"

text \<open>The loop over the ranked hits, which stops when the list is full.\<close>

fun collect_hits :: "(string, index_doc) jsmap \<Rightarrow> parsed_query \<Rightarrow> (string \<times> string list) list \<Rightarrow> finder_item list
    \<Rightarrow> finder_item list" where
  "collect_hits docs q [] items = items"
| "collect_hits docs q ((i, terms) # hits) items =
     (case map_get docs i of
        None \<Rightarrow> collect_hits docs q hits items
      | Some doc \<Rightarrow>
          if \<not> passesFilters q doc then collect_hits docs q hits items
          else
            let items' = items @ [toFinderItem doc terms]
            in if SEARCH_LIMIT \<le> length items' then items' else collect_hits docs q hits items')"

text \<open>Sorting by \<open>updated\<close> with the newest first keeps the order of equal entries.\<close>

definition newest_first :: "index_doc list \<Rightarrow> index_doc list" where
  "newest_first ds = rev (sort_key doc_updated (rev ds))"

definition has_text :: "parsed_query \<Rightarrow> bool" where
  "has_text q \<longleftrightarrow> 0 < length (trim (pq_text q))"

definition search :: "'ix msearch \<Rightarrow> ('ix, 'z) search_store_scheme \<Rightarrow> string \<Rightarrow> finder_item list" where
  "search msearch s query =
     (case ix_index s of
        None \<Rightarrow> []
      | Some index \<Rightarrow>
          let q = parseQuery query;
              hasPhrases = pq_phrases q \<noteq> [];
              hasFilters = pq_projects q \<noteq> [] \<or> pq_tags q \<noteq> []
          in if \<not> has_text q \<and> \<not> hasPhrases \<and> \<not> hasFilters then []
             else if has_text q then collect_hits (docsById s) q (msearch index (pq_text q)) []
             else map (\<lambda>doc. toFinderItem doc (pq_phrases q))
                    (take SEARCH_LIMIT (newest_first (filter (passesFilters q) (map_values (docsById s))))))"

section \<open>Building\<close>

text \<open>An export is asked for, then the backend reads the vault, then it answers.\<close>

datatype export = Requested | Snapshot "index_doc list"

record 'ix search_system = "'ix search_store" +
  rebuildPending :: bool
  rebuildTimer :: bool
  inflight :: "export option"
  vault :: "index_doc list"

definition build :: "('ix, 'z) search_system_scheme \<Rightarrow> ('ix, 'z) search_system_scheme" where
  "build s =
     (if ix_status s = IxBuilding then s\<lparr>rebuildPending := True\<rparr>
      else s\<lparr>ix_status := IxBuilding, rebuildPending := False, inflight := Some Requested\<rparr>)"

definition docs_map :: "index_doc list \<Rightarrow> (string, index_doc) jsmap" where
  "docs_map records = fold (\<lambda>rec m. map_set (doc_id rec) rec m) records []"

text \<open>The rest of \<open>build\<close> after the answer, \<open>None\<close> for a rejected export; a \<open>null\<close> answer is an empty list.\<close>

definition build_done :: "(index_doc list \<Rightarrow> 'ix option) \<Rightarrow> index_doc list option \<Rightarrow> ('ix, 'z) search_system_scheme
    \<Rightarrow> ('ix, 'z) search_system_scheme" where
  "build_done addAll answer s =
     (let s' = (case answer of
          None \<Rightarrow> s\<lparr>ix_status := IxError\<rparr>
        | Some records \<Rightarrow>
            (case addAll records of
               None \<Rightarrow> s\<lparr>ix_status := IxError\<rparr>
             | Some index \<Rightarrow> s\<lparr>ix_index := Some index, docsById := docs_map records, ix_status := IxReady\<rparr>));
          s'' = s'\<lparr>inflight := None\<rparr>
      in if rebuildPending s'' then build s'' else s'')"

definition scheduleRebuild :: "('ix, 'z) search_system_scheme \<Rightarrow> ('ix, 'z) search_system_scheme" where
  "scheduleRebuild s = s\<lparr>rebuildTimer := True\<rparr>"

definition rebuild_fires :: "('ix, 'z) search_system_scheme \<Rightarrow> ('ix, 'z) search_system_scheme" where
  "rebuild_fires s = (if rebuildTimer s then build (s\<lparr>rebuildTimer := False\<rparr>) else s)"

datatype search_event = VaultChange "index_doc list" | TimerFires | BuildCommand | BackendReads | BackendAnswers | BackendFails

fun search_step :: "(index_doc list \<Rightarrow> 'ix option) \<Rightarrow> search_event \<Rightarrow> 'ix search_system \<Rightarrow> 'ix search_system" where
  "search_step addAll (VaultChange v) s = scheduleRebuild (s\<lparr>vault := v\<rparr>)"
| "search_step addAll TimerFires s = rebuild_fires s"
| "search_step addAll BuildCommand s = build s"
| "search_step addAll BackendReads s =
     (if inflight s = Some Requested then s\<lparr>inflight := Some (Snapshot (vault s))\<rparr> else s)"
| "search_step addAll BackendAnswers s =
     (case inflight s of Some (Snapshot records) \<Rightarrow> build_done addAll (Some records) s | _ \<Rightarrow> s)"
| "search_step addAll BackendFails s = (if inflight s \<noteq> None then build_done addAll None s else s)"

text \<open>\<open>SearchIndexStoreInit\<close> builds once on boot.\<close>

definition search_boot :: "index_doc list \<Rightarrow> 'ix search_system" where
  "search_boot v = build \<lparr>ix_status = IxIdle, ix_index = None, docsById = [], rebuildPending = False, rebuildTimer = False,
     inflight = None, vault = v\<rparr>"

section \<open>Freshness\<close>

definition index_inv :: "(index_doc list \<Rightarrow> 'ix option) \<Rightarrow> 'ix search_system \<Rightarrow> bool" where
  "index_inv addAll s \<longleftrightarrow>
     (ix_status s = IxBuilding \<longleftrightarrow> inflight s \<noteq> None) \<and> (rebuildPending s \<longrightarrow> inflight s \<noteq> None) \<and>
     (rebuildTimer s \<or> rebuildPending s \<or>
       (case inflight s of
          Some Requested \<Rightarrow> True
        | Some (Snapshot records) \<Rightarrow> records = vault s
        | None \<Rightarrow> ix_status s = IxReady \<longrightarrow> docsById s = docs_map (vault s) \<and> ix_index s = addAll (vault s)))"

lemma build_inv: "ix_status s = IxBuilding \<longleftrightarrow> inflight s \<noteq> None \<Longrightarrow> index_inv addAll (build s)"
  by (auto simp: build_def index_inv_def)

lemma build_done_inv:
  assumes "index_inv addAll s" "inflight s = Some x" "answer = None \<or> (\<exists>r. x = Snapshot r \<and> answer = Some r)"
  shows "index_inv addAll (build_done addAll answer s)"
proof (cases answer)
  case None
  with assms show ?thesis by (auto simp: build_done_def Let_def build_def index_inv_def)
next
  case (Some r)
  with assms(3) have x: "x = Snapshot r" by simp
  show ?thesis
  proof (cases "addAll r")
    case None
    with Some show ?thesis by (auto simp: build_done_def Let_def build_def index_inv_def)
  next
    case (Some ix)
    with \<open>answer = Some r\<close> assms(1,2) x show ?thesis
      by (auto simp: build_done_def Let_def build_def index_inv_def)
  qed
qed

lemma search_step_inv: "index_inv addAll s \<Longrightarrow> index_inv addAll (search_step addAll e s)"
proof (cases e)
  case (VaultChange v)
  assume "index_inv addAll s"
  with VaultChange show ?thesis by (simp add: index_inv_def scheduleRebuild_def)
next
  case TimerFires
  assume "index_inv addAll s"
  moreover from this have "index_inv addAll (build (s\<lparr>rebuildTimer := False\<rparr>))"
    by (intro build_inv) (simp add: index_inv_def)
  ultimately show ?thesis using TimerFires by (simp add: rebuild_fires_def)
next
  case BuildCommand
  assume "index_inv addAll s"
  then have "index_inv addAll (build s)" by (intro build_inv) (simp add: index_inv_def)
  with BuildCommand show ?thesis by simp
next
  case BackendReads
  assume "index_inv addAll s"
  with BackendReads show ?thesis by (auto simp: index_inv_def)
next
  case BackendAnswers
  assume "index_inv addAll s"
  with BackendAnswers show ?thesis
    by (auto split: option.split export.split intro: build_done_inv)
next
  case BackendFails
  assume "index_inv addAll s"
  with BackendFails show ?thesis by (auto intro: build_done_inv)
qed

lemma search_run_inv: "index_inv addAll (fold (search_step addAll) evs (search_boot v))"
proof -
  have "index_inv addAll (search_boot v)" unfolding search_boot_def by (rule build_inv) simp
  then show ?thesis
  proof (induction evs rule: rev_induct)
    case (snoc e evs)
    then show ?case by (simp add: search_step_inv)
  qed simp
qed

text \<open>Once the timer has run out, one round of the backend, or two when a rebuild is waiting behind the one that runs,
  brings the index up to date.\<close>

definition backend_round :: "search_event list" where
  "backend_round = [BackendReads, BackendAnswers]"

lemma round_plain:
  assumes "inflight s = Some Requested" "\<not> rebuildPending s" "addAll (vault s) = Some ix"
  shows "fold (search_step addAll) backend_round s =
    s\<lparr>ix_status := IxReady, ix_index := Some ix, docsById := docs_map (vault s), inflight := None\<rparr>"
  using assms by (simp add: backend_round_def build_done_def Let_def)

lemma round_idle: "inflight s = None \<Longrightarrow> fold (search_step addAll) backend_round s = s"
  by (simp add: backend_round_def)

lemma build_done_pending:
  assumes "rebuildPending s"
  shows "inflight (build_done addAll answer s) = Some Requested \<and> \<not> rebuildPending (build_done addAll answer s) \<and>
    vault (build_done addAll answer s) = vault s \<and> rebuildTimer (build_done addAll answer s) = rebuildTimer s"
  using assms by (cases answer) (simp_all add: build_done_def Let_def build_def split: option.split)

lemma round_pending:
  assumes "inflight s = Some x" "rebuildPending s" "s' = fold (search_step addAll) backend_round s"
  shows "inflight s' = Some Requested" "\<not> rebuildPending s'" "vault s' = vault s" "rebuildTimer s' = rebuildTimer s"
  using assms build_done_pending [of "s\<lparr>inflight := Some (Snapshot (vault s))\<rparr>" addAll] build_done_pending [of s addAll]
  by (cases x; simp add: backend_round_def)+

lemma round_snapshot:
  assumes "inflight s = Some (Snapshot (vault s))" "\<not> rebuildPending s" "addAll (vault s) = Some ix"
  shows "fold (search_step addAll) backend_round s =
    s\<lparr>ix_status := IxReady, ix_index := Some ix, docsById := docs_map (vault s), inflight := None\<rparr>"
  using assms by (simp add: backend_round_def build_done_def Let_def)

definition up_to_date :: "(index_doc list \<Rightarrow> 'ix option) \<Rightarrow> 'ix search_system \<Rightarrow> bool" where
  "up_to_date addAll s \<longleftrightarrow> \<not> rebuildTimer s \<and> ix_status s = IxReady \<and> docsById s = docs_map (vault s) \<and> ix_index s = addAll (vault s)"

lemma two_rounds:
  assumes inv: "index_inv addAll s" and s: "inflight s = Some x" "\<not> rebuildTimer s" and ix: "addAll (vault s) = Some ix"
  shows "\<exists>s'. fold (search_step addAll) (backend_round @ backend_round) s = s' \<and> up_to_date addAll s' \<and> vault s' = vault s"
proof (cases "rebuildPending s")
  case True
  note first = round_pending [OF s(1) True refl, of addAll]
  with round_plain [OF first(1,2), of addAll ix] ix s show ?thesis by (simp add: up_to_date_def)
next
  case False
  show ?thesis
  proof (cases x)
    case Requested
    with s False round_plain [of s addAll ix] ix show ?thesis by (simp add: round_idle up_to_date_def)
  next
    case (Snapshot r)
    with inv s False have "inflight s = Some (Snapshot (vault s))" by (simp add: index_inv_def)
    with s False round_snapshot [of s addAll ix] ix show ?thesis by (simp add: round_idle up_to_date_def)
  qed
qed

section \<open>What a search returns\<close>

text \<open>What the parts of a query ask of a document.\<close>

definition satisfies :: "parsed_query \<Rightarrow> index_doc \<Rightarrow> bool" where
  "satisfies q doc \<longleftrightarrow>
     (pq_projects q \<noteq> [] \<longrightarrow> toLowerCase (stripAt (doc_alias doc)) \<in> set (pq_projects q)) \<and>
     set (pq_tags q) \<subseteq> set (split_char (CHR '' '') (toLowerCase (doc_tags doc))) \<and>
     list_all (\<lambda>p. sublist (toLowerCase p) (docText doc)) (pq_phrases q) \<and>
     \<not> list_ex (\<lambda>e. sublist (toLowerCase e) (docText doc)) (pq_excludes q)"

lemma sublist_skip:
  assumes "CHR '' '' \<notin> set w"
  shows "sublist (CHR '' '' # p) (w @ r) \<longleftrightarrow> sublist (CHR '' '' # p) r"
  using assms by (induction w) (auto simp: sublist_Cons_right)

lemma prefix_word:
  assumes "CHR '' '' \<notin> set w" "CHR '' '' \<notin> set t"
  shows "prefix (t @ '' '') (w @ CHR '' '' # r) \<longleftrightarrow> t = w"
  using assms
proof (induction t arbitrary: w)
  case Nil
  then show ?case by (cases w) auto
next
  case (Cons a t)
  then show ?case by (cases w) auto
qed

lemma sublist_word:
  assumes "CHR '' '' \<notin> set w" "CHR '' '' \<notin> set t"
  shows "sublist (CHR '' '' # t @ '' '') (CHR '' '' # w @ CHR '' '' # r) \<longleftrightarrow> t = w \<or> sublist (CHR '' '' # t @ '' '') (CHR '' '' # r)"
  using assms prefix_word [OF assms] sublist_skip [OF assms(1), of "t @ '' ''" "CHR '' '' # r"]
  by (simp add: sublist_Cons_right [of _ "CHR '' ''" "w @ CHR '' '' # r"])

text \<open>Looking for a tag between blanks finds exactly the tags of the blank-separated list.\<close>

lemma tag_in_list:
  assumes "CHR '' '' \<notin> set t"
  shows "sublist (CHR '' '' # t @ '' '') (CHR '' '' # s @ '' '') \<longleftrightarrow> t \<in> set (split_char (CHR '' '') s)"
proof (induction "length s" arbitrary: s rule: less_induct)
  case less
  have none: "\<not> sublist (CHR '' '' # t @ '' '') '' ''" by (auto dest: sublist_length_le)
  show ?case
  proof (cases "CHR '' '' \<in> set s")
    case True
    then obtain w r where s: "s = w @ CHR '' '' # r" "CHR '' '' \<notin> set w" by (metis split_list_first)
    from less [of r] s sublist_word [OF s(2) assms, of "r @ '' ''"] split_char_append [OF s(2), of r] show ?thesis by simp
  next
    case False
    with none sublist_word [OF False assms, of "[]"] split_char_single [OF False] show ?thesis by simp
  qed
qed

lemma docHasTag_iff:
  "CHR '' '' \<notin> set t \<Longrightarrow> docHasTag doc t \<longleftrightarrow> t \<in> set (split_char (CHR '' '') (toLowerCase (doc_tags doc)))"
  using tag_in_list [of t "toLowerCase (doc_tags doc)"] by (simp add: docHasTag_def str_includes_iff)

lemma split_ws_no_space: "w \<in> set (split_ws s) \<Longrightarrow> CHR '' '' \<notin> set w"
proof (induction s rule: split_ws.induct)
  case (1 s)
  show ?case
  proof (cases "dropWhile (\<lambda>c. \<not> is_space c) s")
    case Nil
    with 1(2) have "w = s" by (simp add: split_ws.simps [of s])
    moreover from Nil have "\<forall>c\<in>set s. \<not> is_space c" by simp
    ultimately show ?thesis by auto
  next
    case (Cons c r)
    with 1(2) have "w = takeWhile (\<lambda>c. \<not> is_space c) s \<or> w \<in> set (split_ws (dropWhile is_space r))"
      by (simp add: split_ws.simps [of s])
    with 1(1) [OF Cons] show ?thesis by (auto dest: set_takeWhileD)
  qed
qed

lemma lower_space: "lower_char c = CHR '' '' \<longleftrightarrow> c = CHR '' ''"
proof (cases "is_upper c")
  case True
  then have "ccode c + 32 < 256" "c \<noteq> CHR '' ''" by (auto simp: is_upper_def)
  moreover from this(1) have "ccode (lower_char c) = ccode c + 32" using True by (simp add: lower_char_def)
  moreover have "ccode c \<noteq> 0" using True by (auto simp: is_upper_def)
  ultimately show ?thesis by auto
qed (simp add: lower_char_def)

lemma space_toLowerCase [simp]: "CHR '' '' \<in> set (toLowerCase s) \<longleftrightarrow> CHR '' '' \<in> set s"
proof (induction s)
  case (Cons c s)
  have "CHR '' '' = lower_char c \<longleftrightarrow> CHR '' '' = c" using lower_space [of c] by metis
  with Cons show ?case by (simp add: toLowerCase_def)
qed (simp add: toLowerCase_def)

lemma parse_token_tags:
  assumes "CHR '' '' \<notin> set tok" "\<forall>t\<in>set (qa_tags a). CHR '' '' \<notin> set t"
  shows "\<forall>t\<in>set (qa_tags (parse_token tok a)). CHR '' '' \<notin> set t"
proof -
  have "CHR '' '' \<notin> set (toLowerCase (stripHash (drop 4 tok)))"
    using assms(1) by (auto simp: stripHash_def dest: set_dropWhileD in_set_dropD)
  with assms(2) show ?thesis by (simp add: parse_token_def Let_def)
qed

lemma fold_parse_tags:
  "\<forall>w\<in>set ws. CHR '' '' \<notin> set w \<Longrightarrow> \<forall>t\<in>set (qa_tags a). CHR '' '' \<notin> set t \<Longrightarrow>
    \<forall>t\<in>set (qa_tags (fold parse_token ws a)). CHR '' '' \<notin> set t"
proof (induction ws arbitrary: a)
  case (Cons w ws)
  have "\<forall>t\<in>set (qa_tags (parse_token w a)). CHR '' '' \<notin> set t" using Cons.prems by (intro parse_token_tags) simp_all
  with Cons.IH Cons.prems(1) show ?case by simp
qed simp

lemma parseQuery_tags: "\<forall>t\<in>set (pq_tags (parseQuery q)). CHR '' '' \<notin> set t"
  unfolding parseQuery_def Let_def parsed_query.select_convs
  by (rule fold_parse_tags) (use split_ws_no_space in blast, simp)

lemma passesFilters_iff: "passesFilters (parseQuery q) doc \<longleftrightarrow> satisfies (parseQuery q) doc"
proof -
  have "list_all (docHasTag doc) (pq_tags (parseQuery q)) \<longleftrightarrow>
      set (pq_tags (parseQuery q)) \<subseteq> set (split_char (CHR '' '') (toLowerCase (doc_tags doc)))"
    using parseQuery_tags docHasTag_iff by (auto simp: list_all_iff)
  then show ?thesis unfolding passesFilters_def satisfies_def Let_def str_includes_iff
    by (cases "pq_tags (parseQuery q) = []"; cases "pq_phrases (parseQuery q) = []"; cases "pq_excludes (parseQuery q) = []") simp_all
qed

definition hit_item :: "(string, index_doc) jsmap \<Rightarrow> parsed_query \<Rightarrow> string \<times> string list \<Rightarrow> finder_item list" where
  "hit_item docs q h =
     (case map_get docs (fst h) of Some doc \<Rightarrow> if passesFilters q doc then [toFinderItem doc (snd h)] else [] | None \<Rightarrow> [])"

lemma collect_hits_take:
  "length items < SEARCH_LIMIT \<Longrightarrow>
    collect_hits docs q hits items = take SEARCH_LIMIT (items @ concat (map (hit_item docs q) hits))"
proof (induction docs q hits items rule: collect_hits.induct)
  case (2 docs q i terms hits items)
  show ?case
  proof (cases "map_get docs i")
    case None
    with 2 show ?thesis by (simp add: hit_item_def)
  next
    case (Some doc)
    show ?thesis
    proof (cases "passesFilters q doc")
      case False
      with Some 2 show ?thesis by (simp add: hit_item_def)
    next
      case True
      show ?thesis
      proof (cases "SEARCH_LIMIT \<le> Suc (length items)")
        case full: True
        with 2(4) have "SEARCH_LIMIT - length items = Suc 0" by linarith
        with full Some True show ?thesis by (simp add: hit_item_def Let_def)
      next
        case False
        with Some True 2(3) show ?thesis by (simp add: hit_item_def Let_def)
      qed
    qed
  qed
qed simp

lemma docs_map_entries:
  "wf_map (docs_map records) \<and> (\<forall>(i, doc)\<in>set (docs_map records). doc_id doc = i \<and> doc \<in> set records)"
proof (induction records rule: rev_induct)
  case (snoc r records)
  have step: "docs_map (records @ [r]) = map_set (doc_id r) r (docs_map records)" by (simp add: docs_map_def)
  from snoc show ?case unfolding step by (auto simp: set_map_set_wf)
qed (simp add: docs_map_def)

lemma docs_map_get:
  assumes "map_get (docs_map records) i = Some doc"
  shows "doc_id doc = i" "doc \<in> set records" "doc \<in> set (map_values (docs_map records))"
  using assms docs_map_entries [of records] by (force simp: map_of_wf_set map_values_def)+

lemma docs_map_value:
  assumes "doc \<in> set (map_values (docs_map records))"
  shows "map_get (docs_map records) (doc_id doc) = Some doc" "doc \<in> set records"
  using assms docs_map_entries [of records] by (auto simp: map_of_wf_set map_values_def)

lemma set_newest_first [simp]: "set (newest_first ds) = set ds"
  by (simp add: newest_first_def)

lemma length_newest_first [simp]: "length (newest_first ds) = length ds"
  by (simp add: newest_first_def)

lemma sorted_newest_first: "sorted_wrt (\<lambda>a b. doc_updated b \<le> doc_updated a) (newest_first ds)"
proof -
  have "sorted_wrt (\<lambda>a b. doc_updated a \<le> doc_updated b) (sort_key doc_updated (rev ds))"
    using sorted_sort_key [of doc_updated "rev ds"] by (simp add: sorted_wrt_map)
  then show ?thesis by (simp add: newest_first_def sorted_wrt_rev)
qed

lemma item_fields [simp]:
  "fi_key (toFinderItem doc terms) = doc_id doc" "fi_updated (toFinderItem doc terms) = doc_updated doc"
  by (simp_all add: toFinderItem_def)

lemma take_all_short: "length (take n xs) < n \<Longrightarrow> take n xs = xs"
  by simp

section \<open>Properties\<close>


text \<open>C39. Search returns the right documents: at most 50, each of them an indexed document that satisfies the project,
  tag, phrase and exclusion parts of the query, and a ranked hit when the query has text; when there are fewer than 50
  none is missing, and without text they come newest first.\<close>

theorem search_correct:
  assumes "docsById s = docs_map records" "ix_index s = Some index" "q = parseQuery query"
    and "has_text q \<or> pq_phrases q \<noteq> [] \<or> pq_projects q \<noteq> [] \<or> pq_tags q \<noteq> []" "res = search msearch s query"
    and "hits = (if has_text q then fst ` set (msearch index (pq_text q)) else UNIV)"
  shows "length res \<le> 50 \<and>
    (\<forall>item\<in>set res. \<exists>doc\<in>set records. \<exists>terms. satisfies q doc \<and> doc_id doc \<in> hits \<and> item = toFinderItem doc terms) \<and>
    (length res < 50 \<longrightarrow>
      (\<forall>doc\<in>set (map_values (docs_map records)). satisfies q doc \<and> doc_id doc \<in> hits \<longrightarrow> doc_id doc \<in> fi_key ` set res)) \<and>
    (\<not> has_text q \<longrightarrow> sorted_wrt (\<lambda>a b. fi_updated b \<le> fi_updated a) res)"
proof -
  let ?items = "if has_text q then concat (map (hit_item (docs_map records) q) (msearch index (pq_text q)))
     else map (\<lambda>doc. toFinderItem doc (pq_phrases q)) (newest_first (filter (passesFilters q) (map_values (docs_map records))))"
  have res: "res = take 50 ?items"
    using assms(1-5) collect_hits_take [of "[]" "docs_map records" q "msearch index (pq_text q)"]
    by (auto simp: search_def Let_def SEARCH_LIMIT_def take_map)
  have pass: "passesFilters q doc \<longleftrightarrow> satisfies q doc" for doc using assms(3) by (simp add: passesFilters_iff)
  have "\<exists>doc\<in>set records. \<exists>terms. satisfies q doc \<and> doc_id doc \<in> hits \<and> item = toFinderItem doc terms"
    if "item \<in> set res" for item
  proof (cases "has_text q")
    case True
    from that res True have "item \<in> set (concat (map (hit_item (docs_map records) q) (msearch index (pq_text q))))"
      by (auto dest: in_set_takeD)
    then obtain h where h: "h \<in> set (msearch index (pq_text q))" "item \<in> set (hit_item (docs_map records) q h)" by auto
    then obtain doc where "map_get (docs_map records) (fst h) = Some doc" "satisfies q doc" "item = toFinderItem doc (snd h)"
      by (cases "map_get (docs_map records) (fst h)") (auto simp: hit_item_def pass split: if_splits)
    with h(1) True docs_map_get [of records "fst h" doc] show ?thesis by (auto simp: assms(6))
  next
    case False
    with that res have "item \<in> set (map (\<lambda>doc. toFinderItem doc (pq_phrases q)) (newest_first (filter (passesFilters q) (map_values (docs_map records)))))"
      by (auto dest: in_set_takeD)
    then show ?thesis using docs_map_value(2) False by (auto simp: assms(6) pass)
  qed
  moreover have "doc_id doc \<in> fi_key ` set res"
    if "length res < 50" "doc \<in> set (map_values (docs_map records))" "satisfies q doc" "doc_id doc \<in> hits" for doc
  proof -
    have "res = ?items" using that(1) unfolding res by (rule take_all_short)
    with that(2-4) docs_map_value [OF that(2)] show ?thesis
      by (force simp: assms(6) hit_item_def pass split: if_splits)
  qed
  moreover have "sorted_wrt (\<lambda>a b. fi_updated b \<le> fi_updated a) res" if "\<not> has_text q"
    using that sorted_newest_first unfolding res by (simp add: sorted_wrt_map sorted_wrt_take)
  moreover have "length res \<le> 50" by (simp add: res)
  ultimately show ?thesis by blast
qed

section \<open>Witnesses\<close>

definition sample_record :: index_doc where
  "sample_record = \<lparr>doc_id = ''p/a.json'', doc_type = ''document'', doc_title = ''Plan'', doc_body = ''Ship the release'',
     doc_alias = ''@work'', doc_tags = ''todo urgent'', doc_updated = ''2026-01-02'', doc_noteId = []\<rparr>"

definition sample_events :: "search_event list" where
  "sample_events = [BackendReads, VaultChange [sample_record], TimerFires, BackendFails]"


definition sample_search :: "nat search_store" where
  "sample_search = \<lparr>ix_status = IxReady, ix_index = Some 1, docsById = docs_map [sample_record]\<rparr>"

lemma sample_query:
  "parseQuery ''ship project:work'' = \<lparr>pq_text = ''ship'', pq_projects = [''work''], pq_tags = [], pq_excludes = [],
     pq_phrases = [], pq_unsupported = []\<rparr>"
  by code_simp

theorem search_correct_witness:
  "map fi_key (search (\<lambda>ix txt. [(''p/a.json'', [''ship''])]) sample_search ''ship project:work'') = [''p/a.json''] \<and>
   list_all (\<lambda>item. \<exists>terms. satisfies (parseQuery ''ship project:work'') sample_record \<and> item = toFinderItem sample_record terms)
     (search (\<lambda>ix txt. [(''p/a.json'', [''ship''])]) sample_search ''ship project:work'')"
proof -
  have "map fi_key (search (\<lambda>ix txt. [(''p/a.json'', [''ship''])]) sample_search ''ship project:work'') = [''p/a.json'']"
    by code_simp
  moreover have "docsById sample_search = docs_map [sample_record]" "ix_index sample_search = Some 1"
    by (simp_all add: sample_search_def)
  ultimately show ?thesis
    using search_correct [of sample_search "[sample_record]" 1 "parseQuery ''ship project:work''" "''ship project:work''", OF _ _ refl _ refl refl]
    by (auto simp: sample_query list_all_iff)
qed

end
