(* ===== verification/Local_Stores.thy ===== *)
theory Local_Stores
  imports JS_Text
begin

text \<open>
  The stores that live in the browser's local storage: recent documents, command usage, tooltip usage, onboarding,
  progress and appearance (\<open>shared/stores/*.store.ts\<close>), and the ordering of commands by their usage
  (\<open>command-palette/utils/commandSorting.ts\<close>).  What is in local storage is text of unknown origin: a cell is
  \<open>None\<close> when there is none, \<open>Some None\<close> when \<open>JSON.parse\<close> would throw on it.  A value that passes validation is
  only cast, so the stores hold \<open>json\<close> trees, with whatever other properties they have.  \<open>persisted_store\<close> is the
  contract of the storage adapters; on start-up a store takes what its adapter loads and otherwise its initial state.
\<close>

type_synonym cell = "json option option"

section \<open>The contract\<close>

definition hydrated :: "'s option \<Rightarrow> 's \<Rightarrow> 's" where
  "hydrated loaded initial = (case loaded of Some s \<Rightarrow> s | None \<Rightarrow> initial)"

locale persisted_store =
  fixes load :: "cell \<Rightarrow> 's option"
    and save :: "'s \<Rightarrow> cell"
    and initial :: 's
    and typed :: "'s \<Rightarrow> bool"
    and step :: "'op \<Rightarrow> 's \<Rightarrow> 's"
  assumes load_typed: "load c = Some s \<Longrightarrow> typed s"
    and initial_typed: "typed initial"
    and load_save: "typed s \<Longrightarrow> hydrated (load (save s)) initial = s"
    and step_typed: "typed s \<Longrightarrow> typed (step a s)"
begin

lemma hydrated_typed: "typed (hydrated (load c) initial)"
  using load_typed initial_typed by (cases "load c") (simp_all add: hydrated_def)

lemma run_typed: "typed (fold step ops (hydrated (load c) initial))"
proof (induction ops rule: rev_induct)
  case (snoc a ops)
  then show ?case by (simp add: step_typed)
qed (simp add: hydrated_typed)

lemma run_reload:
  "hydrated (load (save (fold step ops (hydrated (load c) initial)))) initial = fold step ops (hydrated (load c) initial)"
  by (rule load_save [OF run_typed])

end

section \<open>Recent documents\<close>

definition MAX_RECENT_DOCUMENTS :: nat where "MAX_RECENT_DOCUMENTS = 10"

text \<open>\<open>typeof v === "object" && v !== null\<close>.\<close>

definition is_objectlike :: "json \<Rightarrow> bool" where
  "is_objectlike v \<longleftrightarrow> is_record v \<or> json_items v \<noteq> None"

definition is_recent :: "json \<Rightarrow> bool" where
  "is_recent doc \<longleftrightarrow> is_objectlike doc \<and> is_string (get_prop doc ''path'') \<and> is_string (get_prop doc ''title'') \<and>
     is_string (get_prop doc ''projectAlias'') \<and> is_number (get_prop doc ''lastOpened'')"

definition validateRecentDocuments :: "json \<Rightarrow> json list option" where
  "validateRecentDocuments data = (case json_items data of None \<Rightarrow> None | Some xs \<Rightarrow> Some (filter is_recent xs))"

definition parseStoredDocuments :: "json option \<Rightarrow> json list option" where
  "parseStoredDocuments raw =
     (case raw of
        None \<Rightarrow> None
      | Some parsed \<Rightarrow>
          (case get_prop parsed ''documents'' of
             Some documents \<Rightarrow>
               if is_objectlike parsed \<and> get_prop parsed ''version'' = Some (JNum 1) then validateRecentDocuments documents
               else if json_items parsed \<noteq> None then validateRecentDocuments parsed else None
           | None \<Rightarrow> if json_items parsed \<noteq> None then validateRecentDocuments parsed else None))"

definition recent_getItem :: "cell \<Rightarrow> json list option" where
  "recent_getItem c = (case c of None \<Rightarrow> None | Some raw \<Rightarrow> parseStoredDocuments raw)"

definition recent_setItem :: "json list \<Rightarrow> cell" where
  "recent_setItem documents =
     (if documents = [] then None else Some (Some (JObj [(''version'', JNum 1), (''documents'', JArr documents)])))"

definition path_of :: "json \<Rightarrow> json option" where
  "path_of doc = get_prop doc ''path''"

record recent_input =
  ri_path :: string
  ri_title :: string
  ri_alias :: string

definition recent_json :: "rat \<Rightarrow> recent_input \<Rightarrow> json" where
  "recent_json now doc = JObj [(''path'', JStr (ri_path doc)), (''title'', JStr (ri_title doc)),
     (''projectAlias'', JStr (ri_alias doc)), (''lastOpened'', JNum now)]"

fun remove_at :: "nat \<Rightarrow> 'a list \<Rightarrow> 'a list" where
  "remove_at i [] = []"
| "remove_at 0 (x # xs) = xs"
| "remove_at (Suc i) (x # xs) = x # remove_at i xs"

definition addRecentDocument :: "rat \<Rightarrow> recent_input \<Rightarrow> json list \<Rightarrow> json list" where
  "addRecentDocument now doc documents =
     (let newDoc = recent_json now doc;
          existingIndex = findIndex (\<lambda>d. path_of d = Some (JStr (ri_path doc))) documents;
          updated = (if existingIndex \<ge> 0 then newDoc # remove_at (nat existingIndex) documents else newDoc # documents)
      in take MAX_RECENT_DOCUMENTS updated)"

definition removeRecentDocument :: "string \<Rightarrow> json list \<Rightarrow> json list" where
  "removeRecentDocument path documents = filter (\<lambda>d. path_of d \<noteq> Some (JStr path)) documents"

definition updateRecentDocumentTitle :: "string \<Rightarrow> string \<Rightarrow> json list \<Rightarrow> json list" where
  "updateRecentDocumentTitle path title documents =
     (let idx = findIndex (\<lambda>d. path_of d = Some (JStr path)) documents in
      if idx < 0 then documents
      else
        let d = documents ! nat idx in
        if get_prop d ''title'' = Some (JStr title) then documents
        else documents[nat idx := JObj (map_set ''title'' (JStr title) (spread (Some d)))])"

text \<open>Refreshing the titles: \<open>fetch\<close> is what the backend knows of a document, \<open>None\<close> when it is deleted or could not
  be read, otherwise its title, empty when it has none.\<close>

definition refreshed_doc :: "(json option \<Rightarrow> string option) \<Rightarrow> json \<Rightarrow> json list" where
  "refreshed_doc fetch doc =
     (case fetch (path_of doc) of
        None \<Rightarrow> []
      | Some title \<Rightarrow> [JObj (map_set ''title'' (if title \<noteq> [] then JStr title else JStr (str_of (get_prop doc ''title''))) (spread (Some doc)))])"

definition recent_eq :: "json \<Rightarrow> json \<Rightarrow> bool" where
  "recent_eq a b \<longleftrightarrow> path_of a = path_of b \<and> get_prop a ''title'' = get_prop b ''title'' \<and>
     get_prop a ''projectAlias'' = get_prop b ''projectAlias'' \<and> get_prop a ''lastOpened'' = get_prop b ''lastOpened''"

definition areRecentDocumentsEqual :: "json list \<Rightarrow> json list \<Rightarrow> bool" where
  "areRecentDocumentsEqual a b \<longleftrightarrow> list_all2 recent_eq a b"

definition refresh_recents :: "(json option \<Rightarrow> string option) \<Rightarrow> json list \<Rightarrow> json list \<Rightarrow> json list" where
  "refresh_recents fetch documents current =
     (if documents = [] then current
      else
        let validated = concat (map (refreshed_doc fetch) documents)
        in if areRecentDocumentsEqual validated documents then current else validated)"

datatype recent_op =
    AddRecent rat recent_input
  | RemoveRecent string
  | ClearRecent
  | RetitleRecent string string
  | RefreshRecents "json option \<Rightarrow> string option"

fun recent_step :: "recent_op \<Rightarrow> json list \<Rightarrow> json list" where
  "recent_step (AddRecent now doc) ds = addRecentDocument now doc ds"
| "recent_step (RemoveRecent path) ds = removeRecentDocument path ds"
| "recent_step ClearRecent ds = []"
| "recent_step (RetitleRecent path title) ds = updateRecentDocumentTitle path title ds"
| "recent_step (RefreshRecents fetch) ds = refresh_recents fetch ds ds"

section \<open>Command usage\<close>

definition MAX_ENTRIES :: nat where "MAX_ENTRIES = 100"

type_synonym usage_record = "(string, json) jsmap"

definition is_usage :: "json \<Rightarrow> bool" where
  "is_usage v \<longleftrightarrow> is_objectlike v \<and> is_number (get_prop v ''lastUsed'') \<and> is_number (get_prop v ''useCount'')"

definition validateCommandUsage :: "json \<Rightarrow> usage_record option" where
  "validateCommandUsage data =
     (if \<not> is_record data then None
      else Some (fold (\<lambda>(key, v) validated. if is_usage v then map_set key v validated else validated) (entries data) []))"

definition parseStoredUsage :: "json option \<Rightarrow> usage_record option" where
  "parseStoredUsage raw =
     (case raw of
        None \<Rightarrow> None
      | Some parsed \<Rightarrow>
          (case get_prop parsed ''usage'' of
             Some usage \<Rightarrow>
               if is_objectlike parsed \<and> get_prop parsed ''version'' = Some (JNum 1) then validateCommandUsage usage
               else validateCommandUsage parsed
           | None \<Rightarrow> validateCommandUsage parsed))"

definition last_used :: "json \<Rightarrow> rat" where
  "last_used v = num_of (get_prop v ''lastUsed'')"

definition use_count :: "json \<Rightarrow> rat" where
  "use_count v = num_of (get_prop v ''useCount'')"

definition pruneUsageData :: "usage_record \<Rightarrow> usage_record" where
  "pruneUsageData usage =
     (if length usage \<le> MAX_ENTRIES then usage
      else fold (\<lambda>(key, v) pruned. map_set key v pruned)
             (drop (length usage - MAX_ENTRIES) (sort_key (\<lambda>e. last_used (snd e)) usage)) [])"

definition usage_getItem :: "cell \<Rightarrow> usage_record option" where
  "usage_getItem c =
     (case c of
        None \<Rightarrow> None
      | Some raw \<Rightarrow>
          (case parseStoredUsage raw of
             None \<Rightarrow> None
           | Some validated \<Rightarrow> Some (if MAX_ENTRIES < length validated then pruneUsageData validated else validated)))"

definition usage_setItem :: "usage_record \<Rightarrow> cell" where
  "usage_setItem usage = Some (Some (JObj [(''version'', JNum 1), (''usage'', JObj usage)]))"

definition recordCommandUsage :: "rat \<Rightarrow> string \<Rightarrow> usage_record \<Rightarrow> usage_record" where
  "recordCommandUsage now commandId usage =
     (let count = (case map_get usage commandId of Some e \<Rightarrow> use_count e | None \<Rightarrow> 0);
          updated = map_set commandId (JObj [(''lastUsed'', JNum now), (''useCount'', JNum (count + 1))]) usage
      in if MAX_ENTRIES < length updated then pruneUsageData updated else updated)"

section \<open>Tooltip usage\<close>

definition FADE_THRESHOLD :: rat where "FADE_THRESHOLD = 5"
definition DORMANCY_MS :: rat where "DORMANCY_MS = 30 * 24 * 60 * 60 * 1000"

definition is_tooltip :: "json \<Rightarrow> bool" where
  "is_tooltip v \<longleftrightarrow> is_objectlike v \<and> is_number (get_prop v ''seenCount'') \<and> is_number (get_prop v ''lastSeen'')"

definition validateTooltipUsage :: "json \<Rightarrow> usage_record option" where
  "validateTooltipUsage data =
     (if \<not> is_record data then None
      else Some (fold (\<lambda>(key, v) validated. if is_tooltip v then map_set key v validated else validated) (entries data) []))"

definition tooltip_getItem :: "cell \<Rightarrow> usage_record option" where
  "tooltip_getItem c = (case c of Some (Some parsed) \<Rightarrow> validateTooltipUsage parsed | _ \<Rightarrow> None)"

definition tooltip_setItem :: "usage_record \<Rightarrow> cell" where
  "tooltip_setItem usage = Some (Some (JObj usage))"

definition recordTooltipView :: "rat \<Rightarrow> string \<Rightarrow> usage_record \<Rightarrow> usage_record" where
  "recordTooltipView now tooltipId usage =
     (let count = (case map_get usage tooltipId of Some e \<Rightarrow> num_of (get_prop e ''seenCount'') | None \<Rightarrow> 0)
      in map_set tooltipId (JObj [(''seenCount'', JNum (count + 1)), (''lastSeen'', JNum now)]) usage)"

definition shouldShowTooltip :: "bool \<Rightarrow> rat \<Rightarrow> usage_record \<Rightarrow> string \<Rightarrow> bool" where
  "shouldShowTooltip globalDisabled now usage tooltipId =
     (if globalDisabled then False
      else
        (case map_get usage tooltipId of
           None \<Rightarrow> True
         | Some d \<Rightarrow>
             if num_of (get_prop d ''seenCount'') < FADE_THRESHOLD then True
             else if DORMANCY_MS < now - num_of (get_prop d ''lastSeen'') then True
             else False))"

section \<open>Onboarding\<close>

definition CURRENT_VERSION :: string where "CURRENT_VERSION = ''1.0.0''"

definition validateOnboardingData :: "json \<Rightarrow> json option" where
  "validateOnboardingData data =
     (if \<not> is_record data then None
      else if \<not> is_boolean (get_prop data ''completedWelcome'') \<or> \<not> is_string (get_prop data ''version'') then None
      else if get_prop data ''completedAt'' \<noteq> None \<and> \<not> is_number (get_prop data ''completedAt'') then None
      else Some data)"

definition onboarding_getItem :: "cell \<Rightarrow> json option option" where
  "onboarding_getItem c = (case c of Some (Some parsed) \<Rightarrow> Some (validateOnboardingData parsed) | _ \<Rightarrow> None)"

definition onboarding_setItem :: "json option \<Rightarrow> cell" where
  "onboarding_setItem d = (case d of None \<Rightarrow> None | Some data \<Rightarrow> Some (Some data))"

definition completeOnboarding :: "rat \<Rightarrow> json option" where
  "completeOnboarding now = Some (JObj [(''completedWelcome'', JBool True), (''completedAt'', JNum now), (''version'', JStr CURRENT_VERSION)])"

definition hasCompletedOnboarding :: "json option \<Rightarrow> bool" where
  "hasCompletedOnboarding d = (case d of None \<Rightarrow> False | Some data \<Rightarrow> truthy (get_prop data ''completedWelcome''))"

datatype onboarding_op = CompleteOnboarding rat | ResetOnboarding

fun onboarding_step :: "onboarding_op \<Rightarrow> json option \<Rightarrow> json option" where
  "onboarding_step (CompleteOnboarding now) d = completeOnboarding now"
| "onboarding_step ResetOnboarding d = None"

section \<open>Progress\<close>

record progress =
  documentsCreated :: rat
  journalEntriesCreated :: rat
  projectsSwitched :: rat
  hintsShown :: "json list"

definition getDefaultProgressData :: progress where
  "getDefaultProgressData = \<lparr>documentsCreated = 0, journalEntriesCreated = 0, projectsSwitched = 0, hintsShown = []\<rparr>"

definition validateProgressData :: "json \<Rightarrow> progress option" where
  "validateProgressData data =
     (if \<not> is_record data then None
      else
        let number = (\<lambda>k. if is_number (get_prop data k) then num_of (get_prop data k) else 0)
        in Some \<lparr>documentsCreated = number ''documentsCreated'', journalEntriesCreated = number ''journalEntriesCreated'',
             projectsSwitched = number ''projectsSwitched'',
             hintsShown = (case get_prop data ''hintsShown'' of
                 Some v \<Rightarrow> (case json_items v of Some xs \<Rightarrow> xs | None \<Rightarrow> [])
               | None \<Rightarrow> [])\<rparr>)"

definition progress_getItem :: "cell \<Rightarrow> progress option" where
  "progress_getItem c =
     (case c of
        Some (Some parsed) \<Rightarrow>
          validateProgressData (case get_prop parsed ''state'' of Some v \<Rightarrow> if v = JNull then parsed else v | None \<Rightarrow> parsed)
      | _ \<Rightarrow> None)"

definition progress_setItem :: "progress \<Rightarrow> cell" where
  "progress_setItem p =
     (if documentsCreated p = 0 \<and> journalEntriesCreated p = 0 \<and> projectsSwitched p = 0 \<and> hintsShown p = [] then None
      else Some (Some (JObj [(''documentsCreated'', JNum (documentsCreated p)),
        (''journalEntriesCreated'', JNum (journalEntriesCreated p)), (''projectsSwitched'', JNum (projectsSwitched p)),
        (''hintsShown'', JArr (hintsShown p))])))"

datatype progress_op = DocumentCreated | JournalEntryCreated | ProjectSwitched | MarkHintShown string | ResetProgress

fun progress_step :: "progress_op \<Rightarrow> progress \<Rightarrow> progress" where
  "progress_step DocumentCreated p = p\<lparr>documentsCreated := documentsCreated p + 1\<rparr>"
| "progress_step JournalEntryCreated p = p\<lparr>journalEntriesCreated := journalEntriesCreated p + 1\<rparr>"
| "progress_step ProjectSwitched p = p\<lparr>projectsSwitched := projectsSwitched p + 1\<rparr>"
| "progress_step (MarkHintShown hintId) p =
     (if JStr hintId \<in> set (hintsShown p) then p else p\<lparr>hintsShown := hintsShown p @ [JStr hintId]\<rparr>)"
| "progress_step ResetProgress p = getDefaultProgressData"

definition hasHintBeenShown :: "string \<Rightarrow> progress \<Rightarrow> bool" where
  "hasHintBeenShown hintId p \<longleftrightarrow> JStr hintId \<in> set (hintsShown p)"

section \<open>Appearance\<close>

record appearance =
  reducedEffects :: bool
  focusMode :: bool

fun bool_of :: "json option \<Rightarrow> bool" where
  "bool_of (Some (JBool b)) = b"
| "bool_of _ = False"

definition validateAppearance :: "json \<Rightarrow> appearance option" where
  "validateAppearance data =
     (if \<not> is_record data then None
      else if \<not> is_boolean (get_prop data ''reducedEffects'') then None
      else Some \<lparr>reducedEffects = bool_of (get_prop data ''reducedEffects''),
        focusMode = (if is_boolean (get_prop data ''focusMode'') then bool_of (get_prop data ''focusMode'') else False)\<rparr>)"

definition appearance_getItem :: "cell \<Rightarrow> appearance option" where
  "appearance_getItem c = (case c of Some (Some parsed) \<Rightarrow> validateAppearance parsed | _ \<Rightarrow> None)"

definition appearance_setItem :: "appearance \<Rightarrow> cell" where
  "appearance_setItem a = Some (Some (JObj [(''reducedEffects'', JBool (reducedEffects a)), (''focusMode'', JBool (focusMode a))]))"

datatype appearance_op = SetReducedEffects bool | ToggleFocusMode

fun appearance_step :: "appearance_op \<Rightarrow> appearance \<Rightarrow> appearance" where
  "appearance_step (SetReducedEffects v) a = a\<lparr>reducedEffects := v\<rparr>"
| "appearance_step ToggleFocusMode a = a\<lparr>focusMode := \<not> focusMode a\<rparr>"

section \<open>Commands by usage\<close>

definition HOUR_MS :: rat where "HOUR_MS = 60 * 60 * 1000"
definition DAY_MS :: rat where "DAY_MS = 24 * HOUR_MS"
definition WEEK_MS :: rat where "WEEK_MS = 7 * DAY_MS"

definition calculateRecencyScore :: "rat \<Rightarrow> rat \<Rightarrow> rat" where
  "calculateRecencyScore lastUsed now =
     (let age = now - lastUsed in if age < HOUR_MS then 50 else if age < DAY_MS then 30 else if age < WEEK_MS then 15 else 5)"

definition calculateFrequencyScore :: "rat \<Rightarrow> rat" where
  "calculateFrequencyScore useCount = min (useCount * 2) 20"

definition calculateUsageScore :: "string \<Rightarrow> usage_record \<Rightarrow> rat \<Rightarrow> rat" where
  "calculateUsageScore commandId usage now =
     (case map_get usage commandId of
        None \<Rightarrow> 0
      | Some d \<Rightarrow> calculateRecencyScore (last_used d) now + calculateFrequencyScore (use_count d))"

text \<open>\<open>Array.prototype.sort\<close> with a comparison function, as a stable insertion sort.\<close>

fun js_insert :: "('a \<Rightarrow> 'a \<Rightarrow> rat) \<Rightarrow> 'a \<Rightarrow> 'a list \<Rightarrow> 'a list" where
  "js_insert cmp x [] = [x]"
| "js_insert cmp x (y # ys) = (if cmp x y \<le> 0 then x # y # ys else y # js_insert cmp x ys)"

definition js_sort :: "('a \<Rightarrow> 'a \<Rightarrow> rat) \<Rightarrow> 'a list \<Rightarrow> 'a list" where
  "js_sort cmp xs = foldr (js_insert cmp) xs []"

record 'c scored_command =
  sc_command :: 'c
  sc_score :: rat
  sc_index :: nat

definition compare_scored :: "'c scored_command \<Rightarrow> 'c scored_command \<Rightarrow> rat" where
  "compare_scored a b =
     (let scoreDiff = sc_score b - sc_score a
      in if scoreDiff \<noteq> 0 then scoreDiff else of_nat (sc_index a) - of_nat (sc_index b))"

definition sortCommandsByUsage :: "('c \<Rightarrow> string) \<Rightarrow> 'c list \<Rightarrow> usage_record \<Rightarrow> rat \<Rightarrow> 'c list" where
  "sortCommandsByUsage cid commands usage now =
     (let commandsWithScores =
        map2 (\<lambda>c i. \<lparr>sc_command = c, sc_score = calculateUsageScore (cid c) usage now, sc_index = i\<rparr>) commands [0..<length commands]
      in map sc_command (js_sort compare_scored commandsWithScores))"

definition getRecentlyUsedCommands :: "('c \<Rightarrow> string) \<Rightarrow> 'c list \<Rightarrow> usage_record \<Rightarrow> nat \<Rightarrow> rat \<Rightarrow> 'c list" where
  "getRecentlyUsedCommands cid commands usage limit now =
     take limit (sort_desc (\<lambda>c. case map_get usage (cid c) of Some d \<Rightarrow> last_used d | None \<Rightarrow> 0)
       (filter (\<lambda>c. case map_get usage (cid c) of Some d \<Rightarrow> now - last_used d < WEEK_MS | None \<Rightarrow> False) commands))"

definition isRecentlyUsed :: "string \<Rightarrow> usage_record \<Rightarrow> rat \<Rightarrow> bool" where
  "isRecentlyUsed commandId usage now = (case map_get usage commandId of Some d \<Rightarrow> now - last_used d < HOUR_MS | None \<Rightarrow> False)"

definition getTopRecentCommandIds :: "usage_record \<Rightarrow> nat \<Rightarrow> rat \<Rightarrow> string list" where
  "getTopRecentCommandIds usage limit now =
     map fst (take limit (sort_desc (\<lambda>e. last_used (snd e)) (filter (\<lambda>e. now - last_used (snd e) < DAY_MS) usage)))"

section \<open>The adapters keep the contract\<close>

text \<open>Setting the entries of a map with distinct keys one after the other rebuilds it.\<close>

lemma fold_set_fresh: "wf_map (acc @ m) \<Longrightarrow> fold (\<lambda>(k, v) acc. map_set k v acc) m acc = acc @ m"
proof (induction m arbitrary: acc)
  case (Cons p m)
  obtain k v where p: "p = (k, v)" by (cases p)
  with Cons.prems have "map_set k v acc = acc @ [(k, v)]" by (intro set_fresh) (auto simp: wf_map_def)
  with Cons p show ?case by simp
qed simp

lemma fold_set_valid:
  "wf_map (acc @ m) \<Longrightarrow> list_all (\<lambda>(k, v). P v) m \<Longrightarrow>
    fold (\<lambda>(k, v) acc. if P v then map_set k v acc else acc) m acc = acc @ m"
proof (induction m arbitrary: acc)
  case (Cons p m)
  obtain k v where p: "p = (k, v)" by (cases p)
  with Cons.prems have "map_set k v acc = acc @ [(k, v)]" by (intro set_fresh) (auto simp: wf_map_def)
  with Cons p show ?case by simp
qed simp

lemma validated_entries:
  "wf_map acc \<Longrightarrow> list_all (\<lambda>(k, v). P v) acc \<Longrightarrow>
    wf_map (fold (\<lambda>(k, v) acc. if P v then map_set k v acc else acc) m acc) \<and>
    list_all (\<lambda>(k, v). P v) (fold (\<lambda>(k, v) acc. if P v then map_set k v acc else acc) m acc)"
proof (induction m arbitrary: acc)
  case (Cons p m)
  obtain k v where p: "p = (k, v)" by (cases p)
  show ?case
  proof (cases "P v")
    case True
    with Cons.prems have "wf_map (map_set k v acc)" "list_all (\<lambda>(k, v). P v) (map_set k v acc)"
      by (auto simp: list_all_iff set_map_set_wf)
    with Cons.IH [of "map_set k v acc"] p True show ?thesis by simp
  next
    case False
    with Cons p show ?thesis by simp
  qed
qed simp

lemma list_all_take_drop: "list_all P xs \<Longrightarrow> list_all P (take n xs)" "list_all P xs \<Longrightarrow> list_all P (drop n xs)"
  by (auto simp: list_all_iff dest: in_set_takeD in_set_dropD)

lemma is_recent_obj: "is_recent d \<Longrightarrow> \<exists>m. d = JObj m"
  by (cases d) (auto simp: is_recent_def)

lemma retitled_recent:
  assumes "is_recent d"
  shows "is_recent (JObj (map_set ''title'' (JStr t) (spread (Some d))))"
proof -
  from is_recent_obj [OF assms] obtain m where "d = JObj m" by blast
  with assms show ?thesis by (simp add: is_recent_def is_objectlike_def js_maps)
qed

lemma set_remove_at: "set (remove_at i xs) \<subseteq> set xs"
  by (induction i xs rule: remove_at.induct) auto

lemma recent_json_ok: "is_recent (recent_json now doc)"
  by (simp add: is_recent_def recent_json_def is_objectlike_def)

lemma refreshed_ok: "is_recent doc \<Longrightarrow> x \<in> set (refreshed_doc fetch doc) \<Longrightarrow> is_recent x"
  by (auto simp: refreshed_doc_def retitled_recent split: option.splits if_splits)

lemma recent_step_typed:
  assumes "list_all is_recent ds"
  shows "list_all is_recent (recent_step a ds)"
proof (cases a)
  case (AddRecent now doc)
  have "list_all is_recent (remove_at i ds)" for i
    using assms set_remove_at [of i ds] by (auto simp: list_all_iff)
  with assms AddRecent recent_json_ok [of now doc] show ?thesis
    by (simp add: addRecentDocument_def Let_def list_all_take_drop)
next
  case (RetitleRecent path title)
  let ?i = "findIndex (\<lambda>d. path_of d = Some (JStr path)) ds"
  show ?thesis
  proof (cases "?i < 0")
    case False
    then have "nat ?i < length ds" using findIndex_lt [of "\<lambda>d. path_of d = Some (JStr path)" ds] by linarith
    then have "is_recent (ds ! nat ?i)" using assms by (simp add: list_all_length)
    with assms RetitleRecent show ?thesis
      by (auto simp: updateRecentDocumentTitle_def Let_def list_all_iff retitled_recent dest: set_update_subset_insert [THEN subsetD])
  qed (use assms RetitleRecent in \<open>simp add: updateRecentDocumentTitle_def\<close>)
next
  case (RefreshRecents fetch)
  with assms refreshed_ok show ?thesis by (auto simp: refresh_recents_def Let_def list_all_iff)
qed (use assms in \<open>auto simp: removeRecentDocument_def list_all_iff\<close>)

lemma validateRecent_typed: "validateRecentDocuments v = Some ds \<Longrightarrow> list_all is_recent ds"
  by (auto simp: validateRecentDocuments_def list_all_iff split: option.splits)

interpretation recent_store: persisted_store recent_getItem recent_setItem "[]" "list_all is_recent" recent_step
proof (unfold_locales, goal_cases)
  case (1 c s)
  then show ?case
    by (auto simp: recent_getItem_def parseStoredDocuments_def split: option.splits if_splits dest: validateRecent_typed)
next
  case (3 s)
  then have "filter is_recent s = s" by (simp add: list_all_iff)
  then show ?case
    by (simp add: recent_getItem_def recent_setItem_def parseStoredDocuments_def validateRecentDocuments_def hydrated_def is_objectlike_def)
qed (simp_all add: recent_step_typed)

definition usage_typed :: "usage_record \<Rightarrow> bool" where
  "usage_typed u \<longleftrightarrow> wf_map u \<and> list_all (\<lambda>(k, v). is_usage v) u \<and> length u \<le> MAX_ENTRIES"

lemma prune_drop:
  assumes "wf_map u"
  shows "pruneUsageData u =
    (if length u \<le> MAX_ENTRIES then u else drop (length u - MAX_ENTRIES) (sort_key (\<lambda>e. last_used (snd e)) u))"
proof -
  have "wf_map (sort_key (\<lambda>e. last_used (snd e)) u)" by (rule wf_map_perm [OF assms]) simp
  then have "wf_map (drop n (sort_key (\<lambda>e. last_used (snd e)) u))" for n
    by (simp add: wf_map_def drop_map [symmetric])
  then show ?thesis
    using fold_set_fresh [of "[]" "drop (length u - MAX_ENTRIES) (sort_key (\<lambda>e. last_used (snd e)) u)"]
    by (simp add: pruneUsageData_def)
qed

lemma prune_typed:
  assumes "wf_map u" "list_all (\<lambda>(k, v). is_usage v) u"
  shows "usage_typed (pruneUsageData u)"
proof (cases "length u \<le> MAX_ENTRIES")
  case True
  with assms show ?thesis by (simp add: prune_drop usage_typed_def)
next
  case False
  have "wf_map (sort_key (\<lambda>e. last_used (snd e)) u)" by (rule wf_map_perm [OF assms(1)]) simp
  moreover have "list_all (\<lambda>(k, v). is_usage v) (sort_key (\<lambda>e. last_used (snd e)) u)"
    using assms(2) by (simp add: list_all_iff)
  ultimately show ?thesis
    using assms(1) False by (simp add: prune_drop usage_typed_def wf_map_def drop_map [symmetric] list_all_take_drop)
qed

lemma record_typed:
  assumes "usage_typed u"
  shows "usage_typed (recordCommandUsage now c u)"
proof -
  let ?e = "JObj [(''lastUsed'', JNum now), (''useCount'', JNum ((case map_get u c of Some e \<Rightarrow> use_count e | None \<Rightarrow> 0) + 1))]"
  have "wf_map (map_set c ?e u)" "list_all (\<lambda>(k, v). is_usage v) (map_set c ?e u)"
    using assms by (auto simp: usage_typed_def list_all_iff set_map_set_wf is_usage_def is_objectlike_def)
  then show ?thesis using prune_typed [of "map_set c ?e u"]
    by (simp add: recordCommandUsage_def Let_def usage_typed_def)
qed

lemma validateUsage_typed: "validateCommandUsage v = Some u \<Longrightarrow> wf_map u \<and> list_all (\<lambda>(k, v). is_usage v) u"
  using validated_entries [of "[]" is_usage] by (auto simp: validateCommandUsage_def split: if_splits)

interpretation usage_store: persisted_store usage_getItem usage_setItem "[]" usage_typed "\<lambda>(now, c). recordCommandUsage now c"
proof (unfold_locales, goal_cases)
  case (1 c s)
  then obtain raw v where "c = Some raw" "parseStoredUsage raw = Some v"
    and s: "s = (if MAX_ENTRIES < length v then pruneUsageData v else v)"
    by (auto simp: usage_getItem_def split: option.splits)
  then have "wf_map v \<and> list_all (\<lambda>(k, v). is_usage v) v"
    by (auto simp: parseStoredUsage_def split: option.splits if_splits dest: validateUsage_typed)
  with s prune_typed [of v] show ?case by (simp add: usage_typed_def split: if_splits)
next
  case (3 s)
  then have "validateCommandUsage (JObj s) = Some s" "\<not> MAX_ENTRIES < length s"
    using fold_set_valid [of "[]" s is_usage] by (simp_all add: validateCommandUsage_def usage_typed_def)
  then show ?case by (simp add: usage_getItem_def usage_setItem_def parseStoredUsage_def hydrated_def is_objectlike_def)
next
  case (4 s a)
  then show ?case by (cases a) (simp add: record_typed)
qed (simp add: usage_typed_def)

definition tooltip_typed :: "usage_record \<Rightarrow> bool" where
  "tooltip_typed u \<longleftrightarrow> wf_map u \<and> list_all (\<lambda>(k, v). is_tooltip v) u"

interpretation tooltip_store: persisted_store tooltip_getItem tooltip_setItem "[]" tooltip_typed "\<lambda>(now, i). recordTooltipView now i"
proof (unfold_locales, goal_cases)
  case (1 c s)
  with validated_entries [of "[]" is_tooltip] show ?case
    by (auto simp: tooltip_getItem_def validateTooltipUsage_def tooltip_typed_def split: option.splits if_splits)
next
  case (3 s)
  with fold_set_valid [of "[]" s is_tooltip] show ?case
    by (simp add: tooltip_getItem_def tooltip_setItem_def validateTooltipUsage_def tooltip_typed_def hydrated_def)
next
  case (4 s a)
  then show ?case
    by (auto simp: tooltip_typed_def recordTooltipView_def Let_def list_all_iff set_map_set_wf is_tooltip_def is_objectlike_def
        split: prod.split)
qed (simp add: tooltip_typed_def)

definition onboarding_typed :: "json option \<Rightarrow> bool" where
  "onboarding_typed d = (case d of
      None \<Rightarrow> True
    | Some data \<Rightarrow> is_record data \<and> is_boolean (get_prop data ''completedWelcome'') \<and> is_string (get_prop data ''version'') \<and>
        (get_prop data ''completedAt'' = None \<or> is_number (get_prop data ''completedAt'')))"

interpretation onboarding_store: persisted_store onboarding_getItem onboarding_setItem None onboarding_typed onboarding_step
proof (unfold_locales, goal_cases)
  case (1 c s)
  then show ?case
    by (auto simp: onboarding_getItem_def onboarding_typed_def validateOnboardingData_def split: option.splits if_splits)
next
  case (3 s)
  then show ?case
    by (cases s) (auto simp: onboarding_getItem_def onboarding_setItem_def onboarding_typed_def validateOnboardingData_def hydrated_def)
next
  case (4 s a)
  then show ?case by (cases a) (simp_all add: onboarding_typed_def completeOnboarding_def)
qed (simp add: onboarding_typed_def)

text \<open>The progress counters are numbers by validation; the elements of \<open>hintsShown\<close> are not looked at.\<close>

interpretation progress_store: persisted_store progress_getItem progress_setItem getDefaultProgressData "\<lambda>_. True" progress_step
proof (unfold_locales, goal_cases)
  case (3 s)
  then show ?case
    by (cases s) (auto simp: progress_getItem_def progress_setItem_def getDefaultProgressData_def validateProgressData_def hydrated_def Let_def)
qed simp_all

interpretation appearance_store: persisted_store appearance_getItem appearance_setItem
    "\<lparr>reducedEffects = False, focusMode = False\<rparr>" "\<lambda>_. True" appearance_step
proof (unfold_locales, goal_cases)
  case (3 s)
  then show ?case
    by (cases s) (simp add: appearance_getItem_def appearance_setItem_def validateAppearance_def hydrated_def)
qed simp_all

section \<open>Sorting by usage\<close>

lemma js_insert_scored:
  assumes "list_all (\<lambda>y. sc_index x < sc_index y) ys"
  shows "js_insert compare_scored x ys = insort_key (\<lambda>a. - sc_score a) x ys"
  using assms
proof (induction ys)
  case (Cons y ys)
  then have "compare_scored x y \<le> 0 \<longleftrightarrow> - sc_score x \<le> - sc_score y" by (auto simp: compare_scored_def Let_def)
  with Cons show ?case by simp
qed simp

lemma js_sort_scored:
  "sorted_wrt (\<lambda>a b. sc_index a < sc_index b) xs \<Longrightarrow> js_sort compare_scored xs = sort_desc sc_score xs"
proof (induction xs)
  case (Cons x xs)
  then have "js_sort compare_scored xs = sort_desc sc_score xs" by simp
  moreover have "list_all (\<lambda>y. sc_index x < sc_index y) (sort_desc sc_score xs)"
    using Cons.prems by (simp add: list_all_iff)
  ultimately show ?case using js_insert_scored [of x "sort_desc sc_score xs"] by (simp add: js_sort_def sort_desc_def)
qed (simp add: js_sort_def sort_desc_def)

lemma insort_key_map: "map f (insort_key (\<lambda>x. k (f x)) x xs) = insort_key k (f x) (map f xs)"
  by (induction xs) simp_all

lemma sort_key_map: "map f (sort_key (\<lambda>x. k (f x)) xs) = sort_key k (map f xs)"
  by (induction xs) (simp_all add: insort_key_map)

lemma sort_key_cong_on: "(\<And>x. x \<in> set xs \<Longrightarrow> f x = g x) \<Longrightarrow> sort_key f xs = sort_key g xs"
proof (induction xs)
  case (Cons x xs)
  have "insort_key f x ys = insort_key g x ys" if "set ys \<subseteq> set xs" for ys
    using that Cons.prems by (induction ys) auto
  with Cons show ?case by simp
qed simp

lemma sortCommandsByUsage_desc:
  "sortCommandsByUsage cid commands usage now = sort_desc (\<lambda>c. calculateUsageScore (cid c) usage now) commands"
proof -
  let ?score = "\<lambda>c. calculateUsageScore (cid c) usage now"
  let ?xs = "map2 (\<lambda>c i. \<lparr>sc_command = c, sc_score = ?score c, sc_index = i\<rparr>) commands [0..<length commands]"
  have "sorted_wrt (\<lambda>a b. sc_index a < sc_index b) ?xs" by (simp add: sorted_wrt_iff_nth_less)
  then have "sortCommandsByUsage cid commands usage now = map sc_command (sort_key (\<lambda>a. - sc_score a) ?xs)"
    by (simp add: sortCommandsByUsage_def Let_def js_sort_scored sort_desc_def)
  also have "sort_key (\<lambda>a. - sc_score a) ?xs = sort_key (\<lambda>a. - ?score (sc_command a)) ?xs"
    by (rule sort_key_cong_on) auto
  also have "map sc_command \<dots> = sort_key (\<lambda>c. - ?score c) (map sc_command ?xs)"
    by (rule sort_key_map)
  also have "map sc_command ?xs = commands" by (rule nth_equalityI) simp_all
  finally show ?thesis by (simp add: sort_desc_def)
qed

section \<open>Least recently used\<close>

lemma insort_key_snoc: "f a \<le> f x \<Longrightarrow> insort_key f a (ys @ [x]) = insort_key f a ys @ [x]"
  by (induction ys) simp_all

lemma sort_key_snoc: "\<forall>y\<in>set xs. f y \<le> f x \<Longrightarrow> sort_key f (xs @ [x]) = sort_key f xs @ [x]"
  by (induction xs) (simp_all add: insort_key_snoc)

lemma record_new_full:
  assumes "wf_map u" "length u = MAX_ENTRIES" "map_get u c = None" "\<forall>e\<in>set u. last_used (snd e) \<le> now"
    and "x = JObj [(''lastUsed'', JNum now), (''useCount'', JNum 1)]"
  shows "recordCommandUsage now c u = tl (sort_key (\<lambda>e. last_used (snd e)) u) @ [(c, x)]"
proof -
  have set: "map_set c x u = u @ [(c, x)]"
    using assms(3) by (intro set_fresh) (auto simp: map_of_eq_None_iff)
  have "wf_map (map_set c x u)" using assms(1) by simp
  moreover have "sort_key (\<lambda>e. last_used (snd e)) (u @ [(c, x)]) = sort_key (\<lambda>e. last_used (snd e)) u @ [(c, x)]"
    using assms(4,5) by (intro sort_key_snoc) (simp add: last_used_def)
  moreover have "sort_key (\<lambda>e. last_used (snd e)) u \<noteq> []"
    using assms(2) by (auto simp: MAX_ENTRIES_def simp flip: length_0_conv)
  ultimately show ?thesis
    using assms(2,3,5) set by (simp add: recordCommandUsage_def Let_def prune_drop drop_Suc MAX_ENTRIES_def)
qed

lemma record_fits:
  assumes "usage_typed u" "length u < MAX_ENTRIES \<or> map_get u c \<noteq> None"
  shows "recordCommandUsage now c u = map_set c (JObj [(''lastUsed'', JNum now),
    (''useCount'', JNum ((case map_get u c of Some e \<Rightarrow> use_count e | None \<Rightarrow> 0) + 1))]) u"
proof -
  have "length (map_set c v u) \<le> MAX_ENTRIES" for v
  proof (cases "map_get u c = None")
    case True
    then have "map_set c v u = u @ [(c, v)]" by (intro set_fresh) (auto simp: map_of_eq_None_iff)
    with True assms show ?thesis by simp
  next
    case False
    then have "c \<in> fst ` set u" by (auto simp: map_of_eq_None_iff)
    then have "length (map_set c v u) = length u" by (induction u) auto
    with assms show ?thesis by (simp add: usage_typed_def)
  qed
  then show ?thesis by (simp add: recordCommandUsage_def Let_def leD)
qed

lemma tl_sorted_lookup:
  assumes "wf_map u" "u \<noteq> []" "srt = sort_key (\<lambda>e. last_used (snd e)) u"
  shows "map_get (tl srt) k = map_get u k \<or>
    map_get (tl srt) k = None \<and> (\<exists>v. map_get u k = Some v \<and> (\<forall>e\<in>set u. last_used v \<le> last_used (snd e)))"
proof -
  have "length srt = length u" unfolding assms(3) by simp
  with assms(2) have "srt \<noteq> []" by auto
  then obtain k0 v0 rest where srt: "srt = (k0, v0) # rest" by (cases srt) auto
  have mset: "mset srt = mset u" unfolding assms(3) by simp
  have perm: "map_of srt = map_of u" by (rule map_of_perm [OF assms(1) mset])
  have wf: "wf_map srt" by (rule wf_map_perm [OF assms(1) mset])
  have least: "\<forall>e\<in>set u. last_used v0 \<le> last_used (snd e)"
  proof -
    have "sorted (map (\<lambda>e. last_used (snd e)) srt)" unfolding assms(3) by simp
    moreover have "set u = set srt" unfolding assms(3) by simp
    ultimately show ?thesis unfolding srt by simp
  qed
  have gone: "map_of rest k0 = None" using wf srt by (auto simp: wf_map_def map_of_eq_None_iff)
  have look: "map_of u k = (if k = k0 then Some v0 else map_of rest k)"
    using perm [THEN fun_cong, of k] srt by simp
  show ?thesis
  proof (cases "k = k0")
    case True
    with srt gone look least show ?thesis by simp
  next
    case False
    with srt look show ?thesis by simp
  qed
qed

section \<open>Most recently opened first\<close>

lemma remove_at_filter:
  assumes "distinct (map path_of ds)" "findIndex (\<lambda>d. path_of d = p) ds \<ge> 0"
  shows "remove_at (nat (findIndex (\<lambda>d. path_of d = p) ds)) ds = filter (\<lambda>d. path_of d \<noteq> p) ds"
proof -
  have "findIndex (\<lambda>d. path_of d = p) ds \<noteq> -1" using assms(2) by simp
  from findIndex_split [OF this] obtain pre x post where s: "ds = pre @ x # post" "path_of x = p" "\<forall>y\<in>set pre. path_of y \<noteq> p"
    "findIndex (\<lambda>d. path_of d = p) ds = int (length pre)" by blast
  have "remove_at (length pre) (pre @ x # post) = pre @ post" by (induction pre) simp_all
  moreover have "filter (\<lambda>d. path_of d \<noteq> p) post = post" "filter (\<lambda>d. path_of d \<noteq> p) pre = pre"
    using assms(1) s(1-3) by (auto simp: filter_id_conv image_iff)
  ultimately show ?thesis using s by simp
qed

lemma addRecentDocument_mru:
  assumes "distinct (map path_of ds)"
  shows "addRecentDocument now doc ds = recent_json now doc # take 9 (removeRecentDocument (ri_path doc) ds)"
    and "distinct (map path_of (addRecentDocument now doc ds))"
proof -
  let ?P = "\<lambda>d. path_of d = Some (JStr (ri_path doc))"
  show *: "addRecentDocument now doc ds = recent_json now doc # take 9 (removeRecentDocument (ri_path doc) ds)"
  proof (cases "findIndex ?P ds \<ge> 0")
    case True
    with remove_at_filter [OF assms True] show ?thesis
      by (simp add: addRecentDocument_def Let_def removeRecentDocument_def MAX_RECENT_DOCUMENTS_def)
  next
    case False
    then have "findIndex ?P ds = -1" using findIndex_ge [of ?P ds] by linarith
    then have "filter (\<lambda>d. \<not> ?P d) ds = ds" by (simp add: findIndex_neg_iff filter_id_conv)
    with False show ?thesis
      by (simp add: addRecentDocument_def Let_def removeRecentDocument_def MAX_RECENT_DOCUMENTS_def)
  qed
  have "path_of (recent_json now doc) = Some (JStr (ri_path doc))" by (simp add: path_of_def recent_json_def)
  moreover have "distinct (map path_of (filter (\<lambda>d. \<not> ?P d) ds))" using assms by (simp add: distinct_map_filter)
  ultimately show "distinct (map path_of (addRecentDocument now doc ds))"
    unfolding * removeRecentDocument_def
    using set_take_subset [of 9 "map path_of (filter (\<lambda>d. \<not> ?P d) ds)"] by (auto simp: take_map [symmetric])
qed

text \<open>A refresh that was started before a rename and ends after it puts the old title back.\<close>

lemma refresh_overwrites_rename:
  assumes "old = [recent_json 1 \<lparr>ri_path = ''p'', ri_title = ''A'', ri_alias = ''x''\<rparr>]"
  shows "refresh_recents (\<lambda>_. Some ''B'') old (updateRecentDocumentTitle ''p'' ''C'' old) =
    [recent_json 1 \<lparr>ri_path = ''p'', ri_title = ''B'', ri_alias = ''x''\<rparr>]"
  by (simp add: assms refresh_recents_def Let_def refreshed_doc_def recent_json_def areRecentDocumentsEqual_def recent_eq_def)

section \<open>Properties\<close>

text \<open>C19. What the stores hold is well typed, whatever text local storage contains: after loading any cell and any
  sequence of operations the recent documents have string paths, titles and projects and numeric times, the usage
  records have distinct keys and numeric fields, the command usage at most 100 entries, and the onboarding record has
  fields of the declared types.\<close>

theorem stores_well_typed:
  "list_all is_recent (fold recent_step rs (hydrated (recent_getItem c) [])) \<and>
   usage_typed (fold (\<lambda>(now, i). recordCommandUsage now i) us (hydrated (usage_getItem c) [])) \<and>
   tooltip_typed (fold (\<lambda>(now, i). recordTooltipView now i) ts (hydrated (tooltip_getItem c) [])) \<and>
   onboarding_typed (fold onboarding_step os (hydrated (onboarding_getItem c) None))"
  using recent_store.run_typed usage_store.run_typed tooltip_store.run_typed onboarding_store.run_typed by blast

text \<open>Nothing is lost over a restart: for each of the six stores, saving the state that any operations lead to from
  any loaded cell and loading it again gives that state.\<close>

theorem stores_reload:
  "(let s = fold recent_step rs (hydrated (recent_getItem c) []) in hydrated (recent_getItem (recent_setItem s)) [] = s) \<and>
   (let s = fold (\<lambda>(now, i). recordCommandUsage now i) us (hydrated (usage_getItem c) [])
    in hydrated (usage_getItem (usage_setItem s)) [] = s) \<and>
   (let s = fold (\<lambda>(now, i). recordTooltipView now i) ts (hydrated (tooltip_getItem c) [])
    in hydrated (tooltip_getItem (tooltip_setItem s)) [] = s) \<and>
   (let s = fold onboarding_step os (hydrated (onboarding_getItem c) None)
    in hydrated (onboarding_getItem (onboarding_setItem s)) None = s) \<and>
   (let s = fold progress_step ps (hydrated (progress_getItem c) getDefaultProgressData)
    in hydrated (progress_getItem (progress_setItem s)) getDefaultProgressData = s) \<and>
   (let s = fold appearance_step as (hydrated (appearance_getItem c) \<lparr>reducedEffects = False, focusMode = False\<rparr>)
    in hydrated (appearance_getItem (appearance_setItem s)) \<lparr>reducedEffects = False, focusMode = False\<rparr> = s)"
  unfolding Let_def
  by (intro conjI recent_store.run_reload usage_store.run_reload tooltip_store.run_reload onboarding_store.run_reload
      progress_store.run_reload appearance_store.run_reload)

text \<open>Recording the use of a command counts it and stamps it with the time, keeps at most 100 entries, and forgets
  another command only when the record is full and the command is new, and then one that was used least recently.\<close>

theorem recordCommandUsage_correct:
  assumes "usage_typed u" "\<forall>e\<in>set u. last_used (snd e) \<le> now" "u' = recordCommandUsage now c u"
  shows "length u' \<le> 100 \<and>
    (\<exists>e. map_get u' c = Some e \<and> last_used e = now \<and>
      use_count e = (case map_get u c of Some d \<Rightarrow> use_count d + 1 | None \<Rightarrow> 1)) \<and>
    (\<forall>k. k \<noteq> c \<longrightarrow> map_get u' k = map_get u k \<or>
      map_get u' k = None \<and> length u = 100 \<and> map_get u c = None \<and>
      (\<exists>v. map_get u k = Some v \<and> (\<forall>e\<in>set u. last_used v \<le> last_used (snd e))))"
proof -
  have len: "length u' \<le> 100" using record_typed [OF assms(1)] assms(3) by (simp add: usage_typed_def MAX_ENTRIES_def)
  show ?thesis
  proof (cases "length u < MAX_ENTRIES \<or> map_get u c \<noteq> None")
    case True
    let ?e = "JObj [(''lastUsed'', JNum now), (''useCount'', JNum ((case map_get u c of Some e \<Rightarrow> use_count e | None \<Rightarrow> 0) + 1))]"
    have get: "map_get u' k = (if k = c then Some ?e else map_get u k)" for k
      unfolding assms(3) record_fits [OF assms(1) True] by (rule get_set)
    have "last_used ?e = now" "use_count ?e = (case map_get u c of Some d \<Rightarrow> use_count d + 1 | None \<Rightarrow> 1)"
      by (simp_all add: last_used_def use_count_def split: option.split)
    with len get show ?thesis by (intro conjI allI impI exI [of _ ?e]) simp_all
  next
    case False
    with assms(1) have full: "wf_map u" "length u = MAX_ENTRIES" "map_get u c = None" by (auto simp: usage_typed_def)
    let ?srt = "sort_key (\<lambda>e. last_used (snd e)) u" and ?e = "JObj [(''lastUsed'', JNum now), (''useCount'', JNum 1)]"
    have u': "u' = tl ?srt @ [(c, ?e)]" unfolding assms(3) by (rule record_new_full [OF full assms(2) refl])
    have "u \<noteq> []" using full(2) by (auto simp: MAX_ENTRIES_def)
    note look = tl_sorted_lookup [OF full(1) this refl]
    have gone: "map_get (tl ?srt) c = None" using look [of c] full(3) by auto
    have get: "map_get u' k = (if k = c then Some ?e else map_get (tl ?srt) k)" for k
      unfolding u' using gone by (simp add: map_add_def split: option.split)
    have "last_used ?e = now" "use_count ?e = 1" by (simp_all add: last_used_def use_count_def)
    moreover have "length u = 100" using full(2) by (simp add: MAX_ENTRIES_def)
    ultimately show ?thesis using len get full(3) look by (intro conjI allI impI exI [of _ ?e]) simp_all
  qed
qed

text \<open>Sorting commands by usage is a stable sort: it loses and invents no command, puts higher scores first, and
  keeps the given order among equal scores, in particular among the commands never used.\<close>

theorem sortCommandsByUsage_correct:
  "mset (sortCommandsByUsage cid commands usage now) = mset commands \<and>
   sorted_wrt (\<lambda>a b. calculateUsageScore (cid b) usage now \<le> calculateUsageScore (cid a) usage now)
     (sortCommandsByUsage cid commands usage now) \<and>
   (\<forall>k. filter (\<lambda>c. calculateUsageScore (cid c) usage now = k) (sortCommandsByUsage cid commands usage now) =
      filter (\<lambda>c. calculateUsageScore (cid c) usage now = k) commands)"
  unfolding sortCommandsByUsage_desc by (simp add: sorted_sort_desc sort_desc_stable)

theorem recordCommandUsage_witness:
  "length (recordCommandUsage 9 ''b'' [(''a'', JObj [(''lastUsed'', JNum 5), (''useCount'', JNum 2)])]) \<le> 100 \<and>
   (\<exists>e. map_get (recordCommandUsage 9 ''b'' [(''a'', JObj [(''lastUsed'', JNum 5), (''useCount'', JNum 2)])]) ''b'' = Some e \<and>
     last_used e = 9 \<and> use_count e = 1)"
proof -
  let ?u = "[(''a'', JObj [(''lastUsed'', JNum 5), (''useCount'', JNum 2)])]"
  have "usage_typed ?u" "\<forall>e\<in>set ?u. last_used (snd e) \<le> 9" "map_get ?u ''b'' = None"
    by (simp_all add: usage_typed_def wf_map_def is_usage_def is_objectlike_def MAX_ENTRIES_def last_used_def)
  with recordCommandUsage_correct [OF this(1,2) refl, of "''b''"] show ?thesis by simp
qed

end
