(* ===== verification/Navigation.thy ===== *)
theory Navigation
  imports Hotkeys
begin

text \<open>
  Moving between pages: \<open>app/useAppNavigation.ts\<close> with \<open>shared/stores/navHistory.store.ts\<close>, the Escape registry
  (\<open>shared/stores/escapeRegistry.store.ts\<close>, \<open>shared/hooks/useLifoEscape.ts\<close>) and the leader keys
  (\<open>app/hooks/useLeaderKeys.ts\<close>).  The browser's session history is a list of entries with a cursor:
  \<open>pushState\<close> drops what is ahead of the cursor, \<open>back\<close> and \<open>forward\<close> only queue a traversal, and the
  \<open>popstate\<close> event comes when the traversal is carried out.  The query part of an address is its list of parameters; a
  property with the value \<open>undefined\<close> is an absent one.  Formatting a value with \<open>String\<close> is a parameter.
\<close>

section \<open>The position in the history\<close>

record nav_history =
  nav_index :: nat
  maxIndex :: nat

definition recordPush :: "('z) nav_history_scheme \<Rightarrow> ('z) nav_history_scheme" where
  "recordPush s = s\<lparr>nav_index := nav_index s + 1, maxIndex := nav_index s + 1\<rparr>"

definition recordPopTo :: "nat \<Rightarrow> ('z) nav_history_scheme \<Rightarrow> ('z) nav_history_scheme" where
  "recordPopTo i s = s\<lparr>nav_index := i, maxIndex := max (maxIndex s) i\<rparr>"

definition hydrate :: "nat \<Rightarrow> ('z) nav_history_scheme \<Rightarrow> ('z) nav_history_scheme" where
  "hydrate i s = s\<lparr>nav_index := i, maxIndex := i\<rparr>"

definition selectCanGoBack :: "('z) nav_history_scheme \<Rightarrow> bool" where
  "selectCanGoBack s \<longleftrightarrow> 0 < nav_index s"

definition selectCanGoForward :: "('z) nav_history_scheme \<Rightarrow> bool" where
  "selectCanGoForward s \<longleftrightarrow> nav_index s < maxIndex s"

section \<open>Addresses and the remembered page\<close>

definition KNOWN_PAGES :: "string list" where
  "KNOWN_PAGES = [''dashboard'', ''document'', ''projects'', ''settings'', ''search'', ''test'', ''quick-capture'', ''journal'']"

type_synonym params = "(string \<times> string) list"

definition readPersistedNav :: "json option option \<Rightarrow> (string \<times> json option) option" where
  "readPersistedNav c =
     (case c of
        Some (Some parsed) \<Rightarrow>
          (case get_prop parsed ''page'' of
             Some (JStr page) \<Rightarrow> if page \<in> set KNOWN_PAGES then Some (page, get_prop parsed ''state'') else None
           | _ \<Rightarrow> None)
      | _ \<Rightarrow> None)"

definition persisted_nav :: "string \<Rightarrow> json option \<Rightarrow> json option option" where
  "persisted_nav page state =
     Some (Some (JObj ((''page'', JStr page) # (case state of Some st \<Rightarrow> [(''state'', st)] | None \<Rightarrow> []))))"

definition hasExplicitUrlNav :: "params \<Rightarrow> bool" where
  "hasExplicitUrlNav url \<longleftrightarrow> map_of url ''page'' \<noteq> None"

definition readNavigationFromUrl :: "params \<Rightarrow> string \<times> json" where
  "readNavigationFromUrl url =
     ((case map_of url ''page'' of Some p \<Rightarrow> p | None \<Rightarrow> ''dashboard''),
      JObj (fold (\<lambda>(key, v) state. if key = ''page'' then state else map_set key (JStr v) state) url []))"

definition nav_url :: "(json \<Rightarrow> string) \<Rightarrow> string \<Rightarrow> json option \<Rightarrow> params" where
  "nav_url str page state = fold (\<lambda>(key, v) ps. map_set key (str v) ps) (spread state) [(''page'', page)]"

section \<open>The application's navigation\<close>

text \<open>An entry holds the object given to \<open>pushState\<close> or \<open>replaceState\<close>, with \<open>None\<close> for none, and its address.\<close>

record history_state =
  hs_page :: string
  hs_state :: "json option"
  hs_idx :: nat

record nav_entry =
  e_state :: "history_state option"
  e_url :: params

record app_nav = nav_history +
  currentPage :: string
  navigationState :: json
  persistedNav :: "json option option"
  restoredLayouts :: "json list"
  hist_entries :: "nav_entry list"
  cursor :: nat
  traversals :: "int list"

definition restore_if_document :: "string \<Rightarrow> json \<Rightarrow> app_nav \<Rightarrow> app_nav" where
  "restore_if_document page state s =
     (case get_prop state ''documentPath'' of
        Some p \<Rightarrow> if page = ''document'' \<and> truthy (Some p) then s\<lparr>restoredLayouts := restoredLayouts s @ [p]\<rparr> else s
      | None \<Rightarrow> s)"

definition writeNavigationToUrl :: "(json \<Rightarrow> string) \<Rightarrow> string \<Rightarrow> json option \<Rightarrow> nat \<Rightarrow> app_nav \<Rightarrow> app_nav" where
  "writeNavigationToUrl str page state idx s =
     s\<lparr>hist_entries := take (cursor s + 1) (hist_entries s) @
         [\<lparr>e_state = Some \<lparr>hs_page = page, hs_state = state, hs_idx = idx\<rparr>, e_url = nav_url str page state\<rparr>],
       cursor := cursor s + 1\<rparr>"

definition or_empty :: "json option \<Rightarrow> json" where
  "or_empty state = (case state of Some st \<Rightarrow> if st = JNull then JObj [] else st | None \<Rightarrow> JObj [])"

definition onNavigateRaw :: "(json \<Rightarrow> string) \<Rightarrow> string \<Rightarrow> json option \<Rightarrow> app_nav \<Rightarrow> app_nav" where
  "onNavigateRaw str page state s =
     (let s1 = s\<lparr>currentPage := page, navigationState := or_empty state, persistedNav := persisted_nav page state\<rparr>;
          s2 = restore_if_document page (or_empty state) s1;
          s3 = recordPush s2
      in writeNavigationToUrl str page state (nav_index s3) s3)"

definition goBack :: "app_nav \<Rightarrow> app_nav" where
  "goBack s = (if 0 < nav_index s then s\<lparr>traversals := traversals s @ [-1]\<rparr> else s)"

definition goForward :: "app_nav \<Rightarrow> app_nav" where
  "goForward s = (if nav_index s < maxIndex s then s\<lparr>traversals := traversals s @ [1]\<rparr> else s)"

definition handlePopState :: "nav_entry \<Rightarrow> app_nav \<Rightarrow> app_nav" where
  "handlePopState e s =
     (let s1 = recordPopTo (case e_state e of Some h \<Rightarrow> hs_idx h | None \<Rightarrow> 0) s in
      case e_state e of
        Some h \<Rightarrow>
          let nextState = or_empty (hs_state h)
          in restore_if_document (hs_page h) nextState (s1\<lparr>currentPage := hs_page h, navigationState := nextState\<rparr>)
      | None \<Rightarrow>
          let (page, state) = readNavigationFromUrl (e_url e)
          in restore_if_document page state (s1\<lparr>currentPage := page, navigationState := state\<rparr>))"

text \<open>The first render, with what the window and local storage hold then, and the mount effects.\<close>

definition initial_page :: "params \<Rightarrow> json option option \<Rightarrow> string" where
  "initial_page url c =
     (if hasExplicitUrlNav url then fst (readNavigationFromUrl url)
      else (case readPersistedNav c of Some (page, _) \<Rightarrow> page | None \<Rightarrow> fst (readNavigationFromUrl url)))"

definition initial_state :: "params \<Rightarrow> json option option \<Rightarrow> json" where
  "initial_state url c =
     (if hasExplicitUrlNav url then snd (readNavigationFromUrl url)
      else (case readPersistedNav c of
              Some (_, st) \<Rightarrow> or_empty st
            | None \<Rightarrow> snd (readNavigationFromUrl url)))"

definition mount_nav :: "app_nav \<Rightarrow> app_nav" where
  "mount_nav s =
     (let e = hist_entries s ! cursor s;
          page = initial_page (e_url e) (persistedNav s);
          state = initial_state (e_url e) (persistedNav s);
          s0 = s\<lparr>nav_index := 0, maxIndex := 0, currentPage := page, navigationState := state\<rparr>;
          s1 = (case e_state e of
              None \<Rightarrow>
                s0\<lparr>hist_entries := (hist_entries s0)[cursor s0 := e\<lparr>e_state :=
                  Some \<lparr>hs_page = fst (readNavigationFromUrl (e_url e)), hs_state = Some (snd (readNavigationFromUrl (e_url e))), hs_idx = 0\<rparr>\<rparr>]\<rparr>
            | Some h \<Rightarrow> hydrate (hs_idx h) s0)
      in restore_if_document page state s1)"

definition nav_boot :: "params \<Rightarrow> json option option \<Rightarrow> app_nav" where
  "nav_boot url c =
     mount_nav \<lparr>nav_index = 0, maxIndex = 0, currentPage = [], navigationState = JObj [], persistedNav = c,
       restoredLayouts = [], hist_entries = [\<lparr>e_state = None, e_url = url\<rparr>], cursor = 0, traversals = []\<rparr>"

datatype nav_event = Navigate string "json option" | GoBack | GoForward | Traverse int | Deliver | Reload

definition deliver :: "app_nav \<Rightarrow> app_nav" where
  "deliver s =
     (case traversals s of
        [] \<Rightarrow> s
      | d # ds \<Rightarrow>
          let c = int (cursor s) + d in
          if 0 \<le> c \<and> nat c < length (hist_entries s)
          then handlePopState (hist_entries s ! nat c) (s\<lparr>traversals := ds, cursor := nat c\<rparr>)
          else s\<lparr>traversals := ds\<rparr>)"

fun nav_step :: "(json \<Rightarrow> string) \<Rightarrow> nav_event \<Rightarrow> app_nav \<Rightarrow> app_nav" where
  "nav_step str (Navigate page state) s = onNavigateRaw str page state s"
| "nav_step str GoBack s = goBack s"
| "nav_step str GoForward s = goForward s"
| "nav_step str (Traverse d) s = s\<lparr>traversals := traversals s @ [d]\<rparr>"
| "nav_step str Deliver s = deliver s"
| "nav_step str Reload s = mount_nav (s\<lparr>traversals := []\<rparr>)"

section \<open>The Escape registry\<close>

record 'h lifo_component =
  lc_when :: bool
  lc_onEscape :: 'h
  lc_skip :: bool
  lc_registered :: "nat option"

record 'h escape_system =
  esc_next :: nat
  esc_stack :: "(nat \<times> string) list"
  components :: "(string, 'h lifo_component) jsmap"

definition escape_push :: "string \<Rightarrow> 'h escape_system \<Rightarrow> nat \<times> 'h escape_system" where
  "escape_push k s = (esc_next s, s\<lparr>esc_next := esc_next s + 1, esc_stack := esc_stack s @ [(esc_next s, k)]\<rparr>)"

definition escape_remove :: "nat \<Rightarrow> 'h escape_system \<Rightarrow> 'h escape_system" where
  "escape_remove i s = s\<lparr>esc_stack := filter (\<lambda>e. fst e \<noteq> i) (esc_stack s)\<rparr>"

text \<open>One component's hook: the effect runs on mount and when \<open>when\<close> changes, after the cleanup of the previous run;
  the other props are only read through refs.\<close>

definition lifo_cleanup :: "string \<Rightarrow> 'h escape_system \<Rightarrow> 'h escape_system" where
  "lifo_cleanup k s =
     (case map_get (components s) k of
        Some c \<Rightarrow>
          (case lc_registered c of
             Some i \<Rightarrow> (escape_remove i s)\<lparr>components := map_set k (c\<lparr>lc_registered := None\<rparr>) (components s)\<rparr>
           | None \<Rightarrow> s)
      | None \<Rightarrow> s)"

definition lifo_effect :: "string \<Rightarrow> 'h escape_system \<Rightarrow> 'h escape_system" where
  "lifo_effect k s =
     (case map_get (components s) k of
        Some c \<Rightarrow>
          if \<not> lc_when c then lifo_cleanup k s
          else if lc_registered c = None then
            (let (i, s') = escape_push k s in s'\<lparr>components := map_set k (c\<lparr>lc_registered := Some i\<rparr>) (components s')\<rparr>)
          else s
      | None \<Rightarrow> s)"

definition lifo_mount :: "string \<Rightarrow> bool \<Rightarrow> 'h \<Rightarrow> bool \<Rightarrow> 'h escape_system \<Rightarrow> 'h escape_system" where
  "lifo_mount k w h skip s =
     lifo_effect k (s\<lparr>components := map_set k \<lparr>lc_when = w, lc_onEscape = h, lc_skip = skip, lc_registered = None\<rparr> (components s)\<rparr>)"

definition lifo_update :: "string \<Rightarrow> bool \<Rightarrow> 'h \<Rightarrow> bool \<Rightarrow> 'h escape_system \<Rightarrow> 'h escape_system" where
  "lifo_update k w h skip s =
     (case map_get (components s) k of
        None \<Rightarrow> s
      | Some c \<Rightarrow>
          let props = (\<lambda>c. c\<lparr>lc_when := w, lc_onEscape := h, lc_skip := skip\<rparr>) in
          if lc_when c = w then s\<lparr>components := map_set k (props c) (components s)\<rparr>
          else
            let s1 = lifo_cleanup k s
            in lifo_effect k (s1\<lparr>components := map_set k (props (c\<lparr>lc_registered := None\<rparr>)) (components s1)\<rparr>))"

definition lifo_unmount :: "string \<Rightarrow> 'h escape_system \<Rightarrow> 'h escape_system" where
  "lifo_unmount k s = (let s1 = lifo_cleanup k s in s1\<lparr>components := map_delete k (components s1)\<rparr>)"

text \<open>Whose handler an Escape reaches: the top of the stack or nobody; gated handlers decline.\<close>

definition dispatchEscape :: "bool \<Rightarrow> 'h escape_system \<Rightarrow> 'h option" where
  "dispatchEscape dialogOpen s =
     (if esc_stack s = [] then None
      else
        (case map_get (components s) (snd (last (esc_stack s))) of
           None \<Rightarrow> None
         | Some c \<Rightarrow> if \<not> lc_when c then None else if lc_skip c \<and> dialogOpen then None else Some (lc_onEscape c)))"

datatype 'h lifo_event = LMount string bool 'h bool | LUpdate string bool 'h bool | LUnmount string

fun lifo_step :: "'h lifo_event \<Rightarrow> 'h escape_system \<Rightarrow> 'h escape_system" where
  "lifo_step (LMount k w h skip) s = (if map_has (components s) k then s else lifo_mount k w h skip s)"
| "lifo_step (LUpdate k w h skip) s = lifo_update k w h skip s"
| "lifo_step (LUnmount k) s = lifo_unmount k s"

section \<open>Leader keys\<close>

definition DESTINATIONS :: "(string \<times> string) list" where
  "DESTINATIONS = [(''d'', ''dashboard''), (''j'', ''journal''), (''s'', ''search''), (''p'', ''projects''), ('','', ''settings'')]"

definition isEditableTarget :: "event_target option \<Rightarrow> bool" where
  "isEditableTarget target =
     (case target of
        None \<Rightarrow> False
      | Some el \<Rightarrow> tagName el = ''INPUT'' \<or> tagName el = ''TEXTAREA'' \<or> tagName el = ''SELECT'' \<or> isContentEditable el)"

text \<open>The result is whether the sequence is armed afterwards, and the page to go to, which also consumes the event.\<close>

definition leader_onKeyDown :: "bool \<Rightarrow> keyboard_event \<Rightarrow> bool \<Rightarrow> bool \<times> string option" where
  "leader_onKeyDown defaultPrevented event armed =
     (if defaultPrevented \<or> ctrlKey event \<or> metaKey event \<or> altKey event then (False, None)
      else if isEditableTarget (ev_target event) then (False, None)
      else if \<not> armed then (ev_key event = ''g'', None)
      else (False, map_of DESTINATIONS (toLowerCase (ev_key event))))"

section \<open>The history is mirrored\<close>

lemma restore_fields [simp]:
  "nav_index (restore_if_document p st s) = nav_index s" "maxIndex (restore_if_document p st s) = maxIndex s"
  "currentPage (restore_if_document p st s) = currentPage s" "navigationState (restore_if_document p st s) = navigationState s"
  "hist_entries (restore_if_document p st s) = hist_entries s" "cursor (restore_if_document p st s) = cursor s"
  "traversals (restore_if_document p st s) = traversals s" "persistedNav (restore_if_document p st s) = persistedNav s"
  by (simp_all add: restore_if_document_def split: option.split)

definition stamped :: "nav_entry list \<Rightarrow> bool" where
  "stamped es \<longleftrightarrow> (\<forall>i<length es. map_option hs_idx (e_state (es ! i)) = Some i)"

definition hist_inv :: "app_nav \<Rightarrow> bool" where
  "hist_inv s \<longleftrightarrow> cursor s < length (hist_entries s) \<and> stamped (hist_entries s) \<and> nav_index s = cursor s \<and>
     cursor s \<le> maxIndex s \<and> maxIndex s < length (hist_entries s)"

definition frontier :: "app_nav \<Rightarrow> bool" where
  "frontier s \<longleftrightarrow> Suc (maxIndex s) = length (hist_entries s)"

definition shown :: "app_nav \<Rightarrow> bool" where
  "shown s = (case e_state (hist_entries s ! cursor s) of
      Some h \<Rightarrow> currentPage s = hs_page h \<and> navigationState s = or_empty (hs_state h)
    | None \<Rightarrow> False)"

lemma queue_fields [simp]:
  "hist_inv (s\<lparr>traversals := ds\<rparr>) = hist_inv s" "frontier (s\<lparr>traversals := ds\<rparr>) = frontier s"
  "shown (s\<lparr>traversals := ds\<rparr>) = shown s"
  by (simp_all add: hist_inv_def frontier_def shown_def split: option.split)

lemma stamped_get: "stamped es \<Longrightarrow> i < length es \<Longrightarrow> \<exists>h. e_state (es ! i) = Some h \<and> hs_idx h = i"
  by (cases "e_state (es ! i)") (auto simp: stamped_def)

lemma navigate_fields:
  "nav_index (onNavigateRaw str p st s) = nav_index s + 1" "maxIndex (onNavigateRaw str p st s) = nav_index s + 1"
  "currentPage (onNavigateRaw str p st s) = p" "navigationState (onNavigateRaw str p st s) = or_empty st"
  "cursor (onNavigateRaw str p st s) = cursor s + 1" "persistedNav (onNavigateRaw str p st s) = persisted_nav p st"
  "traversals (onNavigateRaw str p st s) = traversals s"
  "hist_entries (onNavigateRaw str p st s) = take (cursor s + 1) (hist_entries s) @
     [\<lparr>e_state = Some \<lparr>hs_page = p, hs_state = st, hs_idx = nav_index s + 1\<rparr>, e_url = nav_url str p st\<rparr>]"
  by (simp_all add: onNavigateRaw_def Let_def recordPush_def writeNavigationToUrl_def)

lemma navigate_inv:
  assumes "hist_inv s"
  shows "hist_inv (onNavigateRaw str p st s)" "frontier (onNavigateRaw str p st s)" "shown (onNavigateRaw str p st s)"
proof -
  have c: "cursor s < length (hist_entries s)" "nav_index s = cursor s" "stamped (hist_entries s)"
    using assms by (simp_all add: hist_inv_def)
  have "stamped (take (cursor s + 1) (hist_entries s) @ [e])" if "map_option hs_idx (e_state e) = Some (cursor s + 1)" for e
    using c that by (auto simp: stamped_def nth_append less_Suc_eq)
  with c show "hist_inv (onNavigateRaw str p st s)" by (simp add: hist_inv_def navigate_fields)
  show "frontier (onNavigateRaw str p st s)" using c by (simp add: frontier_def navigate_fields)
  show "shown (onNavigateRaw str p st s)" using c by (simp add: shown_def navigate_fields nth_append)
qed

lemma pop_fields:
  assumes "e_state e = Some h"
  shows "nav_index (handlePopState e s) = hs_idx h" "maxIndex (handlePopState e s) = max (maxIndex s) (hs_idx h)"
    "currentPage (handlePopState e s) = hs_page h" "navigationState (handlePopState e s) = or_empty (hs_state h)"
    "cursor (handlePopState e s) = cursor s" "hist_entries (handlePopState e s) = hist_entries s"
    "persistedNav (handlePopState e s) = persistedNav s" "traversals (handlePopState e s) = traversals s"
  using assms by (simp_all add: handlePopState_def Let_def recordPopTo_def)

lemma deliver_inv:
  assumes "hist_inv s"
  shows "hist_inv (deliver s)" "frontier s \<Longrightarrow> frontier (deliver s)" "shown s \<Longrightarrow> shown (deliver s)"
proof -
  have "hist_inv (deliver s) \<and> (frontier s \<longrightarrow> frontier (deliver s)) \<and> (shown s \<longrightarrow> shown (deliver s))"
  proof (cases "traversals s")
    case Nil
    with assms show ?thesis by (simp add: deliver_def)
  next
    case (Cons d ds)
    let ?c = "int (cursor s) + d"
    show ?thesis
    proof (cases "0 \<le> ?c \<and> nat ?c < length (hist_entries s)")
      case False
      with Cons have "deliver s = s\<lparr>traversals := ds\<rparr>" by (auto simp: deliver_def Let_def)
      with assms show ?thesis by simp
    next
      case True
      with assms obtain h where h: "e_state (hist_entries s ! nat ?c) = Some h" "hs_idx h = nat ?c"
        using stamped_get [of "hist_entries s" "nat ?c"] by (auto simp: hist_inv_def)
      have "deliver s = handlePopState (hist_entries s ! nat ?c) (s\<lparr>traversals := ds, cursor := nat ?c\<rparr>)"
        using True Cons by (simp add: deliver_def Let_def)
      with assms True h show ?thesis by (simp add: hist_inv_def frontier_def shown_def pop_fields)
    qed
  qed
  then show "hist_inv (deliver s)" "frontier s \<Longrightarrow> frontier (deliver s)" "shown s \<Longrightarrow> shown (deliver s)" by blast+
qed

lemma mount_inv:
  assumes "cursor s < length (hist_entries s)" "stamped (hist_entries s)"
  shows "hist_inv (mount_nav s)"
proof -
  from stamped_get [OF assms(2,1)] obtain h where "e_state (hist_entries s ! cursor s) = Some h" "hs_idx h = cursor s" by blast
  with assms show ?thesis by (simp add: mount_nav_def Let_def hydrate_def hist_inv_def)
qed

lemma nav_step_inv:
  assumes "hist_inv s"
  shows "hist_inv (nav_step str e s)" "e \<noteq> Reload \<Longrightarrow> frontier s \<Longrightarrow> frontier (nav_step str e s)"
    "e \<noteq> Reload \<Longrightarrow> shown s \<Longrightarrow> shown (nav_step str e s)"
proof -
  have "hist_inv (nav_step str e s) \<and> (e \<noteq> Reload \<longrightarrow> frontier s \<longrightarrow> frontier (nav_step str e s)) \<and>
    (e \<noteq> Reload \<longrightarrow> shown s \<longrightarrow> shown (nav_step str e s))"
  proof (cases e)
    case (Navigate p st)
    with navigate_inv [OF assms] show ?thesis by simp
  next
    case Deliver
    with deliver_inv [OF assms] show ?thesis by simp
  next
    case Reload
    have "hist_inv (mount_nav (s\<lparr>traversals := []\<rparr>))" using assms by (intro mount_inv) (simp_all add: hist_inv_def)
    with Reload show ?thesis by simp
  qed (use assms in \<open>simp_all add: goBack_def goForward_def\<close>)
  then show "hist_inv (nav_step str e s)" "e \<noteq> Reload \<Longrightarrow> frontier s \<Longrightarrow> frontier (nav_step str e s)"
    "e \<noteq> Reload \<Longrightarrow> shown s \<Longrightarrow> shown (nav_step str e s)" by blast+
qed

lemma boot_inv: "hist_inv (nav_boot url c)" "frontier (nav_boot url c)"
  by (simp_all add: nav_boot_def mount_nav_def Let_def hist_inv_def frontier_def stamped_def)

lemma boot_fields:
  "currentPage (nav_boot url c) = initial_page url c" "navigationState (nav_boot url c) = initial_state url c"
  "hist_entries (nav_boot url c) = [\<lparr>e_state = Some \<lparr>hs_page = fst (readNavigationFromUrl url),
     hs_state = Some (snd (readNavigationFromUrl url)), hs_idx = 0\<rparr>, e_url = url\<rparr>]"
  "cursor (nav_boot url c) = 0" "nav_index (nav_boot url c) = 0" "traversals (nav_boot url c) = []"
  by (simp_all add: nav_boot_def mount_nav_def Let_def)

lemma boot_shown:
  assumes "hasExplicitUrlNav url \<or> readPersistedNav c = None"
  shows "shown (nav_boot url c)"
  using assms by (auto simp: shown_def boot_fields initial_page_def initial_state_def or_empty_def readNavigationFromUrl_def)

lemma nav_run_inv:
  shows "hist_inv (fold (nav_step str) evs (nav_boot url c))"
    and "Reload \<notin> set evs \<Longrightarrow> frontier (fold (nav_step str) evs (nav_boot url c))"
    and "Reload \<notin> set evs \<Longrightarrow> hasExplicitUrlNav url \<or> readPersistedNav c = None \<Longrightarrow> shown (fold (nav_step str) evs (nav_boot url c))"
proof (induction evs rule: rev_induct)
  case Nil
  {
    case 1 show ?case by (simp add: boot_inv)
  next
    case 2 show ?case by (simp add: boot_inv)
  next
    case 3 then show ?case by (simp add: boot_shown)
  }
next
  case (snoc e evs)
  note step = nav_step_inv [OF snoc(1), where str = str and e = e]
  {
    case 1 from step(1) show ?case by simp
  next
    case 2 with step(2) snoc(2) show ?case by auto
  next
    case 3 with step(3) snoc(3) show ?case by auto
  }
qed

section \<open>The Escape registry is exact\<close>

text \<open>The stack holds exactly the mounted components that listen, each once, under the id the component remembers.\<close>

definition escape_inv :: "'h escape_system \<Rightarrow> bool" where
  "escape_inv s \<longleftrightarrow> wf_map (components s) \<and> distinct (map fst (esc_stack s)) \<and> list_all (\<lambda>e. fst e < esc_next s) (esc_stack s) \<and>
     (\<forall>i k. (i, k) \<in> set (esc_stack s) \<longleftrightarrow> (\<exists>c. map_get (components s) k = Some c \<and> lc_when c \<and> lc_registered c = Some i)) \<and>
     (\<forall>k c. map_get (components s) k = Some c \<longrightarrow> (lc_registered c = None \<longleftrightarrow> \<not> lc_when c))"

lemma escape_inv_get:
  assumes "escape_inv s" "map_get (components s) k = Some c"
  shows "lc_registered c = None \<longleftrightarrow> \<not> lc_when c" "(i, k) \<in> set (esc_stack s) \<longleftrightarrow> lc_registered c = Some i"
proof -
  show reg: "lc_registered c = None \<longleftrightarrow> \<not> lc_when c" using assms unfolding escape_inv_def by blast
  have "(i, k) \<in> set (esc_stack s) \<longleftrightarrow> lc_when c \<and> lc_registered c = Some i" using assms by (simp add: escape_inv_def)
  with reg show "(i, k) \<in> set (esc_stack s) \<longleftrightarrow> lc_registered c = Some i" by auto
qed

lemma unregistered_same: "lc_registered c = None \<Longrightarrow> c\<lparr>lc_registered := None\<rparr> = c"
  by (cases c) simp

lemma escape_inv_absent:
  assumes "escape_inv s" "map_get (components s) k = None"
  shows "(i, k) \<notin> set (esc_stack s)"
  using assms by (auto simp: escape_inv_def)

text \<open>The state between a cleanup and the next effect of component \<open>k\<close>: exact for all other components.\<close>

definition escape_inv_but :: "string \<Rightarrow> 'h escape_system \<Rightarrow> bool" where
  "escape_inv_but k s \<longleftrightarrow> wf_map (components s) \<and> distinct (map fst (esc_stack s)) \<and> list_all (\<lambda>e. fst e < esc_next s) (esc_stack s) \<and>
     (\<forall>i j. (i, j) \<in> set (esc_stack s) \<longleftrightarrow> j \<noteq> k \<and> (\<exists>c. map_get (components s) j = Some c \<and> lc_when c \<and> lc_registered c = Some i)) \<and>
     (\<forall>j c. j \<noteq> k \<longrightarrow> map_get (components s) j = Some c \<longrightarrow> (lc_registered c = None \<longleftrightarrow> \<not> lc_when c))"

lemma inv_but:
  assumes "escape_inv s" "\<And>i. (i, k) \<notin> set (esc_stack s)"
  shows "escape_inv_but k s"
proof -
  have "(i, j) \<in> set (esc_stack s) \<longleftrightarrow>
      j \<noteq> k \<and> (\<exists>c. map_get (components s) j = Some c \<and> lc_when c \<and> lc_registered c = Some i)" for i j
    using assms by (cases "j = k") (simp_all add: escape_inv_def)
  with assms(1) show ?thesis unfolding escape_inv_but_def escape_inv_def by blast
qed

lemma cleanup_but:
  assumes "escape_inv s"
  shows "escape_inv_but k (lifo_cleanup k s)"
    "map_get (components (lifo_cleanup k s)) k = map_option (\<lambda>c. c\<lparr>lc_registered := None\<rparr>) (map_get (components s) k)"
    "j \<noteq> k \<Longrightarrow> map_get (components (lifo_cleanup k s)) j = map_get (components s) j"
proof -
  have "escape_inv_but k (lifo_cleanup k s) \<and>
    map_get (components (lifo_cleanup k s)) k = map_option (\<lambda>c. c\<lparr>lc_registered := None\<rparr>) (map_get (components s) k) \<and>
    (\<forall>j. j \<noteq> k \<longrightarrow> map_get (components (lifo_cleanup k s)) j = map_get (components s) j)"
  proof (cases "map_get (components s) k")
    case None
    then have "lifo_cleanup k s = s" by (simp add: lifo_cleanup_def)
    with None inv_but [OF assms, of k] escape_inv_absent [OF assms None] show ?thesis by simp
  next
    case (Some c)
    show ?thesis
    proof (cases "lc_registered c")
      case None
      then have "lifo_cleanup k s = s" using Some by (simp add: lifo_cleanup_def)
      with Some None inv_but [OF assms, of k] escape_inv_get(2) [OF assms Some] show ?thesis by (simp add: unregistered_same)
    next
      case reg: (Some i)
      let ?s = "(escape_remove i s)\<lparr>components := map_set k (c\<lparr>lc_registered := None\<rparr>) (components s)\<rparr>"
      have clean: "lifo_cleanup k s = ?s" using Some reg by (simp add: lifo_cleanup_def)
      have ik: "(i, k) \<in> set (esc_stack s)" using escape_inv_get(2) [OF assms Some] reg by simp
      have same: "(i, j) \<in> set (esc_stack s) \<Longrightarrow> j = k" for j
        using ik assms by (auto simp: escape_inv_def dest: eq_key_imp_eq_value)
      have mem: "(i', j) \<in> set (esc_stack ?s) \<longleftrightarrow> (i', j) \<in> set (esc_stack s) \<and> i' \<noteq> i" for i' j
        by (auto simp: escape_remove_def)
      have other: "(i', j) \<in> set (esc_stack s) \<and> i' \<noteq> i \<longleftrightarrow> (i', j) \<in> set (esc_stack s) \<and> j \<noteq> k" for i' j
        using escape_inv_get(2) [OF assms Some] reg same by auto
      have "distinct (map fst (esc_stack ?s))" "list_all (\<lambda>e. fst e < esc_next ?s) (esc_stack ?s)"
        using assms by (auto simp: escape_inv_def escape_remove_def distinct_map_filter list_all_iff)
      moreover have "(i', j) \<in> set (esc_stack ?s) \<longleftrightarrow>
          j \<noteq> k \<and> (\<exists>c. map_get (components ?s) j = Some c \<and> lc_when c \<and> lc_registered c = Some i')" for i' j
        unfolding mem other using assms by (auto simp: escape_inv_def get_set)
      moreover have "wf_map (components ?s)" "j \<noteq> k \<Longrightarrow> map_get (components ?s) j = map_get (components s) j" for j
        using assms by (simp_all add: escape_inv_def get_set)
      ultimately have "escape_inv_but k ?s" using assms unfolding escape_inv_but_def by (auto simp: escape_inv_def)
      then show ?thesis unfolding clean using Some by (simp add: get_set)
    qed
  qed
  then show "escape_inv_but k (lifo_cleanup k s)"
    "map_get (components (lifo_cleanup k s)) k = map_option (\<lambda>c. c\<lparr>lc_registered := None\<rparr>) (map_get (components s) k)"
    "j \<noteq> k \<Longrightarrow> map_get (components (lifo_cleanup k s)) j = map_get (components s) j" by blast+
qed

lemma effect_inv:
  assumes "escape_inv_but k s" "map_get (components s) k = Some c" "lc_registered c = None"
  shows "escape_inv (lifo_effect k s)"
proof (cases "lc_when c")
  case False
  with assms have "lifo_effect k s = s" by (simp add: lifo_effect_def lifo_cleanup_def)
  moreover have "(i, j) \<in> set (esc_stack s) \<longleftrightarrow> (\<exists>c. map_get (components s) j = Some c \<and> lc_when c \<and> lc_registered c = Some i)" for i j
    using assms False by (cases "j = k") (simp_all add: escape_inv_but_def)
  moreover have "lc_registered c' = None \<longleftrightarrow> \<not> lc_when c'" if "map_get (components s) j = Some c'" for j c'
    using that assms False by (cases "j = k") (simp_all add: escape_inv_but_def)
  ultimately show ?thesis using assms(1) unfolding escape_inv_def escape_inv_but_def by simp
next
  case True
  let ?n = "esc_next s"
  let ?s = "s\<lparr>esc_next := ?n + 1, esc_stack := esc_stack s @ [(?n, k)], components := map_set k (c\<lparr>lc_registered := Some ?n\<rparr>) (components s)\<rparr>"
  have eff: "lifo_effect k s = ?s" using assms(2,3) True by (simp add: lifo_effect_def escape_push_def)
  have "\<forall>e\<in>set (esc_stack s). fst e < ?n" using assms(1) by (simp add: escape_inv_but_def list_all_iff)
  then have new: "?n \<notin> fst ` set (esc_stack s)" by auto
  have stack: "(i, j) \<in> set (esc_stack s) \<longleftrightarrow>
      j \<noteq> k \<and> (\<exists>c. map_get (components s) j = Some c \<and> lc_when c \<and> lc_registered c = Some i)" for i j
    using assms(1) by (simp add: escape_inv_but_def)
  have "(i, j) \<in> set (esc_stack ?s) \<longleftrightarrow> (\<exists>c. map_get (components ?s) j = Some c \<and> lc_when c \<and> lc_registered c = Some i)" for i j
    using True by (cases "j = k") (auto simp: stack get_set)
  moreover have "distinct (map fst (esc_stack ?s))" "list_all (\<lambda>e. fst e < esc_next ?s) (esc_stack ?s)" "wf_map (components ?s)"
    using assms(1) new by (auto simp: escape_inv_but_def list_all_iff less_Suc_eq)
  moreover have "lc_registered c' = None \<longleftrightarrow> \<not> lc_when c'" if "map_get (components ?s) j = Some c'" for j c'
    using that assms(1) True by (auto simp: get_set escape_inv_but_def split: if_splits)
  ultimately show ?thesis unfolding eff escape_inv_def by blast
qed

lemma but_set:
  assumes "escape_inv_but k s"
  shows "escape_inv_but k (s\<lparr>components := map_set k c (components s)\<rparr>)"
  using assms by (simp add: escape_inv_but_def get_set cong: conj_cong)

lemma lifo_step_inv:
  assumes "escape_inv s"
  shows "escape_inv (lifo_step e s)"
proof (cases e)
  case (LMount k w h skip)
  show ?thesis
  proof (cases "map_has (components s) k")
    case False
    then have "escape_inv_but k s" using escape_inv_absent [OF assms, of k] by (intro inv_but [OF assms]) (simp add: map_has_def)
    from but_set [OF this] have "escape_inv (lifo_mount k w h skip s)"
      unfolding lifo_mount_def
      by (rule effect_inv [where c = "\<lparr>lc_when = w, lc_onEscape = h, lc_skip = skip, lc_registered = None\<rparr>"]) (simp_all add: get_set)
    with LMount False show ?thesis by simp
  qed (use LMount assms in simp)
next
  case (LUpdate k w h skip)
  show ?thesis
  proof (cases "map_get (components s) k")
    case None
    with LUpdate assms show ?thesis by (simp add: lifo_update_def)
  next
    case (Some c)
    show ?thesis
    proof (cases "lc_when c = w")
      case True
      let ?c = "c\<lparr>lc_when := w, lc_onEscape := h, lc_skip := skip\<rparr>"
      have "escape_inv (s\<lparr>components := map_set k ?c (components s)\<rparr>)"
        using assms Some True by (auto simp: escape_inv_def get_set)
      with LUpdate Some True show ?thesis by (simp add: lifo_update_def)
    next
      case False
      have "escape_inv (lifo_effect k ((lifo_cleanup k s)\<lparr>components := map_set k
          (c\<lparr>lc_registered := None, lc_when := w, lc_onEscape := h, lc_skip := skip\<rparr>) (components (lifo_cleanup k s))\<rparr>))"
        by (rule effect_inv [OF but_set [OF cleanup_but(1) [OF assms]],
              where c = "c\<lparr>lc_registered := None, lc_when := w, lc_onEscape := h, lc_skip := skip\<rparr>"]) (simp_all add: get_set)
      with LUpdate Some False show ?thesis by (simp add: lifo_update_def Let_def)
    qed
  qed
next
  case (LUnmount k)
  have "escape_inv ((lifo_cleanup k s)\<lparr>components := map_delete k (components (lifo_cleanup k s))\<rparr>)"
    using cleanup_but(1) [OF assms, of k] by (auto simp: escape_inv_but_def escape_inv_def get_delete)
  with LUnmount show ?thesis by (simp add: lifo_unmount_def Let_def)
qed

definition no_escape :: "'h escape_system" where
  "no_escape = \<lparr>esc_next = 0, esc_stack = [], components = []\<rparr>"

lemma lifo_run_inv: "escape_inv (fold lifo_step evs no_escape)"
proof (induction evs rule: rev_induct)
  case (snoc e evs)
  then show ?case by (simp add: lifo_step_inv)
qed (simp add: no_escape_def escape_inv_def)

lemma escape_owners:
  assumes "escape_inv s"
  shows "distinct (map snd (esc_stack s))"
    and "set (map snd (esc_stack s)) = {k. \<exists>c. map_get (components s) k = Some c \<and> lc_when c}"
proof -
  have stack: "(i, k) \<in> set (esc_stack s) \<longleftrightarrow> (\<exists>c. map_get (components s) k = Some c \<and> lc_when c \<and> lc_registered c = Some i)" for i k
    using assms by (simp add: escape_inv_def)
  have "distinct (esc_stack s)" using assms by (simp add: escape_inv_def distinct_map)
  moreover have "inj_on snd (set (esc_stack s))" by (rule inj_onI) (auto simp: stack)
  ultimately show "distinct (map snd (esc_stack s))" by (simp add: distinct_map)
  show "set (map snd (esc_stack s)) = {k. \<exists>c. map_get (components s) k = Some c \<and> lc_when c}"
  proof (intro set_eqI iffI)
    fix k assume "k \<in> {k. \<exists>c. map_get (components s) k = Some c \<and> lc_when c}"
    then obtain c where c: "map_get (components s) k = Some c" "lc_when c" by blast
    with escape_inv_get(1) [OF assms c(1)] obtain i where "lc_registered c = Some i" by auto
    with c stack [of i k] show "k \<in> set (map snd (esc_stack s))" by force
  qed (auto simp: stack)
qed

lemma unmount_stack:
  assumes "escape_inv s"
  shows "esc_stack (lifo_unmount k s) = filter (\<lambda>e. snd e \<noteq> k) (esc_stack s)"
proof (cases "map_get (components s) k")
  case None
  with escape_inv_absent [OF assms None] have "filter (\<lambda>e. snd e \<noteq> k) (esc_stack s) = esc_stack s"
    by (auto simp: filter_id_conv)
  with None show ?thesis by (simp add: lifo_unmount_def lifo_cleanup_def)
next
  case (Some c)
  note at_k = escape_inv_get(2) [OF assms Some]
  show ?thesis
  proof (cases "lc_registered c")
    case None
    with at_k have "filter (\<lambda>e. snd e \<noteq> k) (esc_stack s) = esc_stack s" by (auto simp: filter_id_conv)
    with None Some show ?thesis by (simp add: lifo_unmount_def lifo_cleanup_def)
  next
    case reg: (Some i)
    have "distinct (map fst (esc_stack s))" using assms by (simp add: escape_inv_def)
    then have "fst e \<noteq> i \<longleftrightarrow> snd e \<noteq> k" if "e \<in> set (esc_stack s)" for e
      using that at_k [of "fst e"] at_k [of i] reg by (cases e) (auto dest: eq_key_imp_eq_value)
    then have "filter (\<lambda>e. fst e \<noteq> i) (esc_stack s) = filter (\<lambda>e. snd e \<noteq> k) (esc_stack s)" by (rule filter_cong [OF refl])
    with Some reg show ?thesis by (simp add: lifo_unmount_def lifo_cleanup_def escape_remove_def)
  qed
qed

section \<open>Leader sequences\<close>

datatype leader_event = LeaderKey bool keyboard_event | LeaderTimeout

fun leader_next :: "leader_event \<Rightarrow> bool \<Rightarrow> bool" where
  "leader_next (LeaderKey prevented e) armed = fst (leader_onKeyDown prevented e armed)"
| "leader_next LeaderTimeout armed = False"

text \<open>A page is only ever reached by the key right after a plain \<open>g\<close>, both outside editable fields.\<close>

lemma leader_needs_g:
  assumes "snd (leader_onKeyDown prevented e (fold leader_next evs False)) = Some page"
  shows "\<exists>evs' g. evs = evs' @ [LeaderKey False g] \<and> ev_key g = ''g'' \<and> \<not> ctrlKey g \<and> \<not> metaKey g \<and> \<not> altKey g \<and>
    \<not> isEditableTarget (ev_target g) \<and> \<not> isEditableTarget (ev_target e) \<and> page \<in> set KNOWN_PAGES"
proof -
  from assms have armed: "fold leader_next evs False" and e: "\<not> isEditableTarget (ev_target e)"
    and page: "map_of DESTINATIONS (toLowerCase (ev_key e)) = Some page"
    by (auto simp: leader_onKeyDown_def split: if_splits)
  from armed obtain evs' l where evs: "evs = evs' @ [l]" by (cases evs rule: rev_cases) auto
  with armed have "leader_next l (fold leader_next evs' False)" by simp
  then obtain g where "l = LeaderKey False g" "ev_key g = ''g''" "\<not> ctrlKey g" "\<not> metaKey g" "\<not> altKey g" "\<not> isEditableTarget (ev_target g)"
    by (cases l) (auto simp: leader_onKeyDown_def split: if_splits)
  moreover have "page \<in> set KNOWN_PAGES" using map_of_SomeD [OF page] by (auto simp: DESTINATIONS_def KNOWN_PAGES_def)
  ultimately show ?thesis using evs e by blast
qed

section \<open>Properties\<close>


text \<open>Starting on the remembered page loses it from the history: the first entry is stamped with the page of the
  address, so after navigating away and back the dashboard is shown and not the page the session was started on.\<close>

theorem back_loses_restored_page:
  assumes "\<not> hasExplicitUrlNav url" "readPersistedNav c = Some (page, st)"
  shows "currentPage (nav_boot url c) = page \<and>
    currentPage (fold (nav_step str) [Navigate next_page x, GoBack, Deliver] (nav_boot url c)) = ''dashboard''"
proof
  show "currentPage (nav_boot url c) = page" using assms by (simp add: boot_fields initial_page_def)
  let ?s = "onNavigateRaw str next_page x (nav_boot url c)"
  have entry: "e_state (hist_entries ?s ! 0) = Some \<lparr>hs_page = fst (readNavigationFromUrl url),
      hs_state = Some (snd (readNavigationFromUrl url)), hs_idx = 0\<rparr>" "length (hist_entries ?s) = 2"
    by (simp_all add: navigate_fields boot_fields)
  have "deliver (goBack ?s) = handlePopState (hist_entries ?s ! 0) (?s\<lparr>traversals := [], cursor := 0\<rparr>)"
    by (simp add: goBack_def deliver_def navigate_fields boot_fields)
  then show "currentPage (fold (nav_step str) [Navigate next_page x, GoBack, Deliver] (nav_boot url c)) = ''dashboard''"
    using entry assms(1) by (simp add: pop_fields hasExplicitUrlNav_def readNavigationFromUrl_def)
qed

text \<open>Escape goes to one place: through any mounts, re-renders and unmounts the registry holds exactly the mounted
  components that listen, each once; a component that starts to listen receives the next Escape, and when it is
  unmounted the stack is what it was without it.\<close>

theorem escape_lifo:
  assumes "s = fold lifo_step evs no_escape"
  shows "distinct (map snd (esc_stack s)) \<and>
    set (map snd (esc_stack s)) = {k. \<exists>c. map_get (components s) k = Some c \<and> lc_when c} \<and>
    esc_stack (lifo_unmount k s) = filter (\<lambda>e. snd e \<noteq> k) (esc_stack s) \<and>
    (\<not> map_has (components s) k \<longrightarrow> dispatchEscape False (lifo_mount k True h skip s) = Some h)"
proof -
  have inv: "escape_inv s" unfolding assms by (rule lifo_run_inv)
  have "dispatchEscape False (lifo_mount k True h skip s) = Some h"
    by (simp add: dispatchEscape_def lifo_mount_def lifo_effect_def escape_push_def get_set)
  with escape_owners [OF inv] unmount_stack [OF inv] show ?thesis by blast
qed

section \<open>Witnesses\<close>


theorem back_loses_restored_page_witness:
  "currentPage (nav_boot [] (persisted_nav ''journal'' None)) = ''journal'' \<and>
   currentPage (fold (nav_step (\<lambda>_. [])) [Navigate ''search'' None, GoBack, Deliver] (nav_boot [] (persisted_nav ''journal'' None))) = ''dashboard''"
  by (rule back_loses_restored_page [where st = None])
    (simp_all add: hasExplicitUrlNav_def readPersistedNav_def persisted_nav_def KNOWN_PAGES_def)

theorem escape_lifo_witness:
  "dispatchEscape False (lifo_mount ''b'' True (2::nat) True (fold lifo_step [LMount ''a'' True 1 True] no_escape)) = Some 2"
  using escape_lifo [OF refl, of "[LMount ''a'' True (1::nat) True]" "''b''" 2 True]
  by (simp add: no_escape_def lifo_mount_def lifo_effect_def escape_push_def map_has_def get_set)

end
