(* ===== verification/Dashboard.thy ===== *)
theory Dashboard
  imports Search_Text "HOL-Library.List_Lexorder" "HOL-Library.Char_ord"
begin

text \<open>
  The document list of a project: the document context (\<open>document/context/DocumentContext.tsx\<close>), selection, sorting,
  archiving, restoring and deleting (\<open>dashboard/hooks/*\<close>) and the expansion of numbers in commands
  (\<open>command-palette/utils/commandPreprocessor.ts\<close>).  A handler is a function from the state and the backend's
  answers to the new state and the list of its effects, in order.
\<close>

section \<open>The document context\<close>

text \<open>What a rejected call throws: an \<open>Error\<close> with its message, or something else with its text.\<close>

datatype rejection = Error string | Thrown string

fun err_message :: "rejection \<Rightarrow> string \<Rightarrow> string" where
  "err_message (Error m) dflt = m"
| "err_message (Thrown t) dflt = dflt"

fun err_text :: "rejection \<Rightarrow> string" where
  "err_text (Error m) = ''Error: '' @ m"
| "err_text (Thrown t) = t"

record document =
  d_path :: string
  d_title :: string
  d_canvas :: bool
  d_created :: int
  d_updated :: int

record doc_context =
  documents :: "document list"
  docsLoading :: bool
  docsError :: "string option"
  projectAlias :: "string option"
  selectedIndex :: int
  lastIncludeArchived :: bool
  latestRequest :: nat

text \<open>A load up to its \<open>await\<close>, and the rest of it for the request with that token.\<close>

definition loadDocuments :: "string \<Rightarrow> bool \<Rightarrow> ('z) doc_context_scheme \<Rightarrow> ('z) doc_context_scheme" where
  "loadDocuments alias includeArchived s =
     s\<lparr>latestRequest := latestRequest s + 1, docsLoading := True, docsError := None, projectAlias := Some alias,
       lastIncludeArchived := includeArchived\<rparr>"

definition clamp_index :: "('z) doc_context_scheme \<Rightarrow> ('z) doc_context_scheme" where
  "clamp_index s =
     (if selectedIndex s \<ge> int (length (documents s)) \<and> documents s \<noteq> []
      then s\<lparr>selectedIndex := int (length (documents s)) - 1\<rparr> else s)"

definition load_done :: "nat \<Rightarrow> (rejection + document list) \<Rightarrow> ('z) doc_context_scheme \<Rightarrow> ('z) doc_context_scheme" where
  "load_done token answer s =
     (if token \<noteq> latestRequest s then s
      else
        (case answer of
           Inr docs \<Rightarrow> clamp_index (s\<lparr>documents := docs, docsLoading := False\<rparr>)
         | Inl err \<Rightarrow> s\<lparr>docsError := Some (err_message err ''Failed to load documents''), docsLoading := False\<rparr>))"

definition refreshDocuments :: "('z) doc_context_scheme \<Rightarrow> ('z) doc_context_scheme" where
  "refreshDocuments s =
     (case projectAlias s of
        Some a \<Rightarrow> if a \<noteq> [] then loadDocuments a (lastIncludeArchived s) s else s
      | None \<Rightarrow> s)"

definition selectNext :: "('z) doc_context_scheme \<Rightarrow> ('z) doc_context_scheme" where
  "selectNext s = s\<lparr>selectedIndex := min (selectedIndex s + 1) (int (length (documents s)) - 1)\<rparr>"

definition selectPrevious :: "('z) doc_context_scheme \<Rightarrow> ('z) doc_context_scheme" where
  "selectPrevious s = s\<lparr>selectedIndex := max (selectedIndex s - 1) 0\<rparr>"

definition getSelectedDocument :: "('z) doc_context_scheme \<Rightarrow> document option" where
  "getSelectedDocument s =
     (if 0 \<le> selectedIndex s \<and> selectedIndex s < int (length (documents s)) then Some (documents s ! nat (selectedIndex s)) else None)"

section \<open>Sorting\<close>

datatype sort_field = By_updated | By_created | By_title
datatype sort_dir = Asc | Desc

record sort_config =
  sort_field :: sort_field
  sort_dir :: sort_dir

definition field_of :: "string \<Rightarrow> sort_field option" where
  "field_of s = map_of [(''updated'', By_updated), (''created'', By_created), (''title'', By_title)] s"

definition dir_of :: "json option \<Rightarrow> sort_dir option" where
  "dir_of v = (if v = Some (JStr ''asc'') then Some Asc else if v = Some (JStr ''desc'') then Some Desc else None)"

definition initial_sort :: sort_config where
  "initial_sort = \<lparr>sort_field = By_updated, sort_dir = Desc\<rparr>"

definition readStoredSort :: "json option option \<Rightarrow> sort_config" where
  "readStoredSort c =
     (case c of
        Some (Some parsed) \<Rightarrow>
          (case (get_prop parsed ''field'', dir_of (get_prop parsed ''direction'')) of
             (Some (JStr f), Some d) \<Rightarrow>
               (case field_of f of Some fd \<Rightarrow> \<lparr>sort_field = fd, sort_dir = d\<rparr> | None \<Rightarrow> initial_sort)
           | _ \<Rightarrow> initial_sort)
      | _ \<Rightarrow> initial_sort)"

fun field_name :: "sort_field \<Rightarrow> string" where
  "field_name By_updated = ''updated''"
| "field_name By_created = ''created''"
| "field_name By_title = ''title''"

fun dir_name :: "sort_dir \<Rightarrow> string" where
  "dir_name Asc = ''asc''"
| "dir_name Desc = ''desc''"

definition writeStoredSort :: "sort_config \<Rightarrow> json option option" where
  "writeStoredSort c = Some (Some (JObj [(''field'', JStr (field_name (sort_field c))), (''direction'', JStr (dir_name (sort_dir c)))]))"

definition next_sort :: "sort_field \<Rightarrow> sort_config \<Rightarrow> sort_config" where
  "next_sort f prev =
     (if sort_field prev = f then \<lparr>sort_field = f, sort_dir = (if sort_dir prev = Asc then Desc else Asc)\<rparr>
      else \<lparr>sort_field = f, sort_dir = (if f = By_title then Asc else Desc)\<rparr>)"

definition setSort :: "sort_field \<Rightarrow> sort_config \<Rightarrow> sort_config \<times> json option option" where
  "setSort f prev = (let nxt = next_sort f prev in (nxt, writeStoredSort nxt))"

text \<open>The rank of a title in the user's collation is a parameter; the dates are milliseconds.\<close>

definition sort_value :: "(string \<Rightarrow> int) \<Rightarrow> sort_field \<Rightarrow> document \<Rightarrow> int" where
  "sort_value collate f d = (case f of By_title \<Rightarrow> collate (d_title d) | By_created \<Rightarrow> d_created d | By_updated \<Rightarrow> d_updated d)"

definition sortedDocuments :: "(string \<Rightarrow> int) \<Rightarrow> sort_config \<Rightarrow> document list \<Rightarrow> document list" where
  "sortedDocuments collate c docs =
     (if sort_dir c = Asc then sort_key (sort_value collate (sort_field c)) docs
      else sort_desc (sort_value collate (sort_field c)) docs)"

section \<open>State, backend and effects\<close>

datatype confirm_action = Nothing | DeleteOne string | DeleteMany "string list" | Confirmed string

record confirm_dialog =
  isOpen :: bool
  dlg_title :: string
  dlg_message :: string
  onConfirm :: confirm_action
  danger :: bool
  showCheckbox :: bool

datatype effect =
    SoftDelete string
  | Restore string
  | RemoveRecent string
  | ListByProject string bool
  | ParseWithContext string string
  | SaveDocument string
  | ExportTo string string string
  | NavigateNew "string option"
  | NavigateTo "string option" bool
  | Success string
  | SuccessUndo string "string list"
  | Failure string

record dashboard = doc_context +
  selectedDocuments :: "string list"
  currentProject :: "string option"
  showArchived :: bool
  confirmDialog :: confirm_dialog
  moveDialog :: "string list option"
  commandInput :: string
  effects :: "effect list"

record command_result =
  r_success :: bool
  r_message :: string
  r_title :: "string option"
  r_path :: "string option"
  r_requires :: bool
  r_command :: string
  r_flags :: "string list"

text \<open>The services the handlers await.  A command that resolves to \<open>null\<close> is \<open>Inr None\<close>; a closed directory
  dialog resolves to the empty string.\<close>

record backend =
  be_soft :: "string \<Rightarrow> rejection option"
  be_restore :: "string \<Rightarrow> rejection option"
  be_list :: "string \<Rightarrow> bool \<Rightarrow> rejection + document list"
  be_parse :: "string \<Rightarrow> string \<Rightarrow> rejection + command_result option"
  be_save :: "string \<Rightarrow> rejection + string"
  be_dir :: "rejection + string"
  be_export :: "string \<Rightarrow> string \<Rightarrow> rejection option"

definition emit :: "effect \<Rightarrow> dashboard \<Rightarrow> dashboard" where
  "emit e s = s\<lparr>effects := effects s @ [e]\<rparr>"

definition reloadDocuments :: "backend \<Rightarrow> dashboard \<Rightarrow> dashboard" where
  "reloadDocuments be s =
     (case currentProject s of
        None \<Rightarrow> s
      | Some a \<Rightarrow>
          let s' = loadDocuments a (showArchived s) (emit (ListByProject a (showArchived s)) s)
          in load_done (latestRequest s') (be_list be a (showArchived s)) s')"

text \<open>A change of the project or of the archive filter runs the loading effect of \<open>useDashboardData\<close>; nothing
  else of the dashboard listens to it.\<close>

definition project_changed :: "backend \<Rightarrow> string option \<Rightarrow> dashboard \<Rightarrow> dashboard" where
  "project_changed be a s = reloadDocuments be (s\<lparr>currentProject := a\<rparr>)"

definition handleToggleArchived :: "backend \<Rightarrow> dashboard \<Rightarrow> dashboard" where
  "handleToggleArchived be s = reloadDocuments be (s\<lparr>showArchived := \<not> showArchived s\<rparr>)"

section \<open>Selection\<close>

definition clearSelection :: "dashboard \<Rightarrow> dashboard" where
  "clearSelection s = s\<lparr>selectedDocuments := []\<rparr>"

definition handleSelectAll :: "dashboard \<Rightarrow> dashboard" where
  "handleSelectAll s = s\<lparr>selectedDocuments := js_unique (map d_path (documents s))\<rparr>"

definition toggle_path :: "string \<Rightarrow> string list \<Rightarrow> string list" where
  "toggle_path p sel = (if p \<in> set sel then filter (\<lambda>q. q \<noteq> p) sel else sel @ [p])"

definition handleToggleSelection :: "string option \<Rightarrow> dashboard \<Rightarrow> dashboard" where
  "handleToggleSelection path s =
     (if path \<noteq> None \<and> path \<noteq> Some [] then
        let p = the path; docIndex = findIndex (\<lambda>d. d_path d = p) (documents s)
        in if docIndex \<noteq> -1 then s\<lparr>selectedIndex := docIndex, selectedDocuments := toggle_path p (selectedDocuments s)\<rparr>
           else s
      else
        (case getSelectedDocument s of
           Some d \<Rightarrow> s\<lparr>selectedDocuments := toggle_path (d_path d) (selectedDocuments s)\<rparr>
         | None \<Rightarrow> s))"

section \<open>Handlers\<close>

definition count_message :: "string list \<Rightarrow> string \<Rightarrow> string" where
  "count_message paths verb =
     (if length paths = 1 then ''Document '' @ verb else nat_str (length paths) @ '' documents '' @ verb)"

fun archive_loop :: "backend \<Rightarrow> string list \<Rightarrow> dashboard \<Rightarrow> dashboard \<times> rejection option" where
  "archive_loop be [] s = (s, None)"
| "archive_loop be (p # ps) s =
     (case be_soft be p of
        Some err \<Rightarrow> (emit (SoftDelete p) s, Some err)
      | None \<Rightarrow> archive_loop be ps (emit (RemoveRecent p) (emit (SoftDelete p) s)))"

fun restore_loop :: "backend \<Rightarrow> string list \<Rightarrow> dashboard \<Rightarrow> dashboard \<times> rejection option" where
  "restore_loop be [] s = (s, None)"
| "restore_loop be (p # ps) s =
     (case be_restore be p of
        Some err \<Rightarrow> (emit (Restore p) s, Some err)
      | None \<Rightarrow> restore_loop be ps (emit (Restore p) s))"

definition archivePaths :: "backend \<Rightarrow> string list \<Rightarrow> dashboard \<Rightarrow> dashboard" where
  "archivePaths be paths s =
     (case archive_loop be paths s of
        (s', None) \<Rightarrow> emit (SuccessUndo (count_message paths ''archived'') paths) (clearSelection (reloadDocuments be s'))
      | (s', Some err) \<Rightarrow> emit (Failure (err_message err ''Failed to archive'')) s')"

text \<open>The undo of the notification goes on after a rejected call.\<close>

definition undo_archive :: "backend \<Rightarrow> string list \<Rightarrow> dashboard \<Rightarrow> dashboard" where
  "undo_archive be paths s = reloadDocuments be (fold (\<lambda>p. emit (Restore p)) paths s)"

definition handleArchiveSelectedDocuments :: "backend \<Rightarrow> dashboard \<Rightarrow> dashboard" where
  "handleArchiveSelectedDocuments be s =
     (if selectedDocuments s = [] then emit (Failure ''No documents selected'') s
      else archivePaths be (selectedDocuments s) s)"

definition handleRestoreSelectedDocuments :: "backend \<Rightarrow> dashboard \<Rightarrow> dashboard" where
  "handleRestoreSelectedDocuments be s =
     (if selectedDocuments s = [] then emit (Failure ''No documents selected'') s
      else
        (case restore_loop be (selectedDocuments s) s of
           (s', None) \<Rightarrow>
             emit (Success (count_message (selectedDocuments s) ''restored'')) (clearSelection (reloadDocuments be s'))
         | (s', Some err) \<Rightarrow> emit (Failure (err_message err ''Failed to restore'')) s'))"

definition handleArchiveDocument :: "backend \<Rightarrow> string \<Rightarrow> dashboard \<Rightarrow> dashboard" where
  "handleArchiveDocument be path s = archivePaths be [path] s"

definition handleRestoreDocument :: "backend \<Rightarrow> string \<Rightarrow> dashboard \<Rightarrow> dashboard" where
  "handleRestoreDocument be path s =
     (case be_restore be path of
        None \<Rightarrow> clearSelection (reloadDocuments be (emit (Restore path) s))
      | Some err \<Rightarrow> emit (Failure (err_message err ''Failed to restore'')) (emit (Restore path) s))"

definition handleOpenMoveDialog :: "string \<Rightarrow> dashboard \<Rightarrow> dashboard" where
  "handleOpenMoveDialog path s = s\<lparr>moveDialog := Some [path]\<rparr>"

definition handleMoveSelectedDocuments :: "dashboard \<Rightarrow> dashboard" where
  "handleMoveSelectedDocuments s =
     (let paths = (if selectedDocuments s \<noteq> [] then selectedDocuments s
        else (case getSelectedDocument s of Some d \<Rightarrow> [d_path d] | None \<Rightarrow> []))
      in if paths = [] then emit (Failure ''No documents selected to move'') s else s\<lparr>moveDialog := Some paths\<rparr>)"

definition handleMoveDone :: "backend \<Rightarrow> dashboard \<Rightarrow> dashboard" where
  "handleMoveDone be s = clearSelection (reloadDocuments be s)"

definition closeMoveDialog :: "dashboard \<Rightarrow> dashboard" where
  "closeMoveDialog s = s\<lparr>moveDialog := None\<rparr>"

definition handleOpenHighlightedDocument :: "dashboard \<Rightarrow> dashboard" where
  "handleOpenHighlightedDocument s =
     (case getSelectedDocument s of Some d \<Rightarrow> emit (NavigateTo (Some (d_path d)) False) s | None \<Rightarrow> s)"

definition handleNewDocument :: "backend \<Rightarrow> dashboard \<Rightarrow> dashboard" where
  "handleNewDocument be s =
     (case currentProject s of
        None \<Rightarrow> emit (Failure ''No project selected'') s
      | Some a \<Rightarrow>
          let s' = emit (SaveDocument a) s
          in case be_save be a of
               Inr newPath \<Rightarrow> emit (NavigateTo (Some newPath) True) s'
             | Inl err \<Rightarrow> emit (Failure (''Failed to create document: '' @ err_text err)) s')"

text \<open>A single document is looked up in the map of the shown documents, in which the last one of a path wins.\<close>

definition handleDeleteSelectedDocuments :: "dashboard \<Rightarrow> dashboard" where
  "handleDeleteSelectedDocuments s =
     (case selectedDocuments s of
        [] \<Rightarrow> emit (Failure ''No documents selected to permanently delete'') s
      | [p] \<Rightarrow>
          (case List.find (\<lambda>d. d_path d = p) (rev (documents s)) of
             None \<Rightarrow> emit (Failure ''Unable to find selected document'') s
           | Some d \<Rightarrow>
               s\<lparr>confirmDialog := \<lparr>isOpen = True, dlg_title = ''Permanently Delete Document'',
                 dlg_message = ''This will PERMANENTLY delete '' @ [CHR 0x22] @ d_title d @ [CHR 0x22]
                   @ '' from the vault. This action CANNOT be undone!'',
                 onConfirm = DeleteOne (d_path d), danger = True, showCheckbox = True\<rparr>\<rparr>)
      | ps \<Rightarrow>
          s\<lparr>confirmDialog := \<lparr>isOpen = True, dlg_title = ''Permanently Delete Multiple Documents'',
            dlg_message = ''This will PERMANENTLY delete '' @ nat_str (length ps)
              @ '' documents from the vault. This action CANNOT be undone!'',
            onConfirm = DeleteMany ps, danger = True, showCheckbox = True\<rparr>\<rparr>)"

definition close_confirm :: "dashboard \<Rightarrow> dashboard" where
  "close_confirm s = s\<lparr>confirmDialog := (confirmDialog s)\<lparr>isOpen := False\<rparr>\<rparr>"

definition delete_command :: "string list \<Rightarrow> string" where
  "delete_command paths = ''delete '' @ join '','' paths @ '' --force --hard''"

definition confirm_delete :: "backend \<Rightarrow> string list \<Rightarrow> string \<Rightarrow> dashboard \<Rightarrow> dashboard" where
  "confirm_delete be paths msg s =
     (let cmd = delete_command paths;
          alias = (case currentProject s of Some a \<Rightarrow> a | None \<Rightarrow> []);
          s' = emit (ParseWithContext cmd alias) s
      in close_confirm
           (case be_parse be cmd alias of
              Inl err \<Rightarrow> emit (Failure (err_message err ''Failed to permanently delete'')) s'
            | Inr None \<Rightarrow> emit (Failure ''Command returned null'') s'
            | Inr (Some r) \<Rightarrow>
                if \<not> r_success r then emit (Failure (if r_message r \<noteq> [] then r_message r else ''Failed to delete'')) s'
                else emit (Success msg) (clearSelection (reloadDocuments be (fold (\<lambda>p. emit (RemoveRecent p)) paths s')))))"

definition confirm_command :: "backend \<Rightarrow> string \<Rightarrow> dashboard \<Rightarrow> dashboard" where
  "confirm_command be cmd s =
     (case currentProject s of
        None \<Rightarrow> close_confirm s
      | Some a \<Rightarrow>
          let s' = emit (ParseWithContext cmd a) s
          in close_confirm
               (case be_parse be cmd a of
                  Inl err \<Rightarrow> emit (Failure (err_message err ''Command failed'')) s'
                | Inr None \<Rightarrow> emit (Failure ''Command returned null'') s'
                | Inr (Some r) \<Rightarrow>
                    if r_success r then
                      let t = clearSelection (reloadDocuments be s')
                      in if r_message r \<noteq> [] then emit (Success (r_message r)) t else t
                    else if r_message r \<noteq> [] then emit (Failure (r_message r)) s' else s'))"

fun run_confirm :: "backend \<Rightarrow> confirm_action \<Rightarrow> dashboard \<Rightarrow> dashboard" where
  "run_confirm be Nothing s = s"
| "run_confirm be (DeleteOne p) s = confirm_delete be [p] ''Document permanently deleted'' s"
| "run_confirm be (DeleteMany ps) s = confirm_delete be ps (nat_str (length ps) @ '' documents permanently deleted'') s"
| "run_confirm be (Confirmed cmd) s = confirm_command be cmd s"

definition handleEsc :: "dashboard \<Rightarrow> dashboard" where
  "handleEsc s =
     (if isOpen (confirmDialog s) then close_confirm s
      else if selectedDocuments s \<noteq> [] then clearSelection s else s)"

section \<open>Export\<close>

definition getExportablePaths :: "dashboard \<Rightarrow> string list" where
  "getExportablePaths s =
     map d_path (filter (\<lambda>d. d_path d \<in> set (selectedDocuments s) \<and> \<not> d_canvas d) (documents s))"

definition replace_first :: "string \<Rightarrow> string \<Rightarrow> string \<Rightarrow> string" where
  "replace_first s p r = (case indexOf s p of None \<Rightarrow> s | Some i \<Rightarrow> take i s @ r @ drop (i + length p) s)"

definition export_name :: "string \<Rightarrow> string \<Rightarrow> string" where
  "export_name ext docPath =
     (let n = replace_first (last (split_char (CHR ''/'') docPath)) ''.json'' ext
      in if n \<noteq> [] then n else ''document'' @ ext)"

fun export_loop :: "backend \<Rightarrow> string \<Rightarrow> string \<Rightarrow> string list \<Rightarrow> dashboard \<Rightarrow> dashboard \<times> rejection option" where
  "export_loop be ext dir [] s = (s, None)"
| "export_loop be ext dir (p # ps) s =
     (let out = dir @ ''/'' @ export_name ext p; s' = emit (ExportTo ext p out) s
      in case be_export be p out of Some err \<Rightarrow> (s', Some err) | None \<Rightarrow> export_loop be ext dir ps s')"

definition handleExportSelected :: "backend \<Rightarrow> string \<Rightarrow> dashboard \<Rightarrow> dashboard" where
  "handleExportSelected be ext s =
     (let paths = getExportablePaths s
      in if paths = [] then emit (Failure ''No text documents selected to export (canvas documents export as images).'') s
         else
           (case be_dir be of
              Inl err \<Rightarrow> emit (Failure (err_message err ''Failed to export'')) s
            | Inr dir \<Rightarrow>
                if dir = [] then s
                else
                  (case export_loop be ext dir paths s of
                     (s', None) \<Rightarrow> s'
                   | (s', Some err) \<Rightarrow> emit (Failure (err_message err ''Failed to export'')) s')))"

section \<open>Commands\<close>

definition COMMANDS_WITH_NUMERIC_SHORTCUTS :: "string list" where
  "COMMANDS_WITH_NUMERIC_SHORTCUTS = [''doc'', ''archive'', ''unarchive'', ''delete'', ''export-md'', ''export-pdf'']"

definition cmd_char :: "char \<Rightarrow> bool" where
  "cmd_char c \<longleftrightarrow> is_alias_char c"

text \<open>The optional last group of both patterns: spaces and then anything up to a line end.\<close>

definition flags_ok :: "string \<Rightarrow> bool" where
  "flags_ok r \<longleftrightarrow> r = [] \<or> is_space (hd r) \<and> list_all (\<lambda>c. c \<noteq> CHR 0x0A \<and> c \<noteq> CHR 0x0D) (dropWhile is_space r)"

definition command_head :: "string \<Rightarrow> (string \<times> string) option" where
  "command_head s =
     (let cmd = takeWhile cmd_char s; r = dropWhile cmd_char s
      in if cmd = [] \<or> r = [] \<or> \<not> is_space (hd r) then None else Some (cmd, dropWhile is_space r))"

definition match_single :: "string \<Rightarrow> (string \<times> string \<times> string) option" where
  "match_single s =
     (case command_head s of
        None \<Rightarrow> None
      | Some (cmd, r) \<Rightarrow>
          let num = takeWhile is_digit r; flags = dropWhile is_digit r
          in if num = [] \<or> \<not> flags_ok flags then None else Some (cmd, num, flags))"

text \<open>The longest run of digits, commas and spaces, cut back to its last space when something else follows.  (Giving
  back spaces before the run only leads to an empty list of numbers, for which the command is returned as it is.)\<close>

definition number_char :: "char \<Rightarrow> bool" where
  "number_char c \<longleftrightarrow> is_digit c \<or> c = CHR '','' \<or> is_space c"

definition match_multi :: "string \<Rightarrow> (string \<times> string \<times> string) option" where
  "match_multi s =
     (case command_head s of
        None \<Rightarrow> None
      | Some (cmd, r) \<Rightarrow>
          let run = takeWhile number_char r; rest = dropWhile number_char r
          in if run = [] then None
             else if rest = [] then Some (cmd, run, [])
             else
               let tl_run = rev (takeWhile (\<lambda>c. \<not> is_space c) (rev run));
                   before = dropWhile (\<lambda>c. \<not> is_space c) (rev run)
               in (case before of
                     [] \<Rightarrow> None
                   | c # pre \<Rightarrow>
                       let flags = c # tl_run @ rest
                       in if pre = [] \<or> \<not> flags_ok flags then None else Some (cmd, rev pre, flags)))"

definition parse_numbers :: "string \<Rightarrow> int option list" where
  "parse_numbers s = map parseInt (filter (\<lambda>t. t \<noteq> []) (map trim (split_char (CHR '','') s)))"

definition preprocessCommand :: "string \<Rightarrow> document list \<Rightarrow> string list \<Rightarrow> string" where
  "preprocessCommand command docs selectedPaths =
     (let tokens = split_ws command;
          rawCommand = hd tokens;
          commandLower = toLowerCase rawCommand;
          args = tl tokens;
          nonFlagArgs = filter (\<lambda>a. \<not> startsWith a ''-'') args;
          numeric = (\<lambda>cmd. toLowerCase cmd \<in> set COMMANDS_WITH_NUMERIC_SHORTCUTS)
      in if selectedPaths \<noteq> [] \<and> commandLower \<in> {''archive'', ''unarchive'', ''delete''} \<and> rawCommand \<noteq> [] \<and> nonFlagArgs = []
         then trim (join '' '' (rawCommand # join '','' selectedPaths # filter (\<lambda>a. startsWith a ''-'') args))
         else
           (case match_single command of
              Some (cmd, num, flags) \<Rightarrow>
                if \<not> numeric cmd then command
                else
                  let n = str_nat num
                  in if n < 1 \<or> n > length docs then command
                     else trim (cmd @ '' '' @ d_path (docs ! (n - 1)) @ flags)
            | None \<Rightarrow>
                (case match_multi command of
                   Some (cmd, nums, flags) \<Rightarrow>
                     if \<not> numeric cmd then command
                     else
                       let numbers = parse_numbers nums
                       in if list_ex (\<lambda>n. case n of None \<Rightarrow> True | Some i \<Rightarrow> i < 1 \<or> i > int (length docs)) numbers then command
                          else
                            let paths = map (\<lambda>n. d_path (docs ! (nat (the n) - 1))) numbers
                            in if paths = [] then command else trim (cmd @ '' '' @ join '','' paths @ flags)
                 | None \<Rightarrow> command)))"

text \<open>The answer of a successful command: a request for confirmation, one of the known messages, or a text to show.\<close>

definition confirmation_of :: "string \<Rightarrow> command_result \<Rightarrow> confirm_dialog" where
  "confirmation_of cmd r =
     (let msg = (\<lambda>d. if r_message r \<noteq> [] then r_message r else d);
          base = \<lparr>isOpen = True, dlg_title = ''Confirm Action'', dlg_message = msg ''Confirm this action?'',
            onConfirm = Confirmed (r_command r), danger = False, showCheckbox = False\<rparr>
      in if startsWith cmd ''archive '' then base\<lparr>dlg_title := ''Archive Document'', dlg_message := msg ''Archive this document?''\<rparr>
         else if startsWith cmd ''delete '' then
           (if ''--hard'' \<in> set (r_flags r) then
              base\<lparr>dlg_title := ''Permanently Delete Document'',
                dlg_message := msg ''This will PERMANENTLY delete the document. This action CANNOT be undone!'',
                danger := True, showCheckbox := True\<rparr>
            else base\<lparr>dlg_title := ''Delete Document'', dlg_message := msg ''Delete this document?''\<rparr>)
         else base)"

definition export_command :: "backend \<Rightarrow> string \<Rightarrow> command_result \<Rightarrow> dashboard \<Rightarrow> dashboard" where
  "export_command be ext r s =
     (case r_path r of
        None \<Rightarrow> emit (Failure ''No document path provided'') s
      | Some p \<Rightarrow>
          if p = [] then emit (Failure ''No document path provided'') s
          else
            (case be_dir be of
               Inl err \<Rightarrow> emit (Failure (err_message err ''Command failed'')) s
             | Inr dir \<Rightarrow>
                 if dir = [] then s
                 else
                   (case export_loop be ext dir [p] s of
                      (s', None) \<Rightarrow> s'
                    | (s', Some err) \<Rightarrow> emit (Failure (err_message err ''Command failed'')) s')))"

definition command_done :: "backend \<Rightarrow> string \<Rightarrow> command_result \<Rightarrow> dashboard \<Rightarrow> dashboard" where
  "command_done be baseCommand r s =
     (let m = r_message r; reload = (\<lambda>t. clearSelection (reloadDocuments be t))
      in if m = ''navigate to new document'' then emit (NavigateNew (r_title r)) s
         else if m = ''navigate to document'' then emit (NavigateTo (r_path r) False) s
         else if m \<in> {''document archived'', ''document unarchived'', ''document deleted''} then reload s
         else if m = ''document permanently deleted'' then emit (Success ''Document permanently deleted'') (reload s)
         else if m = ''export document'' then export_command be ''.md'' r s
         else if m = ''export to PDF'' then export_command be ''.pdf'' r s
         else if m = [] then s
         else
           emit (Success m)
             (if baseCommand \<in> {''archive'', ''unarchive'', ''delete''} \<or> str_includes m ''permanently deleted'' then reload s else s))"

definition without_prefix :: "string \<Rightarrow> string" where
  "without_prefix command =
     (let t = trim command in if startsWith t '':'' then dropWhile is_space (drop 1 t) else t)"

definition selectedPathsInOrder :: "dashboard \<Rightarrow> string list" where
  "selectedPathsInOrder s = map d_path (filter (\<lambda>d. d_path d \<in> set (selectedDocuments s)) (documents s))"

definition submit_body :: "backend \<Rightarrow> string \<Rightarrow> string \<Rightarrow> dashboard \<Rightarrow> dashboard" where
  "submit_body be a cmd s =
     (if cmd = [] then emit (Failure ''Empty command'') s
      else
        let full = preprocessCommand cmd (documents s) (selectedPathsInOrder s);
            s' = emit (ParseWithContext full a) s
        in case be_parse be full a of
             Inl err \<Rightarrow> emit (Failure (err_message err ''Command failed'')) s'
           | Inr None \<Rightarrow> emit (Failure ''Command returned null'') s'
           | Inr (Some r) \<Rightarrow>
               if \<not> r_success r then (if r_message r \<noteq> [] then emit (Failure (r_message r)) s' else s')
               else if r_requires r \<and> r_command r \<noteq> [] then s'\<lparr>confirmDialog := confirmation_of cmd r\<rparr>
               else command_done be (toLowerCase (hd (split_ws cmd))) r s')"

definition handleCommandSubmit :: "backend \<Rightarrow> string \<Rightarrow> dashboard \<Rightarrow> dashboard" where
  "handleCommandSubmit be command s =
     (case currentProject s of
        None \<Rightarrow> emit (Failure ''No project selected'') s
      | Some a \<Rightarrow> (submit_body be a (without_prefix command) s)\<lparr>commandInput := []\<rparr>)"

section \<open>Lemmas on the state\<close>

named_theorems dash_simps \<open>what the steps of a handler leave alone\<close>

lemma emit_fields [dash_simps]:
  "effects (emit e s) = effects s @ [e]"
  "selectedDocuments (emit e s) = selectedDocuments s"
  "currentProject (emit e s) = currentProject s"
  "showArchived (emit e s) = showArchived s"
  "documents (emit e s) = documents s"
  "confirmDialog (emit e s) = confirmDialog s"
  by (simp_all add: emit_def)

lemma clearSelection_fields [dash_simps]:
  "selectedDocuments (clearSelection s) = []"
  "effects (clearSelection s) = effects s"
  "documents (clearSelection s) = documents s"
  "currentProject (clearSelection s) = currentProject s"
  by (simp_all add: clearSelection_def)

lemma load_done_fields [dash_simps]:
  "selectedDocuments (load_done t r s) = selectedDocuments s"
  "effects (load_done t r s) = effects s"
  "currentProject (load_done t r s) = currentProject s"
  "showArchived (load_done t r s) = showArchived s"
  "confirmDialog (load_done t r s) = confirmDialog s"
  by (cases r; simp add: load_done_def clamp_index_def)+

lemma loadDocuments_fields [dash_simps]:
  "selectedDocuments (loadDocuments a b s) = selectedDocuments s"
  "effects (loadDocuments a b s) = effects s"
  "currentProject (loadDocuments a b s) = currentProject s"
  "showArchived (loadDocuments a b s) = showArchived s"
  "confirmDialog (loadDocuments a b s) = confirmDialog s"
  by (simp_all add: loadDocuments_def)

definition reload_effects :: "dashboard \<Rightarrow> effect list" where
  "reload_effects s = (case currentProject s of None \<Rightarrow> [] | Some a \<Rightarrow> [ListByProject a (showArchived s)])"

lemma reloadDocuments_fields [dash_simps]:
  "selectedDocuments (reloadDocuments be s) = selectedDocuments s"
  "effects (reloadDocuments be s) = effects s @ reload_effects s"
  "currentProject (reloadDocuments be s) = currentProject s"
  "confirmDialog (reloadDocuments be s) = confirmDialog s"
  by (cases "currentProject s"; simp add: reloadDocuments_def reload_effects_def Let_def dash_simps)+

lemma reloadDocuments_documents:
  "currentProject s = Some a \<Longrightarrow> be_list be a (showArchived s) = Inr docs \<Longrightarrow> documents (reloadDocuments be s) = docs"
  by (simp add: reloadDocuments_def Let_def load_done_def clamp_index_def)

section \<open>The documents shown\<close>

text \<open>Loads, answers in any order and moves of the highlight.  The answers are a function of the request's number.\<close>

datatype context_event = Load string bool | Answered nat | Refresh | Next | Previous | SetIndex int

fun context_step :: "(nat \<Rightarrow> rejection + document list) \<Rightarrow> context_event \<Rightarrow> doc_context \<Rightarrow> doc_context" where
  "context_step ans (Load a b) s = loadDocuments a b s"
| "context_step ans (Answered t) s = load_done t (ans t) s"
| "context_step ans Refresh s = refreshDocuments s"
| "context_step ans Next s = selectNext s"
| "context_step ans Previous s = selectPrevious s"
| "context_step ans (SetIndex i) s = clamp_index (s\<lparr>selectedIndex := i\<rparr>)"

definition initial_context :: doc_context where
  "initial_context = \<lparr>documents = [], docsLoading = False, docsError = None, projectAlias = None, selectedIndex = 0,
     lastIncludeArchived = False, latestRequest = 0\<rparr>"

definition context_inv :: "(nat \<Rightarrow> rejection + document list) \<Rightarrow> doc_context \<Rightarrow> bool" where
  "context_inv ans s \<longleftrightarrow>
     (latestRequest s = 0 \<longrightarrow> documents s = [] \<and> docsError s = None) \<and>
     (latestRequest s > 0 \<and> \<not> docsLoading s \<longrightarrow>
        (case ans (latestRequest s) of
           Inr docs \<Rightarrow> documents s = docs \<and> docsError s = None
         | Inl err \<Rightarrow> docsError s = Some (err_message err ''Failed to load documents''))) \<and>
     (docsLoading s \<longrightarrow> docsError s = None \<and> latestRequest s > 0)"

lemma context_inv_load: "context_inv ans (loadDocuments a b s)"
  by (simp add: context_inv_def loadDocuments_def)

lemma context_inv_index: "context_inv ans s \<Longrightarrow> context_inv ans (s\<lparr>selectedIndex := i\<rparr>)"
  by (cases "ans (latestRequest s)") (simp_all add: context_inv_def)

lemma context_inv_clamp: "context_inv ans s \<Longrightarrow> context_inv ans (clamp_index s)"
  by (simp add: clamp_index_def context_inv_index)

lemma context_inv_done:
  assumes "context_inv ans s" "t > 0"
  shows "context_inv ans (load_done t (ans t) s)"
proof (cases "t = latestRequest s")
  case True
  show ?thesis
  proof (cases "ans t")
    case (Inl err)
    with True assms show ?thesis by (simp add: load_done_def context_inv_def)
  next
    case (Inr docs)
    have "docsError s = None"
      using assms True Inr by (cases "docsLoading s") (simp_all add: context_inv_def)
    with True Inr assms have "context_inv ans (s\<lparr>documents := docs, docsLoading := False\<rparr>)" by (simp add: context_inv_def)
    with True Inr show ?thesis by (simp add: load_done_def context_inv_clamp)
  qed
qed (use assms in \<open>simp add: load_done_def\<close>)

fun sent :: "context_event \<Rightarrow> bool" where
  "sent (Answered t) = (t > 0)"
| "sent _ = True"

lemma context_inv_step: "context_inv ans s \<Longrightarrow> sent e \<Longrightarrow> context_inv ans (context_step ans e s)"
  by (cases e) (auto simp: context_inv_load context_inv_done context_inv_index context_inv_clamp
      refreshDocuments_def selectNext_def selectPrevious_def split: option.split)

lemma context_inv_run: "list_all sent es \<Longrightarrow> context_inv ans s \<Longrightarrow> context_inv ans (fold (context_step ans) es s)"
  by (induction es arbitrary: s) (auto intro: context_inv_step)

text \<open>C38. The list of documents is up to date.  However loads, refreshes and their answers interleave, once nothing is
  loading the list is the answer to the latest request, or that request failed and its error is reported; while a
  request is open no older error is shown.  (Request numbers start at 1.)\<close>

theorem documents_current:
  assumes "list_all sent es" "s = fold (context_step ans) es initial_context"
  shows "(latestRequest s > 0 \<and> \<not> docsLoading s \<longrightarrow>
      (case ans (latestRequest s) of
         Inr docs \<Rightarrow> documents s = docs \<and> docsError s = None
       | Inl err \<Rightarrow> docsError s = Some (err_message err ''Failed to load documents''))) \<and>
    (docsLoading s \<longrightarrow> docsError s = None)"
proof -
  have "context_inv ans initial_context" by (simp add: context_inv_def initial_context_def)
  from context_inv_run [OF assms(1) this] show ?thesis unfolding assms(2) [symmetric] context_inv_def by blast
qed

section \<open>Archiving\<close>

lemma archive_loop_split:
  "archive_loop be ps s =
     (s\<lparr>effects := effects s @ concat (map (\<lambda>p. [SoftDelete p, RemoveRecent p]) (takeWhile (\<lambda>p. be_soft be p = None) ps))
        @ (case dropWhile (\<lambda>p. be_soft be p = None) ps of [] \<Rightarrow> [] | p # _ \<Rightarrow> [SoftDelete p])\<rparr>,
      case dropWhile (\<lambda>p. be_soft be p = None) ps of [] \<Rightarrow> None | p # _ \<Rightarrow> be_soft be p)"
  by (induction ps arbitrary: s) (auto simp: emit_def split: option.split)

text \<open>Archiving stops at the first rejected call.  The documents before it are archived and leave the recent list, in
  order; if there is no rejected call the list is reloaded, the selection cleared and the undo of exactly these
  documents offered, otherwise the error is shown and the selection kept.\<close>

theorem archivePaths_correct:
  "effects (archivePaths be ps s) =
     effects s @ concat (map (\<lambda>p. [SoftDelete p, RemoveRecent p]) (takeWhile (\<lambda>p. be_soft be p = None) ps))
       @ (case dropWhile (\<lambda>p. be_soft be p = None) ps of
            [] \<Rightarrow> reload_effects s @ [SuccessUndo (count_message ps ''archived'') ps]
          | p # _ \<Rightarrow> [SoftDelete p, Failure (err_message (the (be_soft be p)) ''Failed to archive'')]) \<and>
   selectedDocuments (archivePaths be ps s) =
     (if list_all (\<lambda>p. be_soft be p = None) ps then [] else selectedDocuments s)"
proof (cases "dropWhile (\<lambda>p. be_soft be p = None) ps")
  case Nil
  then have "list_all (\<lambda>p. be_soft be p = None) ps" by (simp add: list_all_iff dropWhile_eq_Nil_conv)
  with Nil show ?thesis
    by (simp add: archivePaths_def archive_loop_split dash_simps reload_effects_def
        del: dropWhile_eq_Nil_conv split: option.split)
next
  case (Cons p rest)
  then have p: "be_soft be p \<noteq> None" using hd_dropWhile [of "\<lambda>p. be_soft be p = None" ps] by simp
  then obtain err where e: "be_soft be p = Some err" by blast
  have "p \<in> set ps" using Cons set_dropWhileD [of p "\<lambda>p. be_soft be p = None" ps] by simp
  with p have "\<not> list_all (\<lambda>p. be_soft be p = None) ps" by (auto simp: list_all_iff)
  with Cons e show ?thesis by (simp add: archivePaths_def archive_loop_split dash_simps)
qed

section \<open>A selection that outlives its documents\<close>

lemma select_then_switch:
  assumes "be_list be b (showArchived s) = Inr docs"
  shows "selectedDocuments (project_changed be (Some b) (handleSelectAll s)) = js_unique (map d_path (documents s))"
    "documents (project_changed be (Some b) (handleSelectAll s)) = docs"
    "currentProject (project_changed be (Some b) (handleSelectAll s)) = Some b"
  using assms reloadDocuments_documents [of "(handleSelectAll s)\<lparr>currentProject := Some b\<rparr>" b be docs]
  by (simp_all add: project_changed_def dash_simps handleSelectAll_def)

lemma delete_many:
  assumes "selectedDocuments s = p # q # ps"
  shows "isOpen (confirmDialog (handleDeleteSelectedDocuments s))"
    "onConfirm (confirmDialog (handleDeleteSelectedDocuments s)) = DeleteMany (p # q # ps)"
    "currentProject (handleDeleteSelectedDocuments s) = currentProject s"
    "effects (handleDeleteSelectedDocuments s) = effects s"
  using assms by (simp_all add: handleDeleteSelectedDocuments_def)

lemma confirm_delete_sends:
  "ParseWithContext (delete_command ps) (case currentProject s of Some a \<Rightarrow> a | None \<Rightarrow> []) \<in> set (effects (confirm_delete be ps msg s))"
proof -
  define a where "a = (case currentProject s of Some a \<Rightarrow> a | None \<Rightarrow> [])"
  define s' where "s' = emit (ParseWithContext (delete_command ps) a) s"
  have e: "ParseWithContext (delete_command ps) a \<in> set (effects s')" by (simp add: s'_def dash_simps)
  have f: "set (effects t) \<subseteq> set (effects (fold (\<lambda>p. emit (RemoveRecent p)) qs t))" for qs t
    by (induction qs arbitrary: t) (fastforce simp: emit_def)+
  have c: "effects (close_confirm t) = effects t" for t by (simp add: close_confirm_def)
  show ?thesis
    unfolding confirm_delete_def Let_def c a_def [symmetric] s'_def [symmetric]
    using e subsetD [OF f e, of ps] by (simp add: dash_simps split: sum.split option.split)
qed

text \<open>C20. A selection outlives the list it was made in.  Selecting all documents of a project, switching to another
  project and pressing delete opens the confirmation for the documents of the first project, none of which is shown
  (its message only counts them), and confirming it sends the permanent deletion of exactly those paths in the name
  of the second project.  The command line and the exports, in the same state, act on no document.\<close>

theorem hidden_selection_deleted:
  assumes "be_list be b (showArchived s) = Inr docs" "distinct (map d_path (documents s))"
    "length (documents s) \<ge> 2" "set (map d_path docs) \<inter> set (map d_path (documents s)) = {}"
    "t = handleDeleteSelectedDocuments (project_changed be (Some b) (handleSelectAll s))"
  shows "documents t = docs \<and> isOpen (confirmDialog t) \<and>
    ParseWithContext (delete_command (map d_path (documents s))) b
      \<in> set (effects (run_confirm be (onConfirm (confirmDialog t)) t)) \<and>
    selectedPathsInOrder t = [] \<and> getExportablePaths t = []"
proof -
  define u where "u = project_changed be (Some b) (handleSelectAll s)"
  note sw = select_then_switch [OF assms(1), folded u_def]
  have sel: "selectedDocuments u = map d_path (documents s)"
    using sw(1) assms(2) by (simp add: js_unique_distinct)
  then obtain p q ps where pq: "selectedDocuments u = p # q # ps"
    using assms(3) by (cases "documents s"; cases "tl (documents s)") auto
  have t: "t = handleDeleteSelectedDocuments u" using assms(5) by (simp add: u_def)
  note dm = delete_many [OF pq, folded t]
  have fields: "documents t = docs" "selectedDocuments t = map d_path (documents s)"
    using t pq sw(2) sel by (simp_all add: handleDeleteSelectedDocuments_def)
  have hidden: "filter (\<lambda>d. d_path d \<in> set (selectedDocuments t) \<and> R d) docs = []" for R
    using assms(4) fields(2) by (auto simp: filter_empty_conv)
  have "ParseWithContext (delete_command (map d_path (documents s))) b
      \<in> set (effects (run_confirm be (onConfirm (confirmDialog t)) t))"
    using confirm_delete_sends [of "p # q # ps" t be "nat_str (length (p # q # ps)) @ '' documents permanently deleted''"]
      dm(2,3) sw(3) pq sel by simp
  with fields dm(1) hidden [of "\<lambda>d. True"] hidden [of "\<lambda>d. \<not> d_canvas d"] show ?thesis
    by (simp add: selectedPathsInOrder_def getExportablePaths_def)
qed

section \<open>Numbers in commands\<close>

lemma cmd_char_lower: "cmd_char (lower_char c) \<Longrightarrow> cmd_char c"
proof (cases "is_upper c")
  case True
  assume l: "cmd_char (lower_char c)"
  have "ccode c + 32 < 256" using True by (auto simp: is_upper_def)
  then have "ccode (lower_char c) = ccode c + 32" using True by (simp add: lower_char_def)
  with l True show ?thesis
    by (auto simp: cmd_char_def is_alias_char_def is_word_char_def is_digit_def is_upper_def)
qed (simp add: lower_char_def)

lemma command_chars:
  assumes "toLowerCase cmd \<in> set COMMANDS_WITH_NUMERIC_SHORTCUTS"
  shows "list_all cmd_char cmd \<and> cmd \<noteq> []"
proof -
  have "list_all (\<lambda>w. list_all cmd_char w \<and> w \<noteq> []) COMMANDS_WITH_NUMERIC_SHORTCUTS" by code_simp
  with assms have "list_all cmd_char (toLowerCase cmd)" "toLowerCase cmd \<noteq> []" by (auto simp: list_all_iff)
  then show ?thesis by (auto simp: toLowerCase_def list_all_iff intro: cmd_char_lower)
qed

lemma nat_str_is_digit: "list_all is_digit (nat_str n)"
  using nat_str_digits by (auto simp: list_all_iff is_digit_def)

lemma nat_str_nonempty [simp]: "nat_str n \<noteq> []"
  by (subst nat_str.simps) simp

lemma digit_facts: "is_digit c \<Longrightarrow> \<not> is_space c \<and> c \<noteq> CHR '','' \<and> c \<noteq> CHR ''-'' \<and> c \<noteq> CHR ''+''"
  by (auto simp: is_digit_def is_space_def)

lemma parse_digits_nat_str: "parse_digits (nat_str n) = Some n"
proof -
  have "takeWhile is_digit (nat_str n) = nat_str n"
    using nat_str_is_digit by (simp add: list_all_iff)
  then show ?thesis by (simp only: parse_digits_def Let_def nat_str_nonempty if_False str_nat_str)
qed

lemma parseInt_nat_str: "parseInt (nat_str n) = Some (int n)"
proof -
  obtain c r where cr: "nat_str n = c # r" using nat_str_nonempty [of n] by (cases "nat_str n") blast+
  then have "is_digit c" using nat_str_is_digit [of n] by simp
  with digit_facts cr parse_digits_nat_str [of n] show ?thesis by (simp add: parseInt_def)
qed

lemma trim_nat_str: "trim (nat_str n) = nat_str n"
proof -
  have "\<forall>c\<in>set (nat_str n). \<not> is_space c" using nat_str_is_digit [of n] digit_facts by (auto simp: list_all_iff)
  then show ?thesis by (intro trim_id) simp
qed

definition number_list :: "nat list \<Rightarrow> string" where
  "number_list ns = join '','' (map nat_str ns)"

lemma parse_number_list: "ns \<noteq> [] \<Longrightarrow> parse_numbers (number_list ns) = map (\<lambda>n. Some (int n)) ns"
proof -
  assume "ns \<noteq> []"
  moreover have "CHR '','' \<notin> set (nat_str n)" for n
    using nat_str_is_digit [of n] digit_facts by (auto simp: list_all_iff)
  ultimately have "split_char (CHR '','') (number_list ns) = map nat_str ns"
    unfolding number_list_def by (intro split_join) auto
  then show ?thesis by (simp add: parse_numbers_def trim_nat_str parseInt_nat_str comp_def)
qed

lemma number_list_chars:
  assumes "c \<in> set (number_list ns)"
  shows "number_char c \<and> \<not> is_space c"
proof -
  from set_join [OF assms [unfolded number_list_def]] have "c = CHR '','' \<or> is_digit c"
    using nat_str_is_digit by (auto simp: list_all_iff)
  then show ?thesis using digit_facts [of c] by (auto simp: number_char_def is_space_def)
qed

lemma number_list_Cons:
  "number_list (n # ns) = nat_str n @ (if ns = [] then [] else CHR '','' # number_list ns)"
  by (cases ns) (simp_all add: number_list_def)

lemma number_list_hd: "ns \<noteq> [] \<Longrightarrow> number_list ns \<noteq> [] \<and> is_digit (hd (number_list ns))"
  using nat_str_is_digit [of "hd ns"] by (cases ns; cases "nat_str (hd ns)") (auto simp: number_list_Cons)

lemma command_head_numbers:
  assumes "list_all cmd_char cmd" "cmd \<noteq> []" "r \<noteq> []" "\<not> is_space (hd r)"
  shows "command_head (cmd @ CHR '' '' # r) = Some (cmd, r)"
proof -
  have sp: "\<not> cmd_char (CHR '' '')" "is_space (CHR '' '')" by code_simp+
  have "takeWhile cmd_char (cmd @ CHR '' '' # r) = cmd" "dropWhile cmd_char (cmd @ CHR '' '' # r) = CHR '' '' # r"
    using assms(1) sp by (simp_all add: list_all_iff takeWhile_append dropWhile_append)
  moreover have "dropWhile is_space r = r" using assms(3,4) by (cases r) auto
  ultimately show ?thesis using assms(2) sp by (simp add: command_head_def)
qed

text \<open>What may follow the numbers: nothing, or a space and a first word that is no number.\<close>

definition flag_text :: "string \<Rightarrow> bool" where
  "flag_text fl \<longleftrightarrow> fl = [] \<or>
     (hd fl = CHR '' '' \<and> tl fl \<noteq> [] \<and> \<not> number_char (hd (tl fl)) \<and> CHR 0x0A \<notin> set fl \<and> CHR 0x0D \<notin> set fl)"

lemma flag_text_ok: "flag_text fl \<Longrightarrow> flags_ok fl"
proof -
  assume f: "flag_text fl"
  have "is_space (CHR '' '')" by code_simp
  moreover have "set (dropWhile is_space fl) \<subseteq> set fl" using set_dropWhileD by fast
  ultimately show ?thesis using f by (auto simp: flag_text_def flags_ok_def list_all_iff)
qed

lemma match_single_one:
  assumes "list_all cmd_char cmd" "cmd \<noteq> []" "flag_text fl"
  shows "match_single (cmd @ CHR '' '' # nat_str n @ fl) = Some (cmd, nat_str n, fl)"
proof -
  have nd: "fl = [] \<or> \<not> is_digit (hd fl)" using assms(3) by (auto simp: flag_text_def is_digit_def)
  have "hd (nat_str n @ fl) \<in> set (nat_str n)" by simp
  then have "\<not> is_space (hd (nat_str n @ fl))"
    using nat_str_is_digit [of n] digit_facts by (metis list_all_iff)
  then have "command_head (cmd @ CHR '' '' # nat_str n @ fl) = Some (cmd, nat_str n @ fl)"
    using assms by (intro command_head_numbers) auto
  moreover have "takeWhile is_digit (nat_str n @ fl) = nat_str n" "dropWhile is_digit (nat_str n @ fl) = fl"
    using nat_str_is_digit [of n] nd by (cases fl; simp add: list_all_iff takeWhile_append dropWhile_append)+
  ultimately show ?thesis using flag_text_ok [OF assms(3)] by (simp add: match_single_def)
qed

lemma numbers_head:
  assumes "list_all cmd_char cmd" "cmd \<noteq> []" "ns \<noteq> []"
  shows "command_head (cmd @ CHR '' '' # number_list ns @ fl) = Some (cmd, number_list ns @ fl)"
  using assms number_list_hd [of ns] digit_facts [of "hd (number_list ns)"]
  by (intro command_head_numbers) auto

lemma match_single_many:
  assumes "list_all cmd_char cmd" "cmd \<noteq> []" "ns \<noteq> []"
  shows "match_single (cmd @ CHR '' '' # number_list (n # ns) @ fl) = None"
proof -
  have c: "\<not> is_digit (CHR '','')" "\<not> is_space (CHR '','')" by code_simp+
  have "dropWhile is_digit (number_list (n # ns) @ fl) = CHR '','' # number_list ns @ fl"
    using nat_str_is_digit [of n] assms(3) c by (simp add: number_list_Cons list_all_iff dropWhile_append)
  with c numbers_head [OF assms(1,2), of "n # ns" fl] show ?thesis
    by (simp add: match_single_def flags_ok_def Let_def del: dropWhile_eq_Nil_conv)
qed

lemma match_multi_numbers:
  assumes "list_all cmd_char cmd" "cmd \<noteq> []" "ns \<noteq> []" "flag_text fl"
  shows "match_multi (cmd @ CHR '' '' # number_list ns @ fl) = Some (cmd, number_list ns, fl)"
proof (cases fl)
  case Nil
  have "takeWhile number_char (number_list ns) = number_list ns" "dropWhile number_char (number_list ns) = []"
    using number_list_chars by auto
  with Nil numbers_head [OF assms(1-3), of "[]"] number_list_hd [OF assms(3)] show ?thesis
    by (simp add: match_multi_def Let_def del: takeWhile_eq_all_conv dropWhile_eq_Nil_conv)
next
  case (Cons sp f)
  with assms(4) have f: "sp = CHR '' ''" "f \<noteq> []" "\<not> number_char (hd f)" by (auto simp: flag_text_def)
  have sp: "number_char sp" "is_space sp" unfolding f(1) by code_simp+
  obtain c f' where cf: "f = c # f'" "\<not> number_char c" using f by (cases f) auto
  have run: "takeWhile number_char (number_list ns @ fl) = number_list ns @ [sp]"
    "dropWhile number_char (number_list ns @ fl) = f"
    using number_list_chars [of _ ns] sp cf Cons by (auto simp: takeWhile_append dropWhile_append)
  with Cons sp f numbers_head [OF assms(1-3), of fl] number_list_hd [OF assms(3)] flag_text_ok [OF assms(4)]
  show ?thesis by (simp add: match_multi_def)
qed

lemma numbers_are_arguments:
  assumes "list_all cmd_char cmd" "ns \<noteq> []"
  shows "filter (\<lambda>a. \<not> startsWith a ''-'') (tl (split_ws (cmd @ CHR '' '' # number_list ns @ fl))) \<noteq> []"
proof -
  have sp: "is_space (CHR '' '')" by code_simp
  have w: "list_all (\<lambda>c. \<not> is_space c) cmd"
    using assms(1) by (auto simp: list_all_iff cmd_char_def is_alias_char_def is_word_char_def is_digit_def is_space_def)
  obtain c r where cr: "number_list ns @ fl = c # r" "is_digit c"
    using number_list_hd [OF assms(2)] by (cases "number_list ns") auto
  then have nc: "\<not> is_space c" "c \<noteq> CHR ''-''" using digit_facts by auto
  have "tl (split_ws (cmd @ CHR '' '' # number_list ns @ fl)) = split_ws (c # r)"
    using split_ws_append [OF w sp] cr(1) nc(1) by simp
  moreover have "\<exists>v vs. split_ws (c # r) = (c # v) # vs"
    using nc(1) by (simp add: split_ws.simps [of "c # r"] split: list.split)
  ultimately show ?thesis using nc(2) by auto
qed

lemma multi_paths:
  assumes "list_all (\<lambda>n. 1 \<le> n \<and> n \<le> length docs) ns"
  shows "\<not> list_ex (\<lambda>n. case n of None \<Rightarrow> True | Some i \<Rightarrow> i < 1 \<or> i > int (length docs)) (map (\<lambda>n. Some (int n)) ns)"
  using assms by (auto simp: list_ex_iff list_all_iff)

text \<open>Numbers in a command are positions in the list shown.  A command that takes documents, followed by one or
  several numbers between 1 and the length of the list and by any flags, is sent with the paths of exactly those
  documents in the order given and with its flags, whatever is selected.\<close>

theorem preprocessCommand_numbers:
  assumes "toLowerCase cmd \<in> set COMMANDS_WITH_NUMERIC_SHORTCUTS" "ns \<noteq> []"
    "list_all (\<lambda>n. 1 \<le> n \<and> n \<le> length docs) ns" "flag_text fl"
  shows "preprocessCommand (cmd @ '' '' @ number_list ns @ fl) docs sel =
    trim (cmd @ '' '' @ join '','' (map (\<lambda>n. d_path (docs ! (n - 1))) ns) @ fl)"
proof -
  have cmd: "list_all cmd_char cmd" "cmd \<noteq> []" using command_chars [OF assms(1)] by simp_all
  note args = numbers_are_arguments [OF cmd(1) assms(2), of fl]
  show ?thesis
  proof (cases "tl ns")
    case Nil
    with assms(2) obtain n where n: "ns = [n]" by (cases ns) auto
    with assms(1,3) args match_single_one [OF cmd assms(4), of n] show ?thesis
      by (simp add: preprocessCommand_def Let_def number_list_def)
  next
    case (Cons m ms)
    with assms(2) obtain n where n: "ns = n # m # ms" by (cases ns) auto
    have single: "match_single (cmd @ CHR '' '' # number_list ns @ fl) = None"
      unfolding n by (rule match_single_many [OF cmd]) simp
    from assms(1,2) args single match_multi_numbers [OF cmd assms(2,4)] parse_number_list [OF assms(2)]
      multi_paths [OF assms(3)]
    show ?thesis by (simp add: preprocessCommand_def Let_def comp_def)
  qed
qed

section \<open>Witnesses\<close>

definition sample_entry :: "string \<Rightarrow> document" where
  "sample_entry p = \<lparr>d_path = p, d_title = p, d_canvas = False, d_created = 0, d_updated = 0\<rparr>"

definition sample_backend :: backend where
  "sample_backend = \<lparr>be_soft = (\<lambda>p. None), be_restore = (\<lambda>p. None),
     be_list = (\<lambda>a b. Inr (if a = ''work'' then [sample_entry ''w1''] else [sample_entry ''h1'', sample_entry ''h2''])),
     be_parse = (\<lambda>c a. Inr None), be_save = (\<lambda>a. Inr ''new''), be_dir = Inr [], be_export = (\<lambda>p q. None)\<rparr>"

definition sample_dashboard :: dashboard where
  "sample_dashboard = \<lparr>documents = [sample_entry ''h1'', sample_entry ''h2''], docsLoading = False, docsError = None,
     projectAlias = Some ''home'', selectedIndex = 0, lastIncludeArchived = False, latestRequest = 1,
     selectedDocuments = [], currentProject = Some ''home'', showArchived = False,
     confirmDialog = \<lparr>isOpen = False, dlg_title = [], dlg_message = [], onConfirm = Nothing, danger = False, showCheckbox = False\<rparr>,
     moveDialog = None, commandInput = [], effects = []\<rparr>"

theorem documents_current_witness:
  "documents (fold (context_step (\<lambda>t. Inr [sample_entry (nat_str t)])) [Load ''a'' False, Load ''b'' False, Answered 2, Answered 1]
     initial_context) = [sample_entry (nat_str 2)]"
proof -
  define s where "s = fold (context_step (\<lambda>t. Inr [sample_entry (nat_str t)]))
    [Load ''a'' False, Load ''b'' False, Answered 2, Answered 1] initial_context"
  have "latestRequest s = 2" "\<not> docsLoading s"
    by (simp_all add: s_def initial_context_def loadDocuments_def load_done_def clamp_index_def)
  with documents_current [OF _ s_def] have "documents s = [sample_entry (nat_str 2)]" by simp
  then show ?thesis by (simp only: s_def)
qed

theorem hidden_selection_deleted_witness:
  "ParseWithContext (delete_command [''h1'', ''h2'']) ''work'' \<in>
     set (effects (run_confirm sample_backend (DeleteMany [''h1'', ''h2'']) (handleDeleteSelectedDocuments
       (project_changed sample_backend (Some ''work'') (handleSelectAll sample_dashboard)))))"
proof -
  define t where "t = handleDeleteSelectedDocuments (project_changed sample_backend (Some ''work'') (handleSelectAll sample_dashboard))"
  have c: "onConfirm (confirmDialog t) = DeleteMany [''h1'', ''h2'']" unfolding t_def by code_simp
  have "be_list sample_backend ''work'' (showArchived sample_dashboard) = Inr [sample_entry ''w1'']"
    by (simp add: sample_backend_def)
  from hidden_selection_deleted [OF this _ _ _ t_def] c
  have "ParseWithContext (delete_command [''h1'', ''h2'']) ''work'' \<in> set (effects (run_confirm sample_backend (DeleteMany [''h1'', ''h2'']) t))"
    by (simp add: sample_dashboard_def sample_entry_def)
  then show ?thesis by (simp only: t_def)
qed

theorem preprocessCommand_numbers_witness:
  "preprocessCommand (''delete'' @ '' '' @ number_list [2, 1] @ '' --force'') [sample_entry ''h1'', sample_entry ''h2''] [''h1''] =
     ''delete h2,h1 --force''"
proof -
  have "flag_text '' --force''" "toLowerCase ''delete'' \<in> set COMMANDS_WITH_NUMERIC_SHORTCUTS" by code_simp+
  moreover have "trim ''delete h2,h1 --force'' = ''delete h2,h1 --force''" by code_simp
  ultimately show ?thesis
    using preprocessCommand_numbers [of "''delete''" "[2, 1]" "[sample_entry ''h1'', sample_entry ''h2'']" "'' --force''" "[''h1'']"]
    by (simp add: sample_entry_def)
qed

end
