(* ===== verification/Journal.thy ===== *)
theory Journal
  imports Dashboard
begin

text \<open>
  The journal page: \<open>journal/useJournal.ts\<close> and the actions of \<open>journal/useJournalController.ts\<close>.  A fetch is cut at
  its \<open>await\<close>: the requests in flight are part of the state and are answered in any order.  The project and the date
  a callback closed over are arguments of the functions that outlive a render (the confirmation, the undo).
\<close>

section \<open>State\<close>

record raw_entry =
  raw_id :: string
  raw_content :: string
  raw_tags :: "string list option"
  raw_created :: "string option"
  raw_project :: "string option"

record journal_entry =
  je_id :: string
  je_content :: string
  je_tags :: "string list"
  je_created :: string
  je_project :: "string option"

record request =
  rq_alias :: string
  rq_date :: string
  rq_id :: "nat option"

record delete_confirm =
  dc_open :: bool
  dc_title :: string
  dc_message :: string
  dc_ids :: "string list"
  dc_alias :: string
  dc_date :: string

record promote_dialog =
  pd_open :: bool
  pd_title :: string
  pd_target :: string
  pd_keep :: bool

datatype journal_effect =
    Fetch string string
  | DeleteEntry string string string
  | RestoreEntry string string string
  | UpdateEntry string string string string "string list"
  | AppendEntry string string "string list" string
  | Promote string string "string list" string string bool
  | Told string
  | ToldUndo string "string list" string string
  | Warned string
  | GoDocument string

record journal =
  j_entries :: "journal_entry list"
  j_loading :: bool
  j_error :: "string option"
  selectedIds :: "string list"
  j_date :: string
  j_alias :: string
  refreshRequestId :: nat
  pending :: "request list"
  highlightedIndex :: int
  j_confirm :: delete_confirm
  promoteDialog :: promote_dialog
  isPromoting :: bool
  j_effects :: "journal_effect list"

definition tell :: "journal_effect \<Rightarrow> journal \<Rightarrow> journal" where
  "tell e s = s\<lparr>j_effects := j_effects s @ [e]\<rparr>"

section \<open>Fetching\<close>

definition mapEntry :: "string \<Rightarrow> raw_entry \<Rightarrow> journal_entry" where
  "mapEntry now r = \<lparr>je_id = raw_id r, je_content = raw_content r,
     je_tags = (case raw_tags r of Some t \<Rightarrow> t | None \<Rightarrow> []),
     je_created = (case raw_created r of Some c \<Rightarrow> c | None \<Rightarrow> now), je_project = raw_project r\<rparr>"

text \<open>Every new list resets the highlight.\<close>

definition setEntries :: "journal_entry list \<Rightarrow> journal \<Rightarrow> journal" where
  "setEntries es s = s\<lparr>j_entries := es, highlightedIndex := 0\<rparr>"

definition refresh :: "request \<Rightarrow> journal \<Rightarrow> journal" where
  "refresh rq s =
     tell (Fetch (rq_alias rq) (rq_date rq)) (s\<lparr>j_loading := True, j_error := None, pending := pending s @ [rq]\<rparr>)"

text \<open>The rest of a fetch.  A request with a number is dropped when a newer one was started; one without is not.\<close>

definition outdated :: "request \<Rightarrow> journal \<Rightarrow> bool" where
  "outdated rq s \<longleftrightarrow> rq_id rq \<noteq> None \<and> rq_id rq \<noteq> Some (refreshRequestId s)"

definition refresh_done :: "string \<Rightarrow> (rejection + raw_entry list option) \<Rightarrow> request \<Rightarrow> journal \<Rightarrow> journal" where
  "refresh_done now answer rq s =
     (let s' = s\<lparr>pending := remove1 rq (pending s)\<rparr>
      in if outdated rq s then s'
         else
           (case answer of
              Inr res \<Rightarrow> (setEntries (map (mapEntry now) (case res of Some l \<Rightarrow> l | None \<Rightarrow> [])) s')\<lparr>j_loading := False\<rparr>
            | Inl err \<Rightarrow>
                (tell (Warned ''Failed to load journal entries'')
                   (setEntries [] (s'\<lparr>j_error := Some ''Failed to load entries''\<rparr>)))\<lparr>j_loading := False\<rparr>))"

text \<open>The effect on \<open>refresh\<close>, which changes with the project and the date.\<close>

definition fetch_effect :: "journal \<Rightarrow> journal" where
  "fetch_effect s =
     (let n = refreshRequestId s + 1
      in refresh \<lparr>rq_alias = j_alias s, rq_date = j_date s, rq_id = Some n\<rparr> (s\<lparr>refreshRequestId := n\<rparr>))"

definition setDate :: "string \<Rightarrow> journal \<Rightarrow> journal" where
  "setDate d s =
     (let s' = s\<lparr>j_date := d, selectedIds := []\<rparr> in if d \<noteq> j_date s then fetch_effect s' else s')"

definition initial_date_changed :: "string option \<Rightarrow> journal \<Rightarrow> journal" where
  "initial_date_changed d s =
     (case d of Some d' \<Rightarrow> if d' \<noteq> [] \<and> d' \<noteq> j_date s then setDate d' s else s | None \<Rightarrow> s)"

definition project_alias :: "string option \<Rightarrow> string" where
  "project_alias p = (case p of Some a \<Rightarrow> if a \<noteq> [] then a else ''@personal'' | None \<Rightarrow> ''@personal'')"

definition journal_project :: "string option \<Rightarrow> journal \<Rightarrow> journal" where
  "journal_project p s =
     (let a = project_alias p in if a \<noteq> j_alias s then fetch_effect (s\<lparr>j_alias := a\<rparr>) else s)"

text \<open>The listeners of created, deleted and restored entries.\<close>

definition plain_request :: "string \<Rightarrow> string \<Rightarrow> request" where
  "plain_request a d = \<lparr>rq_alias = a, rq_date = d, rq_id = None\<rparr>"

definition entry_event :: "string \<Rightarrow> string \<Rightarrow> string \<Rightarrow> journal \<Rightarrow> journal" where
  "entry_event type project d s =
     (if type = ''journal'' \<and> (j_alias s = ''all'' \<or> project = j_alias s \<and> d = j_date s)
      then refresh (plain_request (j_alias s) (j_date s)) s else s)"

definition journal_mount :: "string option \<Rightarrow> string option \<Rightarrow> string \<Rightarrow> journal" where
  "journal_mount p initialDate today =
     fetch_effect \<lparr>j_entries = [], j_loading = True, j_error = None, selectedIds = [],
       j_date = (case initialDate of Some d \<Rightarrow> if d \<noteq> [] then d else today | None \<Rightarrow> today), j_alias = project_alias p,
       refreshRequestId = 0, pending = [], highlightedIndex = 0,
       j_confirm = \<lparr>dc_open = False, dc_title = [], dc_message = [], dc_ids = [], dc_alias = [], dc_date = []\<rparr>,
       promoteDialog = \<lparr>pd_open = False, pd_title = ''Journal Notes'', pd_target = [], pd_keep = False\<rparr>,
       isPromoting = False, j_effects = []\<rparr>"

section \<open>Operations on entries\<close>

text \<open>The services that change entries: the error they reject with, if any, and the path of a promoted document.\<close>

record journal_backend =
  jb_delete :: "string \<Rightarrow> string \<Rightarrow> string \<Rightarrow> rejection option"
  jb_restore :: "string \<Rightarrow> string \<Rightarrow> string \<Rightarrow> rejection option"
  jb_update :: "string \<Rightarrow> string \<Rightarrow> string \<Rightarrow> rejection option"
  jb_append :: "string \<Rightarrow> string \<Rightarrow> rejection option"

definition deleteEntry :: "journal_backend \<Rightarrow> string \<Rightarrow> string \<Rightarrow> string \<Rightarrow> journal \<Rightarrow> journal \<times> rejection option" where
  "deleteEntry be a d i s =
     (let s' = tell (DeleteEntry a d i) s
      in case jb_delete be a d i of
           Some err \<Rightarrow> (s', Some err)
         | None \<Rightarrow>
             ((setEntries (filter (\<lambda>e. je_id e \<noteq> i) (j_entries s')) s')\<lparr>selectedIds := filter (\<lambda>j. j \<noteq> i) (selectedIds s')\<rparr>, None))"

definition restoreEntry :: "journal_backend \<Rightarrow> string \<Rightarrow> string \<Rightarrow> string \<Rightarrow> journal \<Rightarrow> journal \<times> rejection option" where
  "restoreEntry be a d i s =
     (let s' = tell (RestoreEntry a d i) s
      in case jb_restore be a d i of
           Some err \<Rightarrow> (s', Some err)
         | None \<Rightarrow> (refresh (plain_request a d) s', None))"

definition restoreEntries :: "journal_backend \<Rightarrow> string \<Rightarrow> string \<Rightarrow> string list \<Rightarrow> journal \<Rightarrow> journal" where
  "restoreEntries be a d ids s =
     (let s' = fold (\<lambda>i. tell (RestoreEntry a d i)) ids s
      in if list_ex (\<lambda>i. jb_restore be a d i = None) ids then refresh (plain_request a d) s' else s')"

definition updateEntry :: "journal_backend \<Rightarrow> string \<Rightarrow> string \<Rightarrow> string list \<Rightarrow> journal \<Rightarrow> journal \<times> rejection option" where
  "updateEntry be i content tags s =
     (let s' = tell (UpdateEntry (j_alias s) (j_date s) i content tags) s
      in case jb_update be (j_alias s) (j_date s) i of
           Some err \<Rightarrow> (tell (Warned ''Failed to update journal entry'') s', Some err)
         | None \<Rightarrow>
             (setEntries (map (\<lambda>e. if je_id e = i then e\<lparr>je_content := content, je_tags := tags\<rparr> else e) (j_entries s')) s', None))"

definition addEntry :: "journal_backend \<Rightarrow> string \<Rightarrow> journal \<Rightarrow> journal \<times> rejection option" where
  "addEntry be rawText s =
     (let trimmed = trim rawText
      in if trimmed = [] \<or> j_alias s = ''all'' then (s, None)
         else
           let s' = tell (AppendEntry (j_alias s) (parseContent trimmed) (parseTags trimmed) (j_date s)) s
           in case jb_append be (j_alias s) (j_date s) of
                Some err \<Rightarrow> (tell (Warned ''Failed to add journal entry'') s', Some err)
              | None \<Rightarrow> (refresh (plain_request (j_alias s) (j_date s)) s', None))"

section \<open>Selection and highlight\<close>

definition toggle_id :: "string \<Rightarrow> journal \<Rightarrow> journal" where
  "toggle_id i s = s\<lparr>selectedIds := toggle_path i (selectedIds s)\<rparr>"

definition clear_ids :: "journal \<Rightarrow> journal" where
  "clear_ids s = s\<lparr>selectedIds := []\<rparr>"

definition select_all_ids :: "journal \<Rightarrow> journal" where
  "select_all_ids s = s\<lparr>selectedIds := js_unique (map je_id (j_entries s))\<rparr>"

definition highlightNext :: "journal \<Rightarrow> journal" where
  "highlightNext s =
     s\<lparr>highlightedIndex := (if highlightedIndex s < int (length (j_entries s)) - 1 then highlightedIndex s + 1 else highlightedIndex s)\<rparr>"

definition highlightPrevious :: "journal \<Rightarrow> journal" where
  "highlightPrevious s = s\<lparr>highlightedIndex := (if highlightedIndex s > 0 then highlightedIndex s - 1 else 0)\<rparr>"

definition highlighted_entry :: "journal \<Rightarrow> journal_entry option" where
  "highlighted_entry s =
     (if 0 \<le> highlightedIndex s \<and> highlightedIndex s < int (length (j_entries s))
      then Some (j_entries s ! nat (highlightedIndex s)) else None)"

definition toggleSelection :: "string option \<Rightarrow> journal \<Rightarrow> journal" where
  "toggleSelection i s =
     (let target = (if i \<noteq> None \<and> i \<noteq> Some [] then i else map_option je_id (highlighted_entry s))
      in case target of Some t \<Rightarrow> if t \<noteq> [] then toggle_id t s else s | None \<Rightarrow> s)"

text \<open>The index of an entry is looked up in a map built from the list, so the last entry with an identifier counts.\<close>

definition handleEntryClick :: "string \<Rightarrow> journal \<Rightarrow> journal" where
  "handleEntryClick i s =
     (case map_of (rev (zip (map je_id (j_entries s)) [0..<length (j_entries s)])) i of
        Some n \<Rightarrow> s\<lparr>highlightedIndex := int n\<rparr>
      | None \<Rightarrow> s)"

section \<open>Deleting and promoting\<close>

definition handleDeleteSelected :: "journal \<Rightarrow> journal" where
  "handleDeleteSelected s =
     (let ids = selectedIds s; n = length ids
      in if ids = [] then s
         else s\<lparr>j_confirm := \<lparr>dc_open = True,
           dc_title = (if n = 1 then ''Delete Journal Entry'' else ''Delete Journal Entries''),
           dc_message = (if n = 1 then ''Delete this journal entry? You can undo right after, or restore it later.''
             else ''Delete '' @ nat_str n @ '' journal entries? You can undo right after, or restore them later.''),
           dc_ids = ids, dc_alias = j_alias s, dc_date = j_date s\<rparr>\<rparr>)"

fun delete_loop :: "journal_backend \<Rightarrow> string \<Rightarrow> string \<Rightarrow> string list \<Rightarrow> journal \<Rightarrow> journal \<times> rejection option" where
  "delete_loop be a d [] s = (s, None)"
| "delete_loop be a d (i # is) s =
     (case deleteEntry be a d i s of (s', Some err) \<Rightarrow> (s', Some err) | (s', None) \<Rightarrow> delete_loop be a d is s')"

definition close_journal_confirm :: "journal \<Rightarrow> journal" where
  "close_journal_confirm s = s\<lparr>j_confirm := (j_confirm s)\<lparr>dc_open := False\<rparr>\<rparr>"

definition deleted_message :: "string list \<Rightarrow> string" where
  "deleted_message ids = (if length ids = 1 then ''Entry deleted'' else nat_str (length ids) @ '' entries deleted'')"

definition confirm_delete_entries :: "journal_backend \<Rightarrow> delete_confirm \<Rightarrow> journal \<Rightarrow> journal" where
  "confirm_delete_entries be c s =
     close_journal_confirm
       (case delete_loop be (dc_alias c) (dc_date c) (dc_ids c) s of
          (s', None) \<Rightarrow> tell (ToldUndo (deleted_message (dc_ids c)) (dc_ids c) (dc_alias c) (dc_date c)) (clear_ids s')
        | (s', Some err) \<Rightarrow> s')"

definition handlePromoteSelected :: "string list \<Rightarrow> journal \<Rightarrow> journal" where
  "handlePromoteSelected projects s =
     (if selectedIds s = [] then s
      else s\<lparr>promoteDialog := \<lparr>pd_open = True, pd_title = ''Journal Notes'',
        pd_target = (if j_alias s \<in> set projects then j_alias s
          else case projects of p # _ \<Rightarrow> if p \<noteq> [] then p else j_alias s | [] \<Rightarrow> j_alias s),
        pd_keep = False\<rparr>\<rparr>)"

text \<open>A promotion up to its \<open>await\<close>, and the rest of it for the selection and options it was started with.\<close>

definition handleConfirmPromote :: "journal \<Rightarrow> journal" where
  "handleConfirmPromote s =
     (if isPromoting s \<or> selectedIds s = [] then s
      else
        let p = promoteDialog s
        in tell (Promote (j_alias s) (j_date s) (selectedIds s) (if pd_target p \<noteq> [] then pd_target p else j_alias s)
                  (if pd_title p \<noteq> [] then pd_title p else ''Journal Notes'') (pd_keep p))
             (s\<lparr>isPromoting := True\<rparr>))"

definition promote_done :: "string list \<Rightarrow> bool \<Rightarrow> (rejection + string) \<Rightarrow> journal \<Rightarrow> journal" where
  "promote_done ids keep answer s =
     (case answer of
        Inr path \<Rightarrow>
          let s1 = (if keep then s else setEntries (filter (\<lambda>e. je_id e \<notin> set ids) (j_entries s)) s);
              s2 = clear_ids s1
          in (tell (GoDocument path) (tell (Told (if length ids = 1 then ''Entry promoted to document''
                else nat_str (length ids) @ '' entries promoted to document''))
                (s2\<lparr>promoteDialog := (promoteDialog s2)\<lparr>pd_open := False\<rparr>\<rparr>)))\<lparr>isPromoting := False\<rparr>
      | Inl err \<Rightarrow> (tell (Warned (err_message err ''Failed to promote entries'')) s)\<lparr>isPromoting := False\<rparr>)"

definition journal_escape :: "journal \<Rightarrow> journal" where
  "journal_escape s =
     (if dc_open (j_confirm s) then close_journal_confirm s else if selectedIds s \<noteq> [] then clear_ids s else s)"

section \<open>The entries shown\<close>

text \<open>Histories of the page.  \<open>own a d i\<close> says that entry \<open>i\<close> is stored under project \<open>a\<close> and date \<open>d\<close>; an answer only
  contains entries of the project and date asked for.  A request without a number is answered while the page still
  shows what it asked for; a numbered one may be answered at any time.\<close>

definition honest :: "(string \<Rightarrow> string \<Rightarrow> string \<Rightarrow> bool) \<Rightarrow> request \<Rightarrow> (rejection + raw_entry list option) \<Rightarrow> bool" where
  "honest own rq answer \<longleftrightarrow>
     (case answer of Inr (Some l) \<Rightarrow> list_all (\<lambda>r. own (rq_alias rq) (rq_date rq) (raw_id r)) l | _ \<Rightarrow> True)"

definition asks_for :: "request \<Rightarrow> journal \<Rightarrow> bool" where
  "asks_for rq s \<longleftrightarrow> rq_alias rq = j_alias s \<and> rq_date rq = j_date s"

inductive journal_run :: "(string \<Rightarrow> string \<Rightarrow> string \<Rightarrow> bool) \<Rightarrow> journal \<Rightarrow> bool" for own where
  mount: "journal_run own (journal_mount p d today)"
| set_date: "journal_run own s \<Longrightarrow> journal_run own (setDate d s)"
| set_project: "journal_run own s \<Longrightarrow> journal_run own (journal_project p s)"
| event: "journal_run own s \<Longrightarrow> journal_run own (entry_event t p d s)"
| answer: "journal_run own s \<Longrightarrow> rq \<in> set (pending s) \<Longrightarrow> honest own rq ans \<Longrightarrow> rq_id rq = None \<longrightarrow> asks_for rq s \<Longrightarrow>
    journal_run own (refresh_done now ans rq s)"
| add: "journal_run own s \<Longrightarrow> journal_run own (fst (addEntry be raw s))"
| update: "journal_run own s \<Longrightarrow> journal_run own (fst (updateEntry be i c ts s))"
| delete: "journal_run own s \<Longrightarrow> journal_run own (confirm_delete_entries be c s)"
| undo: "journal_run own s \<Longrightarrow> journal_run own (restoreEntries be a d ids s)"
| promote: "journal_run own s \<Longrightarrow> journal_run own (handleConfirmPromote s)"
| promoted: "journal_run own s \<Longrightarrow> journal_run own (promote_done ids keep r s)"
| toggle: "journal_run own s \<Longrightarrow> journal_run own (toggleSelection i s)"
| ask_delete: "journal_run own s \<Longrightarrow> journal_run own (handleDeleteSelected s)"
| escape: "journal_run own s \<Longrightarrow> journal_run own (journal_escape s)"

definition entries_own :: "(string \<Rightarrow> string \<Rightarrow> string \<Rightarrow> bool) \<Rightarrow> journal \<Rightarrow> bool" where
  "entries_own own s \<longleftrightarrow> (\<forall>e\<in>set (j_entries s). own (j_alias s) (j_date s) (je_id e))"

definition journal_inv :: "(string \<Rightarrow> string \<Rightarrow> string \<Rightarrow> bool) \<Rightarrow> journal \<Rightarrow> bool" where
  "journal_inv own s \<longleftrightarrow>
     (\<forall>rq\<in>set (pending s). rq_id rq = Some (refreshRequestId s) \<longrightarrow> asks_for rq s) \<and>
     (\<forall>rq\<in>set (pending s). \<forall>n. rq_id rq = Some n \<longrightarrow> n \<le> refreshRequestId s) \<and>
     (\<not> j_loading s \<longrightarrow> entries_own own s)"

text \<open>What an operation must keep for the invariant: the shown page, its requests, the flag, and no foreign entries.\<close>

definition same_page :: "journal \<Rightarrow> journal \<Rightarrow> bool" where
  "same_page s t \<longleftrightarrow> j_alias t = j_alias s \<and> j_date t = j_date s \<and> refreshRequestId t = refreshRequestId s \<and>
     pending t = pending s \<and> j_loading t = j_loading s \<and> set (map je_id (j_entries t)) \<subseteq> set (map je_id (j_entries s))"

named_theorems page_intros \<open>operations that stay on the page\<close>

lemma same_page_inv: "journal_inv own s \<Longrightarrow> same_page s t \<Longrightarrow> journal_inv own t"
  unfolding journal_inv_def same_page_def entries_own_def asks_for_def by (auto simp: subset_iff image_iff)

lemma same_page_trans: "same_page s t \<Longrightarrow> same_page t u \<Longrightarrow> same_page s u"
  unfolding same_page_def by (simp, blast)

lemma same_page_refl [page_intros]: "same_page s s"
  by (simp add: same_page_def)

lemma same_page_tell [page_intros]: "same_page s t \<Longrightarrow> same_page s (tell e t)"
  by (simp add: same_page_def tell_def)

lemma same_page_clear [page_intros]: "same_page s t \<Longrightarrow> same_page s (clear_ids t)"
  by (simp add: same_page_def clear_ids_def)

lemma same_page_fields [page_intros]:
  "same_page s t \<Longrightarrow> same_page s (t\<lparr>selectedIds := x\<rparr>)"
  "same_page s t \<Longrightarrow> same_page s (t\<lparr>isPromoting := b\<rparr>)"
  "same_page s t \<Longrightarrow> same_page s (t\<lparr>promoteDialog := p\<rparr>)"
  "same_page s t \<Longrightarrow> same_page s (t\<lparr>j_confirm := c\<rparr>)"
  by (simp_all add: same_page_def)

lemma same_page_entries [page_intros]:
  "same_page s t \<Longrightarrow> same_page s (setEntries (filter P (j_entries t)) t)"
  by (auto simp: same_page_def setEntries_def)

lemma same_page_delete: "same_page s (fst (deleteEntry be a d i s))"
  by (cases "jb_delete be a d i") (auto simp: deleteEntry_def Let_def intro!: page_intros)

lemma same_page_delete_loop: "same_page s (fst (delete_loop be a d ids s))"
proof (induction ids arbitrary: s)
  case (Cons i ids)
  show ?case
  proof (cases "deleteEntry be a d i s")
    case (Pair t r)
    have "same_page s t" using same_page_delete [of s be a d i] Pair by simp
    with Cons [of t] Pair show ?thesis by (cases r) (auto intro: same_page_trans)
  qed
qed (simp add: same_page_refl)

lemma same_page_confirm: "same_page s (confirm_delete_entries be c s)"
  using same_page_delete_loop [of s be "dc_alias c" "dc_date c" "dc_ids c"]
  by (auto simp: confirm_delete_entries_def close_journal_confirm_def split: prod.split option.split intro!: page_intros)

lemma same_page_update: "same_page s (fst (updateEntry be i c ts s))"
proof (cases "jb_update be (j_alias s) (j_date s) i")
  case None
  then show ?thesis by (auto simp: updateEntry_def same_page_def setEntries_def tell_def Let_def)
qed (auto simp: updateEntry_def Let_def intro!: page_intros)

lemma same_page_promote: "same_page s (handleConfirmPromote s)"
  by (auto simp: handleConfirmPromote_def Let_def intro!: page_intros)

lemma same_page_promoted: "same_page s (promote_done ids keep r s)"
  by (cases r) (auto simp: promote_done_def Let_def intro!: page_intros)

lemma same_page_selection:
  "same_page s (toggleSelection i s)" "same_page s (handleDeleteSelected s)" "same_page s (journal_escape s)"
  by (auto simp: toggleSelection_def toggle_id_def handleDeleteSelected_def journal_escape_def close_journal_confirm_def
      Let_def split: option.split intro!: page_intros)

lemmas same_pages = same_page_confirm same_page_update same_page_promote same_page_promoted same_page_selection

lemma journal_inv_fetch:
  assumes "\<forall>rq\<in>set (pending s). \<forall>n. rq_id rq = Some n \<longrightarrow> n \<le> refreshRequestId s"
  shows "journal_inv own (fetch_effect s)"
  using assms by (fastforce simp: journal_inv_def fetch_effect_def refresh_def tell_def asks_for_def Let_def)

lemma journal_inv_refresh: "journal_inv own s \<Longrightarrow> journal_inv own (refresh (plain_request a d) s)"
  by (auto simp: journal_inv_def refresh_def tell_def plain_request_def asks_for_def)

lemma journal_inv_tell: "journal_inv own s \<Longrightarrow> journal_inv own (tell e s)"
  by (rule same_page_inv) (auto intro: page_intros)

lemma journal_inv_answer:
  assumes "journal_inv own s" "rq \<in> set (pending s)" "honest own rq ans" "rq_id rq = None \<longrightarrow> asks_for rq s"
  shows "journal_inv own (refresh_done now ans rq s)"
proof -
  have sub: "set (remove1 rq (pending s)) \<subseteq> set (pending s)" by (rule set_remove1_subset)
  show ?thesis
  proof (cases "outdated rq s")
    case True
    with assms(1) sub show ?thesis by (auto simp: refresh_done_def journal_inv_def entries_own_def asks_for_def)
  next
    case False
    then have ask: "rq_alias rq = j_alias s" "rq_date rq = j_date s"
      using assms(1,2,4) by (auto simp: outdated_def journal_inv_def asks_for_def)
    show ?thesis
    proof (cases ans)
      case (Inl err)
      with False assms(1) sub show ?thesis
        by (auto simp: refresh_done_def journal_inv_def entries_own_def asks_for_def setEntries_def tell_def)
    next
      case (Inr res)
      have own: "\<forall>r\<in>set (case res of Some l \<Rightarrow> l | None \<Rightarrow> []). own (j_alias s) (j_date s) (raw_id r)"
        using assms(3) Inr ask by (cases res) (auto simp: honest_def list_all_iff)
      with False Inr assms(1) sub show ?thesis
        by (auto simp: refresh_done_def journal_inv_def entries_own_def asks_for_def setEntries_def mapEntry_def)
    qed
  qed
qed

lemma journal_inv_undo: "journal_inv own s \<Longrightarrow> journal_inv own (restoreEntries be a d ids s)"
proof -
  assume "journal_inv own s"
  then have "journal_inv own (fold (\<lambda>i. tell (RestoreEntry a d i)) ids s)"
    by (induction ids arbitrary: s) (auto intro: journal_inv_tell)
  then show ?thesis by (simp add: restoreEntries_def Let_def journal_inv_refresh)
qed

lemma journal_inv_add: "journal_inv own s \<Longrightarrow> journal_inv own (fst (addEntry be raw s))"
  by (auto simp: addEntry_def Let_def split: option.split intro: journal_inv_tell journal_inv_refresh)

lemma journal_inv_pending:
  "journal_inv own s \<Longrightarrow> pending t = pending s \<Longrightarrow> refreshRequestId t = refreshRequestId s \<Longrightarrow> journal_inv own (fetch_effect t)"
  by (rule journal_inv_fetch) (simp add: journal_inv_def)

lemma journal_inv_date: "journal_inv own s \<Longrightarrow> journal_inv own (setDate d s)"
proof (cases "d = j_date s")
  case True
  assume "journal_inv own s"
  moreover have "same_page s (s\<lparr>j_date := d, selectedIds := []\<rparr>)" using True by (simp add: same_page_def)
  ultimately show ?thesis using True same_page_inv by (simp add: setDate_def Let_def)
qed (auto simp: setDate_def Let_def intro: journal_inv_pending)

lemma journal_run_inv: "journal_run own s \<Longrightarrow> journal_inv own s"
proof (induction rule: journal_run.induct)
  case (mount p d today)
  show ?case unfolding journal_mount_def by (rule journal_inv_fetch) simp
next
  case (set_project s p)
  then show ?case by (auto simp: journal_project_def Let_def intro: journal_inv_pending)
next
  case (event s t p d)
  then show ?case by (simp add: entry_event_def journal_inv_refresh)
qed (auto intro: journal_inv_date journal_inv_answer journal_inv_add journal_inv_undo same_page_inv same_pages)


section \<open>Deleting and its undo\<close>

lemma deleteEntry_cases:
  "jb_delete be a d i = None \<Longrightarrow> deleteEntry be a d i s =
     (s\<lparr>j_effects := j_effects s @ [DeleteEntry a d i], j_entries := filter (\<lambda>e. je_id e \<noteq> i) (j_entries s),
        highlightedIndex := 0, selectedIds := filter (\<lambda>j. j \<noteq> i) (selectedIds s)\<rparr>, None)"
  "jb_delete be a d i = Some err \<Longrightarrow>
     deleteEntry be a d i s = (s\<lparr>j_effects := j_effects s @ [DeleteEntry a d i]\<rparr>, Some err)"
  by (simp_all add: deleteEntry_def setEntries_def tell_def Let_def)

abbreviation deletable :: "journal_backend \<Rightarrow> string \<Rightarrow> string \<Rightarrow> string \<Rightarrow> bool" where
  "deletable be a d i \<equiv> jb_delete be a d i = None"

lemma delete_loop_fields:
  "j_effects (fst (delete_loop be a d ids s)) = j_effects s @ map (DeleteEntry a d) (takeWhile (deletable be a d) ids) @
     (case dropWhile (deletable be a d) ids of [] \<Rightarrow> [] | i # _ \<Rightarrow> [DeleteEntry a d i])"
  "j_entries (fst (delete_loop be a d ids s)) =
     filter (\<lambda>e. je_id e \<notin> set (takeWhile (deletable be a d) ids)) (j_entries s)"
  "selectedIds (fst (delete_loop be a d ids s)) =
     filter (\<lambda>i. i \<notin> set (takeWhile (deletable be a d) ids)) (selectedIds s)"
  "snd (delete_loop be a d ids s) = None \<longleftrightarrow> list_all (deletable be a d) ids"
proof (induction ids arbitrary: s)
  case (Cons i ids)
  { case 1 with Cons(1) show ?case by (cases "jb_delete be a d i") (simp_all add: deleteEntry_cases)
  next
    case 2 with Cons(2) show ?case
      by (cases "jb_delete be a d i") (auto simp: deleteEntry_cases intro!: filter_cong)
  next
    case 3 with Cons(3) show ?case
      by (cases "jb_delete be a d i") (auto simp: deleteEntry_cases intro!: filter_cong)
  next
    case 4 with Cons(4) show ?case by (cases "jb_delete be a d i") (simp_all add: deleteEntry_cases)
  }
qed simp_all

lemma restore_effects:
  "j_effects (fold (\<lambda>i. tell (RestoreEntry a d i)) ids s) = j_effects s @ map (RestoreEntry a d) ids"
  by (induction ids arbitrary: s) (simp_all add: tell_def)

text \<open>Deleting entries stops at the first rejected call.  Exactly the entries before it leave the list and the
  selection; the dialog closes in any case.  Only a complete run clears the selection and offers an undo, which
  restores the same entries under the project and date they were deleted from; an incomplete run shows nothing.\<close>

theorem delete_and_undo:
  assumes "ids = dc_ids c" "a = dc_alias c" "d = dc_date c" "t = confirm_delete_entries be c s"
  shows "j_effects t = j_effects s @ map (DeleteEntry a d) (takeWhile (deletable be a d) ids) @
      (case dropWhile (deletable be a d) ids of
         [] \<Rightarrow> [ToldUndo (deleted_message ids) ids a d] | i # _ \<Rightarrow> [DeleteEntry a d i]) \<and>
    j_entries t = filter (\<lambda>e. je_id e \<notin> set (takeWhile (deletable be a d) ids)) (j_entries s) \<and>
    selectedIds t = (if list_all (deletable be a d) ids then []
      else filter (\<lambda>i. i \<notin> set (takeWhile (deletable be a d) ids)) (selectedIds s)) \<and>
    \<not> dc_open (j_confirm t) \<and>
    j_effects (restoreEntries be' a d ids t) = j_effects t @ map (RestoreEntry a d) ids @
      (if list_ex (\<lambda>i. jb_restore be' a d i = None) ids then [Fetch a d] else [])"
proof -
  have undo: "j_effects (restoreEntries be' a d ids t) = j_effects t @ map (RestoreEntry a d) ids @
      (if list_ex (\<lambda>i. jb_restore be' a d i = None) ids then [Fetch a d] else [])"
    by (simp add: restoreEntries_def Let_def refresh_def tell_def restore_effects plain_request_def)
  obtain u r where ur: "delete_loop be a d ids s = (u, r)" by force
  note fields = delete_loop_fields [of be a d ids s, unfolded ur fst_conv snd_conv]
  have t: "t = close_journal_confirm
      (case r of None \<Rightarrow> tell (ToldUndo (deleted_message ids) ids a d) (clear_ids u) | Some err \<Rightarrow> u)"
    using ur assms by (cases r) (simp_all add: confirm_delete_entries_def)
  show ?thesis
  proof (cases r)
    case None
    then have "list_all (deletable be a d) ids" using fields(4) by simp
    moreover from this have "dropWhile (deletable be a d) ids = []" by (simp add: list_all_iff)
    ultimately show ?thesis using undo fields(1,2) None
      by (simp add: t close_journal_confirm_def tell_def clear_ids_def del: dropWhile_eq_Nil_conv)
  next
    case (Some err)
    then have n: "\<not> list_all (deletable be a d) ids" using fields(4) by simp
    then have "dropWhile (deletable be a d) ids \<noteq> []" by (auto simp: list_all_iff)
    then obtain i rest where "dropWhile (deletable be a d) ids = i # rest" by (cases "dropWhile (deletable be a d) ids") blast+
    then show ?thesis using undo fields(1-3) Some n by (simp add: t close_journal_confirm_def)
  qed
qed

section \<open>A late answer\<close>

text \<open>C32. A request without a number is not dropped.  If an event starts a fetch, the user moves to another date, and the
  fetch of the new date is answered first, the late answer replaces it: the page shows the entries of the old date
  under the new one, with no sign of loading or error, and deleting the first of them asks for it under the new date.\<close>

theorem late_refresh_shown:
  assumes "d \<noteq> j_date s" "l \<noteq> []" "raw_id (hd l) \<noteq> []"
    and "t = setDate d (entry_event ''journal'' (j_alias s) (j_date s) s)"
    and "u = refresh_done now (Inr (Some l')) \<lparr>rq_alias = j_alias s, rq_date = d, rq_id = Some (refreshRequestId t)\<rparr> t"
    and "v = refresh_done now (Inr (Some l)) (plain_request (j_alias s) (j_date s)) u"
    and "w = handleDeleteSelected (toggleSelection (Some (raw_id (hd l))) v)"
  shows "plain_request (j_alias s) (j_date s) \<in> set (pending u) \<and> j_date v = d \<and> \<not> j_loading v \<and> j_error v = None \<and>
    map je_id (j_entries v) = map raw_id l \<and>
    DeleteEntry (j_alias s) d (raw_id (hd l)) \<in> set (j_effects (confirm_delete_entries be (j_confirm w) w))"
proof -
  have t: "j_date t = d" "j_alias t = j_alias s" "j_error t = None" "selectedIds t = []"
      "plain_request (j_alias s) (j_date s) \<in> set (pending t)"
    using assms(1,4) by (simp_all add: entry_event_def refresh_def tell_def setDate_def fetch_effect_def Let_def)
  have u: "j_date u = d" "j_alias u = j_alias s" "j_error u = None" "selectedIds u = []"
      "plain_request (j_alias s) (j_date s) \<in> set (pending u)"
    using t assms(5) by (simp_all add: refresh_done_def outdated_def setEntries_def Let_def in_set_remove1 plain_request_def)
  have v: "j_date v = d" "\<not> j_loading v" "j_error v = None" "map je_id (j_entries v) = map raw_id l"
      "selectedIds v = []" "j_alias v = j_alias s"
    using u assms(6) by (simp_all add: refresh_done_def outdated_def setEntries_def plain_request_def mapEntry_def comp_def)
  have w: "dc_ids (j_confirm w) = [raw_id (hd l)]" "dc_alias (j_confirm w) = j_alias s" "dc_date (j_confirm w) = d"
    using v assms(3,7) by (simp_all add: toggleSelection_def toggle_id_def toggle_path_def handleDeleteSelected_def Let_def)
  have "DeleteEntry (j_alias s) d (raw_id (hd l)) \<in> set (j_effects (confirm_delete_entries be (j_confirm w) w))"
    using w by (cases "jb_delete be (j_alias s) d (raw_id (hd l))")
      (simp_all add: confirm_delete_entries_def deleteEntry_cases close_journal_confirm_def tell_def clear_ids_def)
  with u(5) v(1-4) show ?thesis by blast
qed

section \<open>Witnesses for the journal\<close>

definition sample_raw :: "string \<Rightarrow> raw_entry" where
  "sample_raw i = \<lparr>raw_id = i, raw_content = i, raw_tags = None, raw_created = None, raw_project = None\<rparr>"

definition sample_journal :: journal where
  "sample_journal = refresh_done ''now'' (Inr (Some [sample_raw ''e1'', sample_raw ''e2'']))
     \<lparr>rq_alias = ''home'', rq_date = ''2026-01-02'', rq_id = Some 1\<rparr> (journal_mount (Some ''home'') None ''2026-01-02'')"

definition sample_services :: journal_backend where
  "sample_services = \<lparr>jb_delete = (\<lambda>a d i. if i = ''e2'' then Some (Thrown i) else None), jb_restore = (\<lambda>a d i. None),
     jb_update = (\<lambda>a d i. None), jb_append = (\<lambda>a d. None)\<rparr>"

lemma sample_journal_ids: "map je_id (j_entries sample_journal) = [''e1'', ''e2''] \<and> \<not> j_loading sample_journal \<and>
  j_alias sample_journal = ''home'' \<and> j_date sample_journal = ''2026-01-02''"
  by code_simp

lemma sample_journal_run: "journal_run (\<lambda>a d i. a = ''home'' \<and> d = ''2026-01-02'') sample_journal"
  unfolding sample_journal_def
proof (rule journal_run.answer [OF journal_run.mount])
  show "\<lparr>rq_alias = ''home'', rq_date = ''2026-01-02'', rq_id = Some 1\<rparr>
      \<in> set (pending (journal_mount (Some ''home'') None ''2026-01-02''))"
    by (simp add: journal_mount_def fetch_effect_def refresh_def tell_def project_alias_def Let_def)
qed (simp_all add: honest_def)


theorem delete_and_undo_witness:
  "map je_id (j_entries (confirm_delete_entries sample_services
     \<lparr>dc_open = True, dc_title = [], dc_message = [], dc_ids = [''e1'', ''e2''], dc_alias = ''home'', dc_date = ''2026-01-02''\<rparr>
     sample_journal)) = [''e2'']"
proof -
  let ?c = "\<lparr>dc_open = True, dc_title = [], dc_message = [], dc_ids = [''e1'', ''e2''], dc_alias = ''home'', dc_date = ''2026-01-02''\<rparr>"
  have "takeWhile (deletable sample_services ''home'' ''2026-01-02'') [''e1'', ''e2''] = [''e1'']"
    by (simp add: sample_services_def)
  then have "j_entries (confirm_delete_entries sample_services ?c sample_journal) =
      filter (\<lambda>e. je_id e \<noteq> ''e1'') (j_entries sample_journal)"
    using delete_and_undo [of "[''e1'', ''e2'']" ?c "''home''" "''2026-01-02''" _ sample_services sample_journal, OF _ _ _ refl]
    by simp
  moreover have "map je_id (filter (\<lambda>e. je_id e \<noteq> ''e1'') (j_entries sample_journal)) = [''e2'']" by code_simp
  ultimately show ?thesis by simp
qed

definition sample_moved :: journal where
  "sample_moved = setDate ''2026-01-03'' (entry_event ''journal'' ''home'' ''2026-01-02'' sample_journal)"

definition sample_late :: journal where
  "sample_late = refresh_done ''now'' (Inr (Some [sample_raw ''e1''])) (plain_request ''home'' ''2026-01-02'')
     (refresh_done ''now'' (Inr (Some [])) \<lparr>rq_alias = ''home'', rq_date = ''2026-01-03'', rq_id = Some (refreshRequestId sample_moved)\<rparr>
       sample_moved)"

theorem late_refresh_shown_witness:
  "j_date sample_late = ''2026-01-03'' \<and> \<not> j_loading sample_late \<and> map je_id (j_entries sample_late) = [''e1'']"
proof -
  have page: "j_alias sample_journal = ''home''" "j_date sample_journal = ''2026-01-02''" using sample_journal_ids by auto
  have "''2026-01-03'' \<noteq> j_date sample_journal" "raw_id (hd [sample_raw ''e1'']) \<noteq> []"
    by (simp_all add: page sample_raw_def)
  from late_refresh_shown [OF this(1) _ this(2) sample_moved_def [folded page] refl sample_late_def [folded page] refl]
  show ?thesis by (simp add: sample_raw_def)
qed

end
