(* ===== verification/Project_Commands.thy ===== *)
theory Project_Commands
  imports Dashboard
begin

text \<open>
  Project aliases and project commands: the fields of the new-project dialog
  (\<open>frontend/src/project/components/NewProjectDialog.tsx\<close>), the backend's reading of an alias
  (\<open>internal/project/project.go\<close>) and the backend's command line for projects (\<open>internal/commandline/parser.go\<close> and
  \<open>project.go\<close>).  The regular expressions are scanners; a handler maps the answers of the services to its result and
  the list of service calls that change something, in order.
\<close>

section \<open>Aliases\<close>

fun collapse_char :: "char \<Rightarrow> string \<Rightarrow> string" where
  "collapse_char h (a # b # s) = (if a = h \<and> b = h then collapse_char h (b # s) else a # collapse_char h (b # s))"
| "collapse_char h s = s"

definition is_slug_char :: "char \<Rightarrow> bool" where
  "is_slug_char c \<longleftrightarrow> is_digit c \<or> (97 \<le> ccode c \<and> ccode c \<le> 122)"

definition slug_map :: "string \<Rightarrow> string" where
  "slug_map s = map (\<lambda>c. if is_slug_char c then c else CHR ''-'') s"

text \<open>\<open>replace(/^-|-$/g, "")\<close>: at most one sign at each end.\<close>

definition strip_end :: "char \<Rightarrow> string \<Rightarrow> string" where
  "strip_end h s =
     (let t = (if s \<noteq> [] \<and> hd s = h then tl s else s) in if t \<noteq> [] \<and> last t = h then butlast t else t)"

definition suggestedAlias :: "string \<Rightarrow> string" where
  "suggestedAlias v = CHR ''@'' # strip_end (CHR ''-'') (collapse_char (CHR ''-'') (slug_map (toLowerCase v)))"

record new_project =
  np_name :: string
  np_alias :: string
  np_start :: string
  np_end :: string
  np_name_error :: "string option"
  np_alias_error :: "string option"

definition open_new_project :: "string \<Rightarrow> new_project" where
  "open_new_project today = \<lparr>np_name = [], np_alias = [], np_start = today, np_end = [], np_name_error = None, np_alias_error = None\<rparr>"

definition handleNameChange :: "string \<Rightarrow> new_project \<Rightarrow> new_project" where
  "handleNameChange v s =
     s\<lparr>np_name := v, np_alias := (if np_alias s = [] \<or> startsWith (np_alias s) ''@'' then suggestedAlias v else np_alias s)\<rparr>"

definition handleAliasChange :: "string \<Rightarrow> new_project \<Rightarrow> new_project" where
  "handleAliasChange v s =
     (let w = (if startsWith v ''@'' then v else CHR ''@'' # v)
      in s\<lparr>np_alias := filter (\<lambda>c. c = CHR ''@'' \<or> is_alias_char c) w\<rparr>)"

definition valid_dialog_alias :: "string \<Rightarrow> bool" where
  "valid_dialog_alias a \<longleftrightarrow> a \<noteq> [] \<and> hd a = CHR ''@'' \<and> tl a \<noteq> [] \<and> list_all is_alias_char (tl a)"

definition validate_project :: "new_project \<Rightarrow> new_project" where
  "validate_project s =
     s\<lparr>np_name_error := (if trim (np_name s) = [] then Some ''Project name is required'' else None),
       np_alias_error :=
         (if np_alias s = [] \<or> np_alias s = ''@'' then Some ''Project alias is required''
          else if \<not> valid_dialog_alias (np_alias s)
          then Some ''Alias must start with @ and contain only letters, numbers, hyphens, or underscores''
          else None)\<rparr>"

text \<open>The form submitted: name, alias and the two dates, if there is no error.\<close>

definition submit_project :: "new_project \<Rightarrow> new_project \<times> (string \<times> string \<times> string \<times> string) option" where
  "submit_project s =
     (let s' = validate_project s
      in (s', if np_name_error s' = None \<and> np_alias_error s' = None
              then Some (trim (np_name s), trim (np_alias s), np_start s, np_end s) else None))"

definition TrimSpace :: "string \<Rightarrow> string" where
  "TrimSpace s =
     (let sp = (\<lambda>c. is_space c \<or> ccode c = 133) in rev (dropWhile sp (rev (dropWhile sp s))))"

text \<open>The backend's reading of an alias.  \<open>strings.Trim\<close> removes any number of signs at both ends.\<close>

definition trim_char :: "char \<Rightarrow> string \<Rightarrow> string" where
  "trim_char h s = rev (dropWhile (\<lambda>c. c = h) (rev (dropWhile (\<lambda>c. c = h) s)))"

definition NormalizeAlias :: "string \<Rightarrow> string" where
  "NormalizeAlias name =
     (let a = TrimSpace name;
          b = toLowerCase (if startsWith a ''@'' then drop 1 a else a);
          c = trim_char (CHR ''-'') (collapse_char (CHR ''-'') (map (\<lambda>c. if is_slug_char c \<or> c = CHR ''-'' then c else CHR ''-'') b))
      in if c = [] then [] else CHR ''@'' # c)"

definition ValidateAlias :: "string \<Rightarrow> bool" where
  "ValidateAlias a \<longleftrightarrow>
     startsWith a ''@'' \<and> 2 \<le> length (drop 1 a) \<and> length (drop 1 a) \<le> 32 \<and>
     list_all (\<lambda>c. is_slug_char c \<or> c = CHR ''-'') (drop 1 a)"

section \<open>The patterns of the command line\<close>

text \<open>White space of the backend's patterns, and their pieces.\<close>

definition go_space :: "char \<Rightarrow> bool" where
  "go_space c \<longleftrightarrow> ccode c \<in> {9, 10, 12, 13, 32}"

definition after_word :: "string \<Rightarrow> string \<Rightarrow> string option" where
  "after_word w s = (if startsWith s w then Some (drop (length w) s) else None)"

definition after_spaces :: "string \<Rightarrow> string option" where
  "after_spaces s = (if s \<noteq> [] \<and> go_space (hd s) then Some (dropWhile go_space s) else None)"

definition word_alias :: "string \<Rightarrow> (string \<times> string) option" where
  "word_alias s =
     (if s \<noteq> [] \<and> hd s = CHR ''@'' \<and> takeWhile is_word_char (tl s) \<noteq> []
      then Some (CHR ''@'' # takeWhile is_word_char (tl s), dropWhile is_word_char (tl s)) else None)"

text \<open>A command word, spaces and an alias: the alias and what follows it.\<close>

definition command_alias :: "string \<Rightarrow> string \<Rightarrow> (string \<times> string) option" where
  "command_alias w s =
     (case after_word w s of
        None \<Rightarrow> None
      | Some r \<Rightarrow> (case after_spaces r of None \<Rightarrow> None | Some t \<Rightarrow> word_alias t))"

lemma after_spaces_shorter: "after_spaces s = Some r \<Longrightarrow> length r < length s"
  by (cases s) (auto simp: after_spaces_def less_Suc_eq_le length_dropWhile_le split: if_splits)

function flag_run :: "string \<Rightarrow> bool" where
  "flag_run s =
     (case after_spaces s of
        None \<Rightarrow> s = []
      | Some r \<Rightarrow>
          if startsWith r ''--force'' then flag_run (drop 7 r)
          else if startsWith r ''--hard'' then flag_run (drop 6 r) else False)"
  by pat_completeness auto
termination
  by (relation "measure length") (auto dest!: after_spaces_shorter)

declare flag_run.simps [simp del]

datatype project_command =
    Cmd_new string
  | Cmd_archive_force string
  | Cmd_archive string
  | Cmd_unarchive string
  | Cmd_rename string string
  | Cmd_delete_flags string
  | Cmd_delete_force string
  | Cmd_delete_hard string
  | Cmd_delete string
  | Cmd_help

definition exact :: "string \<Rightarrow> string \<Rightarrow> string option" where
  "exact w s = (case command_alias w s of Some (a, r) \<Rightarrow> if r = [] then Some a else None | None \<Rightarrow> None)"

definition flagged :: "string \<Rightarrow> string \<Rightarrow> string \<Rightarrow> string option" where
  "flagged w fl s =
     (case command_alias w s of
        Some (a, r) \<Rightarrow> if after_spaces r = Some fl then Some a else None
      | None \<Rightarrow> None)"

definition free_text :: "string option \<Rightarrow> string option" where
  "free_text r =
     (case r of
        None \<Rightarrow> None
      | Some s \<Rightarrow>
          (case after_spaces s of
             None \<Rightarrow> None
           | Some t \<Rightarrow> if t \<noteq> [] \<and> CHR 0x0A \<notin> set t then Some t else None))"

text \<open>The handlers in the order of their registration; the first pattern that matches decides.\<close>

definition project_handlers :: "(string \<Rightarrow> project_command option) list" where
  "project_handlers =
     [\<lambda>s. map_option Cmd_new (free_text (after_word ''new'' s)),
      \<lambda>s. map_option Cmd_archive_force (flagged ''archive'' ''--force'' s),
      \<lambda>s. map_option Cmd_archive (exact ''archive'' s),
      \<lambda>s. map_option Cmd_unarchive (exact ''unarchive'' s),
      \<lambda>s. (case command_alias ''rename'' s of
             Some (a, r) \<Rightarrow> map_option (Cmd_rename a) (free_text (Some r))
           | None \<Rightarrow> None),
      \<lambda>s. (case command_alias ''delete'' s of
             Some (a, r) \<Rightarrow> if r \<noteq> [] \<and> flag_run r then Some (Cmd_delete_flags a) else None
           | None \<Rightarrow> None),
      \<lambda>s. map_option Cmd_delete_force (flagged ''delete'' ''--force'' s),
      \<lambda>s. map_option Cmd_delete_hard (flagged ''delete'' ''--hard'' s),
      \<lambda>s. map_option Cmd_delete (exact ''delete'' s),
      \<lambda>s. if s = ''help'' \<or> s = ''?'' then Some Cmd_help else None]"

fun first_handler :: "('a \<Rightarrow> 'b option) list \<Rightarrow> 'a \<Rightarrow> 'b option" where
  "first_handler [] s = None"
| "first_handler (h # hs) s = (case h s of Some c \<Rightarrow> Some c | None \<Rightarrow> first_handler hs s)"

definition dispatch_project :: "string \<Rightarrow> project_command option" where
  "dispatch_project s = first_handler project_handlers s"

section \<open>The handlers\<close>

record project_model =
  pm_id :: string
  pm_name :: string
  pm_alias :: string
  pm_start :: string
  pm_end :: string
  pm_created :: string
  pm_updated :: string
  pm_deleted :: string

datatype service_call =
    UpdateProject project_model
  | SoftDeleteProject string
  | RestoreProject string
  | HardDeleteProject string
  | SoftDeleteDocuments string
  | HardDeleteDocuments string
  | DeleteProjectDir string

text \<open>What the services answer: lists, counts and, for a call that changes something, the error it ends with.\<close>

record project_services =
  sv_active :: "string + project_model list"
  sv_archived :: "string + project_model list"
  sv_count :: "string \<Rightarrow> string + nat"
  sv_call :: "service_call \<Rightarrow> string option"

record project_data =
  pd_project :: project_model
  pd_alias :: string
  pd_flags :: "string list"
  pd_requires :: bool
  pd_command :: string

record project_result =
  res_success :: bool
  res_message :: string
  res_data :: "project_data option"

definition plain_data :: "project_model \<Rightarrow> string \<Rightarrow> string list \<Rightarrow> project_data option" where
  "plain_data p a fl = Some \<lparr>pd_project = p, pd_alias = a, pd_flags = fl, pd_requires = False, pd_command = []\<rparr>"

definition ask_data :: "project_model \<Rightarrow> string \<Rightarrow> string list \<Rightarrow> string \<Rightarrow> project_data option" where
  "ask_data p a fl cmd = Some \<lparr>pd_project = p, pd_alias = a, pd_flags = fl, pd_requires = True, pd_command = cmd\<rparr>"

definition failed :: "string \<Rightarrow> project_result" where
  "failed msg = \<lparr>res_success = False, res_message = msg, res_data = None\<rparr>"

definition done_with :: "string \<Rightarrow> project_data option \<Rightarrow> project_result" where
  "done_with msg d = \<lparr>res_success = True, res_message = msg, res_data = d\<rparr>"

definition in_quotes :: "string \<Rightarrow> string" where
  "in_quotes s = CHR 0x27 # s @ [CHR 0x27]"

definition counted :: "nat \<Rightarrow> string \<Rightarrow> string \<Rightarrow> string" where
  "counted n before after = (if n > 0 then before @ nat_str n @ after else [])"

definition by_alias :: "string \<Rightarrow> project_model list \<Rightarrow> project_model option" where
  "by_alias a ps = List.find (\<lambda>p. pm_alias p = a) ps"

text \<open>The calls of a handler one after the other; the first error ends it.\<close>

fun run_calls_until :: "project_services \<Rightarrow> service_call list \<Rightarrow> service_call list \<times> string option" where
  "run_calls_until sv [] = ([], None)"
| "run_calls_until sv (c # cs) =
     (case sv_call sv c of
        Some err \<Rightarrow> ([c], Some err)
      | None \<Rightarrow> (let (done, e) = run_calls_until sv cs in (c # done, e)))"

definition perform :: "project_services \<Rightarrow> service_call list \<Rightarrow> project_result \<Rightarrow> project_result \<times> service_call list" where
  "perform sv cs r = (case run_calls_until sv cs of (done, None) \<Rightarrow> (r, done) | (done, Some err) \<Rightarrow> (failed err, done))"

definition findProjectByAlias :: "project_services \<Rightarrow> string \<Rightarrow> string + (project_model \<times> bool) option" where
  "findProjectByAlias sv a =
     (case sv_active sv of
        Inl err \<Rightarrow> Inl err
      | Inr act \<Rightarrow>
          (case by_alias a act of
             Some p \<Rightarrow> Inr (Some (p, False))
           | None \<Rightarrow>
               (case sv_archived sv of
                  Inl err \<Rightarrow> Inl err
                | Inr arch \<Rightarrow> Inr (map_option (\<lambda>p. (p, True)) (by_alias a arch)))))"

definition handleArchive :: "project_services \<Rightarrow> string \<Rightarrow> project_result \<times> service_call list" where
  "handleArchive sv a =
     (case sv_active sv of
        Inl err \<Rightarrow> (failed err, [])
      | Inr act \<Rightarrow>
          (case by_alias a act of
             None \<Rightarrow> (failed (''project not found: '' @ a), [])
           | Some p \<Rightarrow>
               (case sv_count sv (pm_id p) of
                  Inl err \<Rightarrow> (failed err, [])
                | Inr n \<Rightarrow>
                    (done_with (''Confirm archiving project '' @ in_quotes (pm_name p) @ counted n '' (will archive '' '' entries)'')
                       (ask_data p a [] (''archive '' @ a @ '' --force'')), []))))"

definition handleArchiveForce :: "project_services \<Rightarrow> string \<Rightarrow> project_result \<times> service_call list" where
  "handleArchiveForce sv a =
     (case sv_active sv of
        Inl err \<Rightarrow> (failed err, [])
      | Inr act \<Rightarrow>
          (case by_alias a act of
             None \<Rightarrow> (failed (''project not found: '' @ a), [])
           | Some p \<Rightarrow>
               perform sv [SoftDeleteProject (pm_id p)]
                 (done_with (''archived project: '' @ pm_name p) (plain_data p a [''--force'']))))"

definition handleUnarchive :: "project_services \<Rightarrow> string \<Rightarrow> project_result \<times> service_call list" where
  "handleUnarchive sv a =
     (case sv_archived sv of
        Inl err \<Rightarrow> (failed err, [])
      | Inr arch \<Rightarrow>
          (case by_alias a arch of
             None \<Rightarrow> (failed (''archived project not found: '' @ a), [])
           | Some p \<Rightarrow>
               perform sv [RestoreProject (pm_id p)] (done_with (''restored project: '' @ pm_name p) (plain_data p a []))))"

definition handleRename :: "project_services \<Rightarrow> string \<Rightarrow> string \<Rightarrow> project_result \<times> service_call list" where
  "handleRename sv a newName =
     (case sv_active sv of
        Inl err \<Rightarrow> (failed err, [])
      | Inr act \<Rightarrow>
          (case by_alias a act of
             None \<Rightarrow> (failed (''project not found: '' @ a), [])
           | Some p \<Rightarrow>
               let p' = p\<lparr>pm_name := TrimSpace newName\<rparr>
               in perform sv [UpdateProject p'] (done_with (''renamed project to: '' @ pm_name p') (plain_data p' a []))))"

definition handleDelete :: "project_services \<Rightarrow> string \<Rightarrow> project_result \<times> service_call list" where
  "handleDelete sv a =
     (case findProjectByAlias sv a of
        Inl err \<Rightarrow> (failed err, [])
      | Inr None \<Rightarrow> (failed (''project not found: '' @ a), [])
      | Inr (Some (p, alreadyDeleted)) \<Rightarrow>
          if alreadyDeleted then (done_with (''project already deleted: '' @ pm_name p) (plain_data p a []), [])
          else
            (case sv_count sv (pm_id p) of
               Inl err \<Rightarrow> (failed err, [])
             | Inr n \<Rightarrow>
                 (done_with (''Confirm deleting project '' @ in_quotes (pm_name p) @ counted n '' (soft delete '' '' entries)'')
                    (ask_data p a [] (''delete '' @ a @ '' --force'')), [])))"

definition softDeleteProject :: "project_services \<Rightarrow> project_model \<Rightarrow> (nat \<Rightarrow> project_result) \<Rightarrow> project_result \<times> service_call list" where
  "softDeleteProject sv p k =
     (case sv_count sv (pm_id p) of
        Inl err \<Rightarrow> (failed err, [])
      | Inr n \<Rightarrow> perform sv [SoftDeleteDocuments (pm_alias p), SoftDeleteProject (pm_id p)] (k n))"

definition force_deleted :: "project_model \<Rightarrow> string \<Rightarrow> nat \<Rightarrow> project_result" where
  "force_deleted p a n =
     done_with (''force deleted project: '' @ pm_name p @ counted n '' (soft deleted '' '' entries)'') (plain_data p a [''--force''])"

definition ask_hard :: "project_services \<Rightarrow> project_model \<Rightarrow> string \<Rightarrow> project_result \<times> service_call list" where
  "ask_hard sv p a =
     (case sv_count sv (pm_id p) of
        Inl err \<Rightarrow> (failed err, [])
      | Inr n \<Rightarrow>
          (done_with (''Confirm permanently deleting project '' @ in_quotes (pm_name p)
               @ counted n '' (hard delete '' '' entries and all files)'')
             (ask_data p a [''--hard''] (''delete '' @ a @ '' --force --hard'')), []))"

definition handleDeleteForce :: "project_services \<Rightarrow> string \<Rightarrow> project_result \<times> service_call list" where
  "handleDeleteForce sv a =
     (case findProjectByAlias sv a of
        Inl err \<Rightarrow> (failed err, [])
      | Inr None \<Rightarrow> (failed (''project not found: '' @ a), [])
      | Inr (Some (p, alreadyDeleted)) \<Rightarrow>
          if alreadyDeleted then (done_with (''project already deleted: '' @ pm_name p) (plain_data p a [''--force'']), [])
          else softDeleteProject sv p (force_deleted p a))"

definition handleDeleteWithFlags :: "project_services \<Rightarrow> string \<Rightarrow> string \<Rightarrow> project_result \<times> service_call list" where
  "handleDeleteWithFlags sv a full =
     (let hasForce = str_includes full ''--force''; hasHard = str_includes full ''--hard''
      in case findProjectByAlias sv a of
           Inl err \<Rightarrow> (failed err, [])
         | Inr None \<Rightarrow> (failed (''project not found: '' @ a), [])
         | Inr (Some (p, alreadyDeleted)) \<Rightarrow>
             if alreadyDeleted then
               (done_with (''project already deleted: '' @ pm_name p)
                  (plain_data p a ((if hasForce then [''--force''] else []) @ (if hasHard then [''--hard''] else []))), [])
             else if hasHard then
               (if \<not> hasForce then ask_hard sv p a
                else
                  perform sv [HardDeleteDocuments (pm_alias p), HardDeleteProject (pm_id p), DeleteProjectDir (pm_alias p)]
                    (done_with (''permanently deleted project: '' @ pm_name p @ '' (with all documents and files)'')
                      (plain_data p a [''--force'', ''--hard''])))
             else softDeleteProject sv p (force_deleted p a))"

definition handleDeleteHard :: "project_services \<Rightarrow> string \<Rightarrow> project_result \<times> service_call list" where
  "handleDeleteHard sv a =
     (case findProjectByAlias sv a of
        Inl err \<Rightarrow> (failed err, [])
      | Inr None \<Rightarrow> (failed (''project not found: '' @ a), [])
      | Inr (Some (p, _)) \<Rightarrow> ask_hard sv p a)"

text \<open>\<open>Parse\<close>.  The date syntax of \<open>new\<close>, a command no page sends, is left open: its handler is an argument.\<close>

definition Parse_project ::
  "(string \<Rightarrow> project_result \<times> service_call list) \<Rightarrow> project_services \<Rightarrow> string \<Rightarrow> project_result \<times> service_call list" where
  "Parse_project handleNew sv command =
     (let s = TrimSpace command
      in if s = [] then (failed ''empty command'', [])
         else
           (case dispatch_project s of
              None \<Rightarrow> (failed (''unknown command: '' @ s @ ''. type '' @ in_quotes ''help'' @ '' for available commands.''), [])
            | Some (Cmd_new txt) \<Rightarrow> handleNew txt
            | Some (Cmd_archive_force a) \<Rightarrow> handleArchiveForce sv a
            | Some (Cmd_archive a) \<Rightarrow> handleArchive sv a
            | Some (Cmd_unarchive a) \<Rightarrow> handleUnarchive sv a
            | Some (Cmd_rename a n) \<Rightarrow> handleRename sv a n
            | Some (Cmd_delete_flags a) \<Rightarrow> handleDeleteWithFlags sv a s
            | Some (Cmd_delete_force a) \<Rightarrow> handleDeleteForce sv a
            | Some (Cmd_delete_hard a) \<Rightarrow> handleDeleteHard sv a
            | Some (Cmd_delete a) \<Rightarrow> handleDelete sv a
            | Some Cmd_help \<Rightarrow> (done_with ''help'' None, [])))"

section \<open>Lemmas on aliases\<close>

abbreviation no_double :: "char \<Rightarrow> string \<Rightarrow> bool" where
  "no_double h s \<equiv> successively (\<lambda>a b. \<not> (a = h \<and> b = h)) s"

abbreviation clean_ends :: "char \<Rightarrow> string \<Rightarrow> bool" where
  "clean_ends h s \<equiv> s = [] \<or> hd s \<noteq> h \<and> last s \<noteq> h"

lemma hd_collapse_char: "s \<noteq> [] \<Longrightarrow> collapse_char h s \<noteq> [] \<and> hd (collapse_char h s) = hd s"
  by (induction h s rule: collapse_char.induct) auto

lemma set_collapse: "set (collapse_char h s) \<subseteq> set s"
  by (induction h s rule: collapse_char.induct) auto

lemma no_double_collapse: "no_double h (collapse_char h s)"
proof (induction h s rule: collapse_char.induct)
  case (1 h a b s)
  then show ?case using hd_collapse_char [of "b # s" h] by (auto simp: successively_Cons)
qed simp_all

lemma collapse_id: "no_double h s \<Longrightarrow> collapse_char h s = s"
  by (induction h s rule: collapse_char.induct) auto

lemma no_double_tl: "no_double h s \<Longrightarrow> no_double h (tl s)"
  by (cases s) (auto simp: successively_Cons)

lemma no_double_butlast: "no_double h s \<Longrightarrow> no_double h (butlast s)"
  by (induction s rule: rev_induct) (auto simp: successively_append_iff)

lemma strip_front:
  assumes "no_double h s" "t = (if s \<noteq> [] \<and> hd s = h then tl s else s)"
  shows "no_double h t \<and> (t = [] \<or> hd t \<noteq> h)"
proof (cases "s \<noteq> [] \<and> hd s = h")
  case True
  then obtain u where "s = h # u" by (cases s) auto
  with assms show ?thesis by (cases u) auto
qed (use assms in auto)

lemma strip_back:
  assumes "no_double h s" "s = [] \<or> hd s \<noteq> h"
  shows "no_double h (if s \<noteq> [] \<and> last s = h then butlast s else s) \<and>
    clean_ends h (if s \<noteq> [] \<and> last s = h then butlast s else s)"
proof (cases "s \<noteq> [] \<and> last s = h")
  case True
  then obtain u where u: "s = u @ [h]" by (metis append_butlast_last_id)
  have "no_double h u" "u = [] \<or> last u \<noteq> h" using assms(1) by (auto simp: u successively_append_iff)
  moreover have "u = [] \<or> hd u \<noteq> h" using assms(2) by (cases u) (auto simp: u)
  ultimately show ?thesis using u by auto
qed (use assms in auto)

lemma strip_end_clean: "no_double h s \<Longrightarrow> no_double h (strip_end h s) \<and> clean_ends h (strip_end h s)"
  using strip_front [OF _ refl, of h s] strip_back [of h "if s \<noteq> [] \<and> hd s = h then tl s else s"]
  by (simp add: strip_end_def Let_def)

lemma set_strip_end: "set (strip_end h s) \<subseteq> set s"
  by (auto simp: strip_end_def Let_def dest: in_set_butlastD list.set_sel(2))

lemma trim_char_id: "clean_ends h s \<Longrightarrow> trim_char h s = s"
proof (cases "s = []")
  case False
  assume "clean_ends h s"
  with False have "dropWhile (\<lambda>c. c = h) s = s" "dropWhile (\<lambda>c. c = h) (rev s) = rev s"
    by (simp_all add: dropWhile_eq_self_iff hd_rev)
  then show ?thesis by (simp add: trim_char_def)
qed (simp add: trim_char_def)

text \<open>The part of a suggested alias after the sign.\<close>

definition slug :: "string \<Rightarrow> string" where
  "slug v = strip_end (CHR ''-'') (collapse_char (CHR ''-'') (slug_map (toLowerCase v)))"

abbreviation slug_char :: "char \<Rightarrow> bool" where
  "slug_char c \<equiv> is_slug_char c \<or> c = CHR ''-''"

lemma slug_clean: "no_double (CHR ''-'') (slug v)" "clean_ends (CHR ''-'') (slug v)"
  using strip_end_clean [OF no_double_collapse] by (simp_all add: slug_def)

lemma slug_chars: "c \<in> set (slug v) \<Longrightarrow> slug_char c"
  using set_strip_end set_collapse by (fastforce simp: slug_def slug_map_def)

lemma slug_char_facts: "slug_char c \<Longrightarrow> \<not> is_space c \<and> ccode c \<noteq> 133 \<and> lower_char c = c \<and> is_alias_char c \<and> c \<noteq> CHR ''@''"
  by (auto simp: is_slug_char_def is_digit_def is_space_def lower_char_def is_upper_def is_alias_char_def is_word_char_def)

abbreviation go_white :: "char \<Rightarrow> bool" where
  "go_white c \<equiv> is_space c \<or> ccode c = 133"

lemma TrimSpace_prefix:
  assumes "x \<noteq> []" "\<not> go_white (hd x)" "\<not> go_white (last x)"
  shows "\<exists>r. TrimSpace (x @ rest) = x @ r \<and> (rest = [] \<longrightarrow> r = []) \<and> (rest \<noteq> [] \<and> \<not> go_white (last rest) \<longrightarrow> r = rest)"
proof -
  have front: "dropWhile go_white (x @ rest) = x @ rest" using assms(1,2) by (cases x) auto
  have bk: "dropWhile go_white (rev x) = rev x" using assms(1,3) by (simp add: dropWhile_eq_self_iff hd_rev)
  define r where "r = rev (dropWhile go_white (rev rest))"
  have "dropWhile go_white (rev rest @ rev x) = rev r @ rev x"
    by (simp add: r_def dropWhile_append bk)
  then have "TrimSpace (x @ rest) = x @ r" unfolding TrimSpace_def Let_def front by simp
  moreover have "rest = [] \<longrightarrow> r = []" by (simp add: r_def)
  moreover have "rest \<noteq> [] \<and> \<not> go_white (last rest) \<longrightarrow> r = rest"
    by (auto simp: r_def dropWhile_eq_self_iff hd_rev rev_swap)
  ultimately show ?thesis by blast
qed

lemma TrimSpace_id: "s = [] \<or> \<not> go_white (hd s) \<and> \<not> go_white (last s) \<Longrightarrow> TrimSpace s = s"
  using TrimSpace_prefix [of s "[]"] by (cases "s = []") (auto simp: TrimSpace_def)

lemma Normalize_slug: "slug v \<noteq> [] \<Longrightarrow> NormalizeAlias (CHR ''@'' # slug v) = CHR ''@'' # slug v"
proof -
  assume ne: "slug v \<noteq> []"
  have at: "\<not> is_space (CHR ''@'')" "ccode (CHR ''@'') \<noteq> 133" by code_simp+
  have t: "TrimSpace (CHR ''@'' # slug v) = CHR ''@'' # slug v"
    using at ne slug_char_facts [OF slug_chars [OF last_in_set [OF ne]]] by (intro TrimSpace_id) auto
  have l: "toLowerCase (slug v) = slug v"
    unfolding toLowerCase_def using slug_chars slug_char_facts by (intro map_idI) blast
  have m: "map (\<lambda>c. if slug_char c then c else CHR ''-'') (slug v) = slug v"
    using slug_chars by (intro map_idI) auto
  show ?thesis
    using ne by (simp add: NormalizeAlias_def Let_def t l m collapse_id [OF slug_clean(1)] trim_char_id [OF slug_clean(2)])
qed

section \<open>The dialog\<close>

inductive dialog_reach :: "new_project \<Rightarrow> bool" where
  opened: "dialog_reach (open_new_project today)"
| name: "dialog_reach s \<Longrightarrow> dialog_reach (handleNameChange v s)"
| retyped: "dialog_reach s \<Longrightarrow> dialog_reach (handleAliasChange v s)"
| dates: "dialog_reach s \<Longrightarrow> dialog_reach (s\<lparr>np_start := x, np_end := y\<rparr>)"
| submitted: "dialog_reach s \<Longrightarrow> dialog_reach (fst (submit_project s))"

lemma dialog_alias: "dialog_reach s \<Longrightarrow> np_alias s = [] \<or> startsWith (np_alias s) ''@''"
proof (induction rule: dialog_reach.induct)
  case (retyped s v)
  show ?case by (cases v) (auto simp: handleAliasChange_def Let_def)
qed (auto simp: open_new_project_def handleNameChange_def suggestedAlias_def submit_project_def validate_project_def Let_def)


text \<open>A custom alias does not survive.  Whatever was typed into the two fields, the next change of the name replaces the
  alias by the suggestion.\<close>

theorem custom_alias_overwritten: "dialog_reach s \<Longrightarrow> np_alias (handleNameChange v s) = suggestedAlias v"
  using dialog_alias [of s] by (simp add: handleNameChange_def)

section \<open>What the command line recognises\<close>

lemma startsWith_append [simp]: "startsWith (p @ r) p"
  by (induction p) auto

lemma after_word_self: "after_word k (k @ r) = Some r"
  by (simp add: after_word_def)

lemma go_space_chars: "go_space (CHR '' '')" "\<not> go_space (CHR ''@'')" "\<not> go_space (CHR ''-'')" "\<not> is_word_char (CHR ''-'')"
  "\<not> is_word_char (CHR '' '')"
  by code_simp+

lemma after_one_space: "r \<noteq> [] \<Longrightarrow> \<not> go_space (hd r) \<Longrightarrow> after_spaces (CHR '' '' # r) = Some r"
  by (cases r) (auto simp: after_spaces_def go_space_chars)

lemma command_alias_line:
  "command_alias k (k @ CHR '' '' # CHR ''@'' # u) =
     (if takeWhile is_word_char u = [] then None
      else Some (CHR ''@'' # takeWhile is_word_char u, dropWhile is_word_char u))"
  using after_one_space [of "CHR ''@'' # u"]
  by (simp add: command_alias_def after_word_self word_alias_def go_space_chars)

lemma command_alias_word:
  assumes "w \<noteq> []" "list_all is_word_char w" "r = [] \<or> \<not> is_word_char (hd r)"
  shows "command_alias k (k @ CHR '' '' # CHR ''@'' # w @ r) = Some (CHR ''@'' # w, r)"
proof -
  have "takeWhile is_word_char (w @ r) = w" "dropWhile is_word_char (w @ r) = r"
    using assms by (cases r; simp add: list_all_iff takeWhile_append dropWhile_append)+
  with assms(1) show ?thesis by (simp only: command_alias_line if_False)
qed

lemma command_alias_hyphen:
  assumes "list_all is_word_char w"
  shows "\<exists>x. command_alias k (k @ CHR '' '' # CHR ''@'' # w @ CHR ''-'' # r) = x \<and> (\<forall>a t. x = Some (a, t) \<longrightarrow> t = CHR ''-'' # r)"
proof -
  have "dropWhile is_word_char (w @ CHR ''-'' # r) = CHR ''-'' # r"
    using assms go_space_chars by (simp add: list_all_iff dropWhile_append)
  then show ?thesis by (simp add: command_alias_line)
qed

lemma after_spaces_hyphen: "after_spaces (CHR ''-'' # r) = None"
  by (simp add: after_spaces_def go_space_chars)

lemma hyphen_pieces:
  assumes "list_all is_word_char w" "s = k @ CHR '' '' # CHR ''@'' # w @ CHR ''-'' # r"
  shows "exact k s = None" "fl \<noteq> [] \<Longrightarrow> flagged k fl s = None"
    "command_alias k s = Some (a, t) \<Longrightarrow> free_text (Some t) = None \<and> \<not> flag_run t"
  using command_alias_hyphen [OF assms(1), of k r] unfolding assms(2)
  by (auto simp: exact_def flagged_def free_text_def after_spaces_hyphen flag_run.simps [of "CHR ''-'' # r"] split: option.split)

lemma other_word: "\<not> startsWith s k \<Longrightarrow> command_alias k s = None \<and> exact k s = None \<and> flagged k fl s = None"
  by (simp add: exact_def flagged_def command_alias_def after_word_def)

definition alias_commands :: "string list" where
  "alias_commands = [''archive'', ''unarchive'', ''rename'', ''delete'']"

lemma first_handler_None: "list_all (\<lambda>h. h s = None) hs \<Longrightarrow> first_handler hs s = None"
  by (induction hs) auto

lemma command_words:
  assumes "k \<in> set alias_commands" "k' \<in> set alias_commands" "startsWith (k @ CHR '' '' # r) k'"
  shows "k' = k"
  using assms by (simp add: alias_commands_def) (elim disjE; simp)

lemma command_words_other:
  assumes "k \<in> set alias_commands"
  shows "\<not> startsWith (k @ CHR '' '' # r) ''new''" "k @ CHR '' '' # r \<noteq> ''help''" "k @ CHR '' '' # r \<noteq> ''?''"
  using assms by (simp add: alias_commands_def; elim disjE; simp)+

lemma dispatch_hyphen:
  assumes "list_all is_word_char w" "k \<in> set alias_commands"
  shows "dispatch_project (k @ CHR '' '' # CHR ''@'' # w @ CHR ''-'' # r) = None"
proof -
  define s where "s = k @ CHR '' '' # CHR ''@'' # w @ CHR ''-'' # r"
  note pieces = hyphen_pieces [OF assms(1) s_def]
  have keys: "k' = k" if "k' \<in> set alias_commands" "startsWith s k'" for k'
    using command_words [OF assms(2) that(1)] that(2) by (simp add: s_def)
  have ex: "exact k' s = None" if "k' \<in> set alias_commands" for k'
    using keys [OF that] pieces(1) other_word [of s k'] by blast
  have fl: "flagged k' (f # g) s = None" if "k' \<in> set alias_commands" for k' f g
    using keys [OF that] pieces(2) [of "f # g"] other_word [of s k'] by (cases "startsWith s k'") simp_all
  have ca: "free_text (Some t) = None \<and> \<not> flag_run t" if "k' \<in> set alias_commands" "command_alias k' s = Some (a, t)" for k' a t
    using keys [OF that(1)] pieces(3) that(2) other_word [of s k'] by (metis option.distinct(1))
  have new: "after_word ''new'' s = None" "s \<noteq> ''help''" "s \<noteq> ''?''"
    using command_words_other [OF assms(2)] by (simp_all add: after_word_def s_def)
  have cmds: "''archive'' \<in> set alias_commands" "''unarchive'' \<in> set alias_commands" "''rename'' \<in> set alias_commands"
    "''delete'' \<in> set alias_commands" by (simp_all add: alias_commands_def)
  have "(case command_alias ''rename'' s of Some (a, r) \<Rightarrow> map_option (Cmd_rename a) (free_text (Some r)) | None \<Rightarrow> None) = None"
    using ca [OF cmds(3)] by (auto split: option.split)
  moreover have "(case command_alias ''delete'' s of
      Some (a, r) \<Rightarrow> if r \<noteq> [] \<and> flag_run r then Some (Cmd_delete_flags a) else None | None \<Rightarrow> None) = None"
    using ca [OF cmds(4)] by (auto split: option.split)
  ultimately have "list_all (\<lambda>h. h s = None) project_handlers"
    using ex [OF cmds(1)] ex [OF cmds(2)] ex [OF cmds(4)] fl [OF cmds(1)] fl [OF cmds(4)] new
    by (simp add: project_handlers_def free_text_def [of None])
  then show ?thesis unfolding s_def [symmetric] dispatch_project_def by (rule first_handler_None)
qed

text \<open>An alias of word characters, by itself or followed by something that is no word character, is read whole.\<close>

lemma line_pieces:
  assumes "k \<in> set alias_commands" "w \<noteq> []" "list_all is_word_char w" "r = [] \<or> \<not> is_word_char (hd r)"
    and "s = k @ CHR '' '' # CHR ''@'' # w @ r"
  shows "after_word ''new'' s = None" "command_alias k s = Some (CHR ''@'' # w, r)"
    "k' \<in> set alias_commands \<Longrightarrow> k' \<noteq> k \<Longrightarrow> command_alias k' s = None"
proof -
  show "after_word ''new'' s = None" "command_alias k s = Some (CHR ''@'' # w, r)"
    using command_words_other(1) [OF assms(1)] command_alias_word [OF assms(2-4)] by (simp_all add: assms(5) after_word_def)
  show "command_alias k' s = None" if "k' \<in> set alias_commands" "k' \<noteq> k"
    using command_words [OF assms(1) that(1)] that(2) other_word [of s k'] unfolding assms(5) by metis
qed

lemma dispatch_archive:
  assumes "w \<noteq> []" "list_all is_word_char w" "r = [] \<or> \<not> is_word_char (hd r)"
  shows "dispatch_project (''archive'' @ CHR '' '' # CHR ''@'' # w @ r) =
    (if after_spaces r = Some ''--force'' then Some (Cmd_archive_force (CHR ''@'' # w))
     else if r = [] then Some (Cmd_archive (CHR ''@'' # w)) else None)"
proof -
  define s where "s = ''archive'' @ CHR '' '' # CHR ''@'' # w @ r"
  note p = line_pieces [OF _ assms s_def]
  have "command_alias ''archive'' s = Some (CHR ''@'' # w, r)" "command_alias ''unarchive'' s = None"
    "command_alias ''rename'' s = None" "command_alias ''delete'' s = None" "after_word ''new'' s = None"
    "s \<noteq> ''help''" "s \<noteq> ''?''"
    using p by (simp_all add: alias_commands_def) (simp_all add: s_def)
  then show ?thesis unfolding s_def [symmetric]
    by (simp add: dispatch_project_def project_handlers_def exact_def flagged_def free_text_def)
qed

lemma dispatch_unarchive:
  assumes "w \<noteq> []" "list_all is_word_char w"
  shows "dispatch_project (''unarchive'' @ CHR '' '' # CHR ''@'' # w) = Some (Cmd_unarchive (CHR ''@'' # w))"
proof -
  define s where "s = ''unarchive'' @ CHR '' '' # CHR ''@'' # w @ []"
  note p = line_pieces [OF _ assms _ s_def]
  have "command_alias ''unarchive'' s = Some (CHR ''@'' # w, [])" "command_alias ''archive'' s = None"
    "after_word ''new'' s = None"
    using p by (simp_all add: alias_commands_def)
  then have "dispatch_project s = Some (Cmd_unarchive (CHR ''@'' # w))"
    by (simp add: dispatch_project_def project_handlers_def exact_def flagged_def free_text_def)
  then show ?thesis by (simp add: s_def)
qed

lemma dispatch_rename:
  assumes "w \<noteq> []" "list_all is_word_char w" "n \<noteq> []" "\<not> go_space (hd n)" "CHR 0x0A \<notin> set n"
  shows "dispatch_project (''rename'' @ CHR '' '' # CHR ''@'' # w @ CHR '' '' # n) = Some (Cmd_rename (CHR ''@'' # w) n)"
proof -
  define s where "s = ''rename'' @ CHR '' '' # CHR ''@'' # w @ CHR '' '' # n"
  note p = line_pieces [OF _ assms(1,2) _ s_def]
  have "command_alias ''rename'' s = Some (CHR ''@'' # w, CHR '' '' # n)" "command_alias ''archive'' s = None"
    "command_alias ''unarchive'' s = None" "after_word ''new'' s = None"
    using p go_space_chars by (simp_all add: alias_commands_def)
  then show ?thesis unfolding s_def [symmetric] using after_one_space [OF assms(3,4)] assms(3,5)
    by (simp add: dispatch_project_def project_handlers_def exact_def flagged_def free_text_def)
qed

lemma flag_run_force: "after_spaces r = Some ''--force'' \<or> after_spaces r = Some ''--hard'' \<Longrightarrow> r \<noteq> [] \<and> flag_run r"
  by (auto simp: flag_run.simps [of r] flag_run.simps [of "[]"] after_spaces_def split: if_splits)

lemma dispatch_delete:
  assumes "w \<noteq> []" "list_all is_word_char w" "r = [] \<or> \<not> is_word_char (hd r)"
  shows "dispatch_project (''delete'' @ CHR '' '' # CHR ''@'' # w @ r) =
    (if r = [] then Some (Cmd_delete (CHR ''@'' # w)) else if flag_run r then Some (Cmd_delete_flags (CHR ''@'' # w)) else None)"
proof -
  define s where "s = ''delete'' @ CHR '' '' # CHR ''@'' # w @ r"
  note p = line_pieces [OF _ assms s_def]
  have "command_alias ''delete'' s = Some (CHR ''@'' # w, r)" "command_alias ''unarchive'' s = None"
    "command_alias ''rename'' s = None" "command_alias ''archive'' s = None" "after_word ''new'' s = None"
    "s \<noteq> ''help''" "s \<noteq> ''?''"
    using p by (simp_all add: alias_commands_def) (simp_all add: s_def)
  then show ?thesis unfolding s_def [symmetric] using flag_run_force [of r]
    by (cases "flag_run r"; cases "r = []")
      (auto simp: dispatch_project_def project_handlers_def exact_def flagged_def free_text_def after_spaces_def [of "[]"])
qed

lemma flag_runs: "flag_run '' --force''" "flag_run '' --hard''" "flag_run '' --force --hard''"
  by code_simp+

theorem custom_alias_overwritten_witness:
  "np_alias (handleNameChange ''Work'' (handleAliasChange ''mine'' (open_new_project ''2026-01-02''))) = ''@work''"
proof -
  have "dialog_reach (handleAliasChange ''mine'' (open_new_project ''2026-01-02''))"
    by (intro dialog_reach.retyped dialog_reach.opened)
  moreover have "suggestedAlias ''Work'' = ''@work''" by code_simp
  ultimately show ?thesis using custom_alias_overwritten by simp
qed

end
