(* ===== verification/Projects.thy ===== *)
theory Projects
  imports Project_Commands Local_Stores
begin

text \<open>
  Projects in the frontend: the project store (\<open>shared/stores/project.store.ts\<close>, \<open>shared/types/Project.ts\<close>), the
  document counts (\<open>shared/stores/documentCount.store.ts\<close>, \<open>app/DocumentCountStoreInit.tsx\<close>) and the projects page
  (\<open>project/ProjectsPage.tsx\<close>, \<open>project/projectManage.store.ts\<close>), which works on top of the command line of
  \<open>Project_Commands\<close>.  A load of the project list is cut at its \<open>await\<close>; the actions of the page run to their end.
\<close>

section \<open>Projects\<close>

record project =
  pr_id :: string
  pr_name :: string
  pr_alias :: string
  pr_start :: string
  pr_end :: "string option"
  pr_created :: string
  pr_updated :: string
  pr_deleted :: "string option"

definition or_undefined :: "string \<Rightarrow> string option" where
  "or_undefined s = (if s = [] then None else Some s)"

definition or_blank :: "string option \<Rightarrow> string" where
  "or_blank v = (case v of Some s \<Rightarrow> s | None \<Rightarrow> [])"

definition projectFromModel :: "project_model \<Rightarrow> project" where
  "projectFromModel m = \<lparr>pr_id = pm_id m, pr_name = pm_name m, pr_alias = pm_alias m, pr_start = pm_start m,
     pr_end = Some (pm_end m), pr_created = pm_created m, pr_updated = pm_updated m, pr_deleted = or_undefined (pm_deleted m)\<rparr>"

definition projectsFromModels :: "project_model option list \<Rightarrow> project list" where
  "projectsFromModels ms = map projectFromModel (List.map_filter id ms)"

definition projectToModel :: "project \<Rightarrow> project_model" where
  "projectToModel p = \<lparr>pm_id = pr_id p, pm_name = pr_name p, pm_alias = pr_alias p, pm_start = pr_start p,
     pm_end = or_blank (pr_end p), pm_created = pr_created p, pm_updated = pr_updated p, pm_deleted = or_blank (pr_deleted p)\<rparr>"

section \<open>The store\<close>

text \<open>\<open>ps_lastAlias\<close> is the alias kept in local storage.\<close>

record project_store =
  ps_current :: "project option"
  ps_previous :: "project option"
  ps_projects :: "project list"
  ps_archived :: "project list"
  ps_loading :: bool
  ps_loadError :: "string option"
  ps_lastAlias :: "string option"

definition writeLastProjectAlias :: "string \<Rightarrow> ('z) project_store_scheme \<Rightarrow> ('z) project_store_scheme" where
  "writeLastProjectAlias a s = s\<lparr>ps_lastAlias := or_undefined a\<rparr>"

definition write_of :: "project option \<Rightarrow> ('z) project_store_scheme \<Rightarrow> ('z) project_store_scheme" where
  "write_of p s = (case p of Some q \<Rightarrow> writeLastProjectAlias (pr_alias q) s | None \<Rightarrow> s)"

definition setCurrentProject :: "project option \<Rightarrow> ('z) project_store_scheme \<Rightarrow> ('z) project_store_scheme" where
  "setCurrentProject p s =
     (case ps_current s of
        Some c \<Rightarrow>
          if map_option pr_id p \<noteq> Some (pr_id c) then (write_of p s)\<lparr>ps_current := p, ps_previous := Some c\<rparr>
          else (write_of p s)\<lparr>ps_current := p\<rparr>
      | None \<Rightarrow> (write_of p s)\<lparr>ps_current := p\<rparr>)"

definition switchToLastProject :: "('z) project_store_scheme \<Rightarrow> ('z) project_store_scheme" where
  "switchToLastProject s =
     (case ps_previous s of None \<Rightarrow> s | Some p \<Rightarrow> s\<lparr>ps_current := Some p, ps_previous := ps_current s\<rparr>)"

definition loadProjects :: "('z) project_store_scheme \<Rightarrow> ('z) project_store_scheme" where
  "loadProjects s = s\<lparr>ps_loading := True, ps_loadError := None\<rparr>"

definition restored_or_first :: "string option \<Rightarrow> project list \<Rightarrow> project option" where
  "restored_or_first lastAlias act =
     (case (case lastAlias of Some a \<Rightarrow> if a \<noteq> [] then List.find (\<lambda>p. pr_alias p = a) act else None | None \<Rightarrow> None) of
        Some p \<Rightarrow> Some p
      | None \<Rightarrow> (case act of p # _ \<Rightarrow> Some p | [] \<Rightarrow> None))"

definition next_current :: "project option \<Rightarrow> string option \<Rightarrow> project list \<Rightarrow> project option" where
  "next_current prev lastAlias act =
     (case prev of
        None \<Rightarrow> if act \<noteq> [] then restored_or_first lastAlias act else None
      | Some c \<Rightarrow>
          if list_ex (\<lambda>p. pr_id p = pr_id c) act then Some c
          else if act \<noteq> [] then restored_or_first lastAlias act else None)"

type_synonym project_lists = "project_model option list \<times> project_model option list"

definition loadProjects_done :: "(rejection + project_lists) \<Rightarrow> ('z) project_store_scheme \<Rightarrow> ('z) project_store_scheme" where
  "loadProjects_done answer s =
     (case answer of
        Inr (activeModels, archivedModels) \<Rightarrow>
          let act = projectsFromModels activeModels; nxt = next_current (ps_current s) (ps_lastAlias s) act
          in (write_of nxt s)\<lparr>ps_projects := act, ps_archived := projectsFromModels archivedModels, ps_current := nxt,
               ps_loading := False, ps_loadError := None\<rparr>
      | Inl err \<Rightarrow> s\<lparr>ps_loading := False, ps_loadError := Some (err_message err ''Failed to load projects'')\<rparr>)"

definition clearLoadError :: "('z) project_store_scheme \<Rightarrow> ('z) project_store_scheme" where
  "clearLoadError s = s\<lparr>ps_loadError := None\<rparr>"

text \<open>The notice of a switch: the store's subscription compares the new project with the last one it saw.\<close>

definition switch_notice :: "project option \<Rightarrow> project option \<Rightarrow> string option" where
  "switch_notice before now =
     (if map_option pr_id before = map_option pr_id now then None
      else
        (case now of
           Some p \<Rightarrow> Some (''Switched to '' @ (if pr_alias p \<noteq> [] then CHR ''@'' # pr_alias p else pr_name p))
         | None \<Rightarrow> None))"

section \<open>Document counts\<close>

record count_store =
  counts :: "(string, int) jsmap"
  countsLoading :: bool

definition getCount :: "count_store \<Rightarrow> string \<Rightarrow> int" where
  "getCount s i = (case map_get (counts s) i of Some n \<Rightarrow> n | None \<Rightarrow> 0)"

definition refreshCount :: "string \<Rightarrow> int \<Rightarrow> count_store \<Rightarrow> count_store" where
  "refreshCount i n s = s\<lparr>counts := map_set i n (counts s)\<rparr>"

definition setCounts :: "(string, int) jsmap \<Rightarrow> count_store \<Rightarrow> count_store" where
  "setCounts m s = s\<lparr>counts := m\<rparr>"

definition setLoading :: "bool \<Rightarrow> count_store \<Rightarrow> count_store" where
  "setLoading b s = s\<lparr>countsLoading := b\<rparr>"

definition refreshCounts :: "count_store \<Rightarrow> count_store" where
  "refreshCounts s = s\<lparr>countsLoading := True\<rparr>"

definition refreshCounts_done :: "(rejection + (string \<times> int) list) \<Rightarrow> count_store \<Rightarrow> count_store" where
  "refreshCounts_done answer s =
     (case answer of
        Inr es \<Rightarrow> s\<lparr>counts := fold (\<lambda>(k, n) m. map_set k n m) es [], countsLoading := False\<rparr>
      | Inl err \<Rightarrow> s\<lparr>countsLoading := False\<rparr>)"

datatype count_event =
    EntryCreated "string option"
  | EntryDeleted "string option"
  | EntryRestored "string option"
  | EntryCount string int
  | ProjectCreated string
  | ProjectDeleted string

fun count_step :: "count_event \<Rightarrow> count_store \<Rightarrow> count_store" where
  "count_step (EntryCreated p) s = (case p of None \<Rightarrow> s | Some i \<Rightarrow> refreshCount i (getCount s i + 1) s)"
| "count_step (EntryDeleted p) s = (case p of None \<Rightarrow> s | Some i \<Rightarrow> refreshCount i (max 0 (getCount s i - 1)) s)"
| "count_step (EntryRestored p) s = (case p of None \<Rightarrow> s | Some i \<Rightarrow> refreshCount i (getCount s i + 1) s)"
| "count_step (EntryCount i n) s = refreshCount i n s"
| "count_step (ProjectCreated i) s = refreshCount i 0 s"
| "count_step (ProjectDeleted i) s = s\<lparr>counts := map_delete i (counts s)\<rparr>"

section \<open>Sorting\<close>

datatype project_field = By_name | By_alias | By_entryCount | By_lastEntry

record project_sort =
  ps_field :: project_field
  ps_asc :: bool

definition project_field_of :: "json option \<Rightarrow> project_field option" where
  "project_field_of v =
     (case v of
        Some (JStr s) \<Rightarrow>
          map_of [(''name'', By_name), (''alias'', By_alias), (''entryCount'', By_entryCount), (''lastEntry'', By_lastEntry)] s
      | _ \<Rightarrow> None)"

definition initial_project_sort :: project_sort where
  "initial_project_sort = \<lparr>ps_field = By_name, ps_asc = True\<rparr>"

definition readProjectSort :: "json option option \<Rightarrow> project_sort" where
  "readProjectSort c =
     (case c of
        Some (Some parsed) \<Rightarrow>
          (case (project_field_of (get_prop parsed ''field''), dir_of (get_prop parsed ''direction'')) of
             (Some f, Some d) \<Rightarrow> \<lparr>ps_field = f, ps_asc = (d = Asc)\<rparr>
           | _ \<Rightarrow> initial_project_sort)
      | _ \<Rightarrow> initial_project_sort)"

fun project_field_name :: "project_field \<Rightarrow> string" where
  "project_field_name By_name = ''name''"
| "project_field_name By_alias = ''alias''"
| "project_field_name By_entryCount = ''entryCount''"
| "project_field_name By_lastEntry = ''lastEntry''"

definition writeProjectSort :: "project_sort \<Rightarrow> json option option" where
  "writeProjectSort c = Some (Some (JObj [(''field'', JStr (project_field_name (ps_field c))),
     (''direction'', JStr (if ps_asc c then ''asc'' else ''desc''))]))"

definition handleProjectSort :: "project_field \<Rightarrow> project_sort \<Rightarrow> project_sort \<times> json option option" where
  "handleProjectSort f prev =
     (let nxt = (if ps_field prev = f then \<lparr>ps_field = f, ps_asc = (\<not> ps_asc prev)\<rparr>
                 else \<lparr>ps_field = f, ps_asc = (f = By_name \<or> f = By_alias)\<rparr>)
      in (nxt, writeProjectSort nxt))"

record project_row =
  row_project :: project
  row_entries :: int
  row_last :: string
  row_archived :: bool

text \<open>The collation rank of a text and the time of a date are parameters.\<close>

definition last_raw :: "project_row \<Rightarrow> string" where
  "last_raw r = trim (collapse_ws (row_last r))"

definition last_missing :: "project_row \<Rightarrow> bool" where
  "last_missing r \<longleftrightarrow> last_raw r = [] \<or> last_raw r = ''-''"

definition compare_projects :: "(string \<Rightarrow> rat) \<Rightarrow> (string \<Rightarrow> rat) \<Rightarrow> project_sort \<Rightarrow> project_row \<Rightarrow> project_row \<Rightarrow> rat" where
  "compare_projects collate time c a b =
     (let mult = (if ps_asc c then 1 else -1)
      in case ps_field c of
           By_name \<Rightarrow> mult * (collate (pr_name (row_project a)) - collate (pr_name (row_project b)))
         | By_alias \<Rightarrow> mult * (collate (pr_alias (row_project a)) - collate (pr_alias (row_project b)))
         | By_entryCount \<Rightarrow> mult * (of_int (row_entries a) - of_int (row_entries b))
         | By_lastEntry \<Rightarrow>
             if last_missing a \<and> last_missing b then 0
             else if last_missing a then 1
             else if last_missing b then -1
             else mult * (time (last_raw a) - time (last_raw b)))"

definition sortExtendedProjects ::
  "(string \<Rightarrow> rat) \<Rightarrow> (string \<Rightarrow> rat) \<Rightarrow> project_sort \<Rightarrow> project_row list \<Rightarrow> project_row list" where
  "sortExtendedProjects collate time c rows = js_sort (compare_projects collate time c) rows"

definition project_details ::
  "(string \<Rightarrow> rat) \<Rightarrow> (string \<Rightarrow> rat) \<Rightarrow> project_sort \<Rightarrow> (string, int) jsmap \<Rightarrow> (string, string) jsmap \<Rightarrow> bool \<Rightarrow> project list
    \<Rightarrow> project_row list" where
  "project_details collate time c cs ds isArchived ps =
     sortExtendedProjects collate time c
       (map (\<lambda>p. \<lparr>row_project = p, row_entries = (case map_get cs (pr_id p) of Some n \<Rightarrow> n | None \<Rightarrow> 0),
          row_last = (case map_get ds (pr_id p) of Some d \<Rightarrow> if d \<noteq> [] then d else ''-'' | None \<Rightarrow> ''-''),
          row_archived = isArchived\<rparr>) ps)"

section \<open>The page\<close>

datatype manage_request = NewRequest | RenameRequest string

record page_dialog =
  pdl_open :: bool
  pdl_title :: string
  pdl_message :: string
  pdl_input :: "string option"
  pdl_checkbox :: bool
  pdl_danger :: bool
  pdl_command :: "string option"

datatype page_effect = Sent string | Notified string | Failed string | Unhandled string

record projects_page = project_store +
  pg_selected :: string
  pg_counts :: "(string, int) jsmap"
  pg_dates :: "(string, string) jsmap"
  pg_dialog :: page_dialog
  pg_newOpen :: bool
  pg_rename :: "(string \<times> string) option"
  pg_request :: "manage_request option"
  pg_effects :: "page_effect list"

text \<open>The services the page awaits; \<open>Inr None\<close> is a command that resolves to \<open>null\<close>.\<close>

record page_backend =
  pb_parse :: "string \<Rightarrow> rejection + project_result option"
  pb_lists :: "rejection + project_lists"
  pb_data :: "rejection + (string, int) jsmap \<times> (string, string) jsmap"
  pb_create :: "string \<Rightarrow> string \<Rightarrow> string \<Rightarrow> string \<Rightarrow> rejection + string"

definition note_effect :: "page_effect \<Rightarrow> projects_page \<Rightarrow> projects_page" where
  "note_effect e s = s\<lparr>pg_effects := pg_effects s @ [e]\<rparr>"

definition fetchDocumentData :: "page_backend \<Rightarrow> projects_page \<Rightarrow> projects_page" where
  "fetchDocumentData be s =
     (case pb_data be of
        Inr (cs, ds) \<Rightarrow> s\<lparr>pg_counts := cs, pg_dates := ds\<rparr>
      | Inl err \<Rightarrow> note_effect (Failed ''Failed to load document counts'') s)"

text \<open>The effects after a change of the current project and of the selection.\<close>

definition current_effect :: "project option \<Rightarrow> projects_page \<Rightarrow> projects_page" where
  "current_effect before s =
     (let s' = (if ps_current s \<noteq> before then (case ps_current s of Some p \<Rightarrow> s\<lparr>pg_selected := pr_id p\<rparr> | None \<Rightarrow> s) else s)
      in case ps_projects s' of
           p # _ \<Rightarrow> if pg_selected s' = [] then s'\<lparr>pg_selected := pr_id p\<rparr> else s'
         | [] \<Rightarrow> s')"

definition reload_page :: "page_backend \<Rightarrow> projects_page \<Rightarrow> projects_page" where
  "reload_page be s =
     (let s' = current_effect (ps_current s) (loadProjects_done (pb_lists be) (loadProjects s))
      in case pb_lists be of
           Inr _ \<Rightarrow> if ps_projects s' \<noteq> [] \<or> ps_archived s' \<noteq> [] then fetchDocumentData be s' else s'
         | Inl _ \<Rightarrow> s')"

definition switch_on_page :: "project option \<Rightarrow> projects_page \<Rightarrow> projects_page" where
  "switch_on_page p s = current_effect (ps_current s) (setCurrentProject p s)"

definition handleRowSelect :: "string \<Rightarrow> projects_page \<Rightarrow> projects_page" where
  "handleRowSelect i s =
     (let s' = s\<lparr>pg_selected := i\<rparr>
      in case List.find (\<lambda>p. pr_id p = i) (ps_projects s) of Some p \<Rightarrow> switch_on_page (Some p) s' | None \<Rightarrow> s')"

definition handleRowDoubleClick :: "string \<Rightarrow> projects_page \<Rightarrow> projects_page" where
  "handleRowDoubleClick i s =
     (case List.find (\<lambda>p. pr_id p = i) (ps_projects s) of Some p \<Rightarrow> switch_on_page (Some p) s | None \<Rightarrow> s)"

definition applyResult :: "page_backend \<Rightarrow> project_result option \<Rightarrow> projects_page \<Rightarrow> projects_page" where
  "applyResult be result s =
     (case result of
        None \<Rightarrow> s
      | Some r \<Rightarrow>
          if \<not> res_success r then (if res_message r \<noteq> [] then note_effect (Failed (res_message r)) s else s)
          else
            let s1 = fetchDocumentData be (reload_page be s);
                s2 = (case res_data r of
                        Some d \<Rightarrow> if pm_id (pd_project d) \<noteq> [] then s1\<lparr>pg_selected := pm_id (pd_project d)\<rparr> else s1
                      | None \<Rightarrow> s1)
            in if res_message r \<noteq> [] then note_effect (Notified (res_message r)) s2 else s2)"

text \<open>\<open>/^delete\s+(@[\w-]+)\s+--force\s+--hard$/\<close>.\<close>

definition js_spaces :: "string \<Rightarrow> string option" where
  "js_spaces s = (if s \<noteq> [] \<and> is_space (hd s) then Some (dropWhile is_space s) else None)"

definition hardForceMatch :: "string \<Rightarrow> string option" where
  "hardForceMatch command =
     (case Option.bind (after_word ''delete'' command) js_spaces of
        Some (c # r) \<Rightarrow>
          let w = takeWhile is_alias_char r
          in if c = CHR ''@'' \<and> w \<noteq> [] \<and>
                Option.bind (Option.bind (js_spaces (dropWhile is_alias_char r)) (after_word ''--force'')) js_spaces = Some ''--hard''
             then Some (c # w) else None
      | _ \<Rightarrow> None)"

definition hard_message :: "string \<Rightarrow> string" where
  "hard_message name = ''This will PERMANENTLY delete project '' @ [CHR 0x22] @ name @ [CHR 0x22]
     @ '' and ALL its documents from the vault. All files will be removed and CANNOT be recovered!''"

definition project_named :: "string \<Rightarrow> projects_page \<Rightarrow> project option" where
  "project_named a s = List.find (\<lambda>p. pr_alias p = a) (ps_projects s @ ps_archived s)"

definition confirm_project :: "string \<Rightarrow> project_result \<Rightarrow> project_data \<Rightarrow> projects_page \<Rightarrow> page_dialog" where
  "confirm_project command r d s =
     (let a = (if pd_alias d \<noteq> [] then pd_alias d else pm_alias (pd_project d));
          name = (case project_named a s of Some p \<Rightarrow> pr_name p | None \<Rightarrow> a);
          msg = (\<lambda>m. if res_message r \<noteq> [] then res_message r else m);
          base = \<lparr>pdl_open = True, pdl_title = ''Confirm Action'', pdl_message = msg ''Confirm this action?'', pdl_input = None,
            pdl_checkbox = False, pdl_danger = False, pdl_command = Some (pd_command d)\<rparr>
      in if startsWith command ''archive '' then
           base\<lparr>pdl_title := ''Archive Project'',
             pdl_message := ''This will archive project '' @ [CHR 0x22] @ name @ [CHR 0x22] @ ''. You can restore it later.''\<rparr>
         else if startsWith command ''delete '' then
           (if ''--hard'' \<in> set (pd_flags d) then
              base\<lparr>pdl_title := ''Permanently Delete Project'', pdl_message := msg (hard_message name), pdl_input := Some a,
                pdl_checkbox := True, pdl_danger := True\<rparr>
            else
              base\<lparr>pdl_title := ''Delete Project'',
                pdl_message := ''This will archive project '' @ [CHR 0x22] @ name @ [CHR 0x22]
                  @ '' and all of its documents. You can restore the project from the archived view; its documents stay archived and can be restored individually.''\<rparr>)
         else base)"

definition executeProjectCommand :: "page_backend \<Rightarrow> string \<Rightarrow> projects_page \<Rightarrow> projects_page" where
  "executeProjectCommand be command s =
     (case Option.bind (hardForceMatch command) (\<lambda>a. map_option (\<lambda>p. (a, p)) (project_named a s)) of
        Some (a, p) \<Rightarrow>
          s\<lparr>pg_dialog := \<lparr>pdl_open = True, pdl_title = ''Permanently Delete Project'', pdl_message = hard_message (pr_name p),
            pdl_input = Some a, pdl_checkbox = True, pdl_danger = True, pdl_command = Some command\<rparr>\<rparr>
      | None \<Rightarrow>
          let s' = note_effect (Sent command) s
          in case pb_parse be command of
               Inl err \<Rightarrow> note_effect (Failed (err_message err ''Command failed'')) s'
             | Inr None \<Rightarrow> note_effect (Failed ''Command returned null'') s'
             | Inr (Some r) \<Rightarrow>
                 if \<not> res_success r then (if res_message r \<noteq> [] then note_effect (Failed (res_message r)) s' else s')
                 else
                   (case res_data r of
                      Some d \<Rightarrow>
                        if pd_requires d \<and> pd_command d \<noteq> [] \<and> (pd_alias d \<noteq> [] \<or> pm_alias (pd_project d) \<noteq> [])
                        then s'\<lparr>pg_dialog := confirm_project command r d s'\<rparr> else applyResult be (Some r) s'
                    | None \<Rightarrow> applyResult be (Some r) s'))"

text \<open>Confirming needs the expected input and the checkbox.  A rejected command is not caught: the dialog stays.\<close>

definition canConfirm :: "page_dialog \<Rightarrow> string \<Rightarrow> bool \<Rightarrow> bool" where
  "canConfirm d inputValue isChecked \<longleftrightarrow>
     (case pdl_input d of Some e \<Rightarrow> e = [] \<or> inputValue = e | None \<Rightarrow> True) \<and> (pdl_checkbox d \<longrightarrow> isChecked)"

definition confirm_page :: "page_backend \<Rightarrow> string \<Rightarrow> bool \<Rightarrow> projects_page \<Rightarrow> projects_page" where
  "confirm_page be inputValue isChecked s =
     (case pdl_command (pg_dialog s) of
        Some cmd \<Rightarrow>
          if \<not> pdl_open (pg_dialog s) \<or> \<not> canConfirm (pg_dialog s) inputValue isChecked then s
          else
            let s' = note_effect (Sent cmd) s
            in (case pb_parse be cmd of
                  Inl err \<Rightarrow> note_effect (Unhandled (err_text err)) s'
                | Inr r \<Rightarrow> let t = applyResult be r s' in t\<lparr>pg_dialog := (pg_dialog t)\<lparr>pdl_open := False\<rparr>\<rparr>)
      | None \<Rightarrow> s)"

datatype row_action = RowArchive | RowRestore | RowDelete | RowHardDelete

fun row_command :: "row_action \<Rightarrow> string \<Rightarrow> string" where
  "row_command RowArchive a = ''archive '' @ a"
| "row_command RowRestore a = ''unarchive '' @ a"
| "row_command RowDelete a = ''delete '' @ a"
| "row_command RowHardDelete a = ''delete '' @ a @ '' --hard''"

definition handleRenameSubmit :: "page_backend \<Rightarrow> string \<Rightarrow> projects_page \<Rightarrow> projects_page" where
  "handleRenameSubmit be newName s =
     (case pg_rename s of
        Some (a, _) \<Rightarrow> (executeProjectCommand be (''rename '' @ a @ '' '' @ newName) s)\<lparr>pg_rename := None\<rparr>
      | None \<Rightarrow> s)"

text \<open>The rename dialog: what its submit button does with the text typed.\<close>

datatype rename_outcome = NameRequired | Unchanged | Renamed string

definition rename_submit :: "string \<Rightarrow> string \<Rightarrow> rename_outcome" where
  "rename_submit currentName typed =
     (let t = trim typed in if t = [] then NameRequired else if t = currentName then Unchanged else Renamed t)"

text \<open>A request from the command palette waits for the page; \<open>consume\<close> reads and clears it.\<close>

definition requestNew :: "projects_page \<Rightarrow> projects_page" where
  "requestNew s = s\<lparr>pg_request := Some NewRequest\<rparr>"

definition requestRename :: "string \<Rightarrow> projects_page \<Rightarrow> projects_page" where
  "requestRename i s = s\<lparr>pg_request := Some (RenameRequest i)\<rparr>"

definition manage_effect :: "projects_page \<Rightarrow> projects_page" where
  "manage_effect s =
     (case pg_request s of
        None \<Rightarrow> s
      | Some NewRequest \<Rightarrow> s\<lparr>pg_request := None, pg_newOpen := True\<rparr>
      | Some (RenameRequest i) \<Rightarrow>
          (case List.find (\<lambda>p. pr_id p = i) (ps_projects s) of
             Some p \<Rightarrow> s\<lparr>pg_request := None, pg_rename := Some (pr_alias p, pr_name p)\<rparr>
           | None \<Rightarrow> if \<not> ps_loading s then s\<lparr>pg_request := None\<rparr> else s))"

definition selectNextProject :: "projects_page \<Rightarrow> projects_page" where
  "selectNextProject s =
     (let ps = ps_projects s @ ps_archived s; i = findIndex (\<lambda>p. pr_id p = pg_selected s) ps
      in if i < int (length ps) - 1 then s\<lparr>pg_selected := pr_id (ps ! nat (i + 1))\<rparr> else s)"

definition selectPreviousProject :: "projects_page \<Rightarrow> projects_page" where
  "selectPreviousProject s =
     (let ps = ps_projects s @ ps_archived s; i = findIndex (\<lambda>p. pr_id p = pg_selected s) ps
      in if i > 0 then s\<lparr>pg_selected := pr_id (ps ! nat (i - 1))\<rparr> else s)"

definition selectCurrentProject :: "projects_page \<Rightarrow> projects_page" where
  "selectCurrentProject s =
     (case List.find (\<lambda>p. pr_id p = pg_selected s) (ps_projects s @ ps_archived s) of
        Some p \<Rightarrow> switch_on_page (Some p) s
      | None \<Rightarrow> s)"

definition selected_in :: "project list \<Rightarrow> projects_page \<Rightarrow> project option" where
  "selected_in ps s = List.find (\<lambda>p. pr_id p = pg_selected s) ps"

definition project_hotkey :: "page_backend \<Rightarrow> row_action \<Rightarrow> projects_page \<Rightarrow> projects_page" where
  "project_hotkey be act s =
     (let pool = (case act of RowRestore \<Rightarrow> ps_archived s | RowHardDelete \<Rightarrow> ps_projects s @ ps_archived s | _ \<Rightarrow> ps_projects s)
      in case selected_in pool s of Some p \<Rightarrow> executeProjectCommand be (row_command act (pr_alias p)) s | None \<Rightarrow> s)"

definition handleCreateProject :: "page_backend \<Rightarrow> string \<times> string \<times> string \<times> string \<Rightarrow> projects_page \<Rightarrow> projects_page" where
  "handleCreateProject be form s =
     (case form of (name, al, st, en) \<Rightarrow>
        (case pb_create be name al st en of
           Inr i \<Rightarrow> (fetchDocumentData be (reload_page be s))\<lparr>pg_selected := i, pg_newOpen := False\<rparr>
         | Inl err \<Rightarrow> note_effect (Failed (err_message err ''Failed to create project'')) s))"

section \<open>Lemmas on the store\<close>

lemma project_model_roundtrip: "projectToModel (projectFromModel m) = m"
  by (simp add: projectToModel_def projectFromModel_def or_blank_def or_undefined_def)

lemma found_project: "List.find P xs = Some x \<Longrightarrow> x \<in> set xs \<and> P x"
  by (auto simp: find_Some_iff)

lemma restored_or_first_mem: "act \<noteq> [] \<Longrightarrow> \<exists>p\<in>set act. restored_or_first a act = Some p"
  by (auto simp: restored_or_first_def neq_Nil_conv dest!: found_project split: option.split)

lemma next_current_valid:
  "(next_current prev a act = None \<longleftrightarrow> act = []) \<and>
   (\<forall>p. next_current prev a act = Some p \<longrightarrow> pr_id p \<in> pr_id ` set act)"
proof (cases "act = []")
  case False
  then obtain q where "q \<in> set act" "restored_or_first a act = Some q" using restored_or_first_mem by blast
  with False show ?thesis by (auto simp: next_current_def list_ex_iff split: option.split) (metis imageI)
qed (auto simp: next_current_def split: option.split)

text \<open>C25. A load that succeeds leaves a current project that exists.  There is one exactly if there are active projects, it
  is one of them by its identifier, and its alias is the one remembered for the next start; the project left is kept
  if it is still active, and the remembered one is restored if none was chosen.\<close>

theorem loadProjects_current:
  assumes "t = loadProjects_done (Inr (ms, archived)) s" "act = projectsFromModels ms"
  shows "(ps_current t = None \<longleftrightarrow> act = []) \<and>
    (\<forall>p. ps_current t = Some p \<longrightarrow> pr_id p \<in> pr_id ` set act \<and> ps_lastAlias t = or_undefined (pr_alias p)) \<and>
    (\<forall>c. ps_current s = Some c \<and> pr_id c \<in> pr_id ` set act \<longrightarrow> ps_current t = Some c) \<and>
    (\<forall>p. ps_current s = None \<and> ps_lastAlias s = Some (pr_alias p) \<and> pr_alias p \<noteq> [] \<and> p \<in> set act \<longrightarrow>
       map_option pr_alias (ps_current t) = Some (pr_alias p)) \<and>
    ps_projects t = act \<and> \<not> ps_loading t \<and> ps_loadError t = None"
proof -
  have cur: "ps_current t = next_current (ps_current s) (ps_lastAlias s) act"
    and al: "\<forall>p. ps_current t = Some p \<longrightarrow> ps_lastAlias t = or_undefined (pr_alias p)"
    using assms by (auto simp: loadProjects_done_def Let_def write_of_def writeLastProjectAlias_def)
  have kept: "ps_current t = Some c" if "ps_current s = Some c" "pr_id c \<in> pr_id ` set act" for c
    using that cur by (auto simp: next_current_def list_ex_iff)
  have restored: "map_option pr_alias (ps_current t) = Some (pr_alias p)"
    if "ps_current s = None" "ps_lastAlias s = Some (pr_alias p)" "pr_alias p \<noteq> []" "p \<in> set act" for p
  proof -
    from that(4) obtain q where "List.find (\<lambda>x. pr_alias x = pr_alias p) act = Some q"
      by (cases "List.find (\<lambda>x. pr_alias x = pr_alias p) act") (auto simp: find_None_iff)
    moreover from this have "pr_alias q = pr_alias p" by (auto dest: found_project)
    ultimately show ?thesis using that cur by (auto simp: next_current_def restored_or_first_def)
  qed
  have "ps_projects t = act \<and> \<not> ps_loading t \<and> ps_loadError t = None"
    using assms by (simp add: loadProjects_done_def Let_def)
  with next_current_valid [of "ps_current s" "ps_lastAlias s" act] cur al kept restored show ?thesis by auto
qed

text \<open>The current project is not refreshed, and the previous one is not checked: after a load that brings the current
  project with a new name the store still has the old one, and switching back makes a project current that the same
  load no longer lists.\<close>

lemma current_keeps_old_name:
  assumes "ps_current s = Some c" "Some m \<in> set ms" "pm_id m = pr_id c"
  shows "ps_current (loadProjects_done (Inr (ms, archived)) s) = Some c"
proof -
  have "projectFromModel m \<in> set (projectsFromModels ms)"
    using assms(2) by (auto simp: projectsFromModels_def map_filter_def intro!: image_eqI [of _ _ "Some m"])
  then have "list_ex (\<lambda>p. pr_id p = pr_id c) (projectsFromModels ms)"
    using assms(3) by (auto simp: list_ex_iff projectFromModel_def intro!: bexI [of _ "projectFromModel m"])
  with assms(1) show ?thesis by (simp add: loadProjects_done_def next_current_def Let_def)
qed

lemma switch_back_unchecked:
  assumes "ps_previous s = Some p"
  shows "ps_current (switchToLastProject (loadProjects_done (Inr (ms, archived)) s)) = Some p"
proof -
  have "ps_previous (loadProjects_done (Inr (ms, archived)) s) = Some p"
    using assms by (simp add: loadProjects_done_def Let_def write_of_def writeLastProjectAlias_def split: option.split)
  then show ?thesis by (simp add: switchToLastProject_def)
qed

lemma switch_twice:
  "ps_current s = Some c \<Longrightarrow> ps_previous s = Some p \<Longrightarrow> switchToLastProject (switchToLastProject s) = s"
  by (simp add: switchToLastProject_def)

section \<open>Lemmas on sorting\<close>

lemma mset_js_insert: "mset (js_insert cmp x ys) = {#x#} + mset ys"
  by (induction ys) auto

lemma mset_js_sort: "mset (js_sort cmp xs) = mset xs"
  by (induction xs) (simp_all add: js_sort_def mset_js_insert)

lemma set_js_insert: "set (js_insert cmp x ys) = insert x (set ys)"
  by (induction ys) auto

lemma sorted_js_insert:
  assumes total: "\<And>a b. cmp a b \<le> 0 \<or> cmp b a \<le> 0"
    and trans: "\<And>a b c. cmp a b \<le> 0 \<Longrightarrow> cmp b c \<le> 0 \<Longrightarrow> cmp a c \<le> 0"
  shows "sorted_wrt (\<lambda>a b. cmp a b \<le> 0) ys \<Longrightarrow> sorted_wrt (\<lambda>a b. cmp a b \<le> 0) (js_insert cmp x ys)"
proof (induction ys)
  case (Cons y ys)
  then show ?case using total [of x y] trans [of x y] by (auto simp: set_js_insert)
qed simp

lemma sorted_js_sort:
  assumes "\<And>a b. cmp a b \<le> 0 \<or> cmp b a \<le> 0" "\<And>a b c. cmp a b \<le> 0 \<Longrightarrow> cmp b c \<le> 0 \<Longrightarrow> cmp a c \<le> 0"
  shows "sorted_wrt (\<lambda>a b. cmp a b \<le> 0) (js_sort cmp xs)"
  by (induction xs) (simp_all add: js_sort_def sorted_js_insert [OF assms])

lemma compare_projects_total: "compare_projects col tm c a b \<le> 0 \<or> compare_projects col tm c b a \<le> 0"
  by (cases "ps_field c") (auto simp: compare_projects_def Let_def)

lemma compare_projects_trans:
  "compare_projects col tm c x y \<le> 0 \<Longrightarrow> compare_projects col tm c y z \<le> 0 \<Longrightarrow> compare_projects col tm c x z \<le> 0"
  by (cases "ps_field c") (auto simp: compare_projects_def Let_def split: if_splits)

text \<open>The rows are sorted.  The sort keeps every row, its comparison is a total preorder, so neighbours and all other
  pairs are in order; sorted by the last entry, the projects without one come last in both directions.\<close>

theorem sortExtendedProjects_correct:
  "mset (sortExtendedProjects col tm c rows) = mset rows \<and>
   sorted_wrt (\<lambda>a b. compare_projects col tm c a b \<le> 0) (sortExtendedProjects col tm c rows) \<and>
   (ps_field c = By_lastEntry \<longrightarrow> sorted_wrt (\<lambda>a b. last_missing a \<longrightarrow> last_missing b) (sortExtendedProjects col tm c rows))"
proof -
  have s: "sorted_wrt (\<lambda>a b. compare_projects col tm c a b \<le> 0) (sortExtendedProjects col tm c rows)"
    unfolding sortExtendedProjects_def by (rule sorted_js_sort [OF compare_projects_total compare_projects_trans])
  moreover have "sorted_wrt (\<lambda>a b. last_missing a \<longrightarrow> last_missing b) (sortExtendedProjects col tm c rows)"
    if "ps_field c = By_lastEntry"
    by (rule sorted_wrt_mono_rel [OF _ s]) (use that in \<open>auto simp: compare_projects_def Let_def split: if_splits\<close>)
  ultimately show ?thesis by (simp add: sortExtendedProjects_def mset_js_sort)
qed

section \<open>The page on top of the command line\<close>

text \<open>The page connected to the command line: every command is answered by it, and the service calls of a page are those
  of the commands it sent.\<close>

definition connected :: "page_backend \<Rightarrow> (string \<Rightarrow> project_result \<times> service_call list) \<Rightarrow> project_services \<Rightarrow> bool" where
  "connected be hn sv \<longleftrightarrow> (\<forall>c. pb_parse be c = Inr (Some (fst (Parse_project hn sv c))))"

fun effect_calls :: "(string \<Rightarrow> project_result \<times> service_call list) \<Rightarrow> project_services \<Rightarrow> page_effect \<Rightarrow> service_call list" where
  "effect_calls hn sv (Sent c) = snd (Parse_project hn sv c)"
| "effect_calls hn sv _ = []"

definition service_calls :: "(string \<Rightarrow> project_result \<times> service_call list) \<Rightarrow> project_services \<Rightarrow> projects_page \<Rightarrow> service_call list" where
  "service_calls hn sv s = concat (map (effect_calls hn sv) (pg_effects s))"

lemma service_calls_note: "service_calls hn sv (note_effect e s) = service_calls hn sv s @ effect_calls hn sv e"
  by (simp add: service_calls_def note_effect_def)

lemma service_calls_cong: "pg_effects t = pg_effects s \<Longrightarrow> service_calls hn sv t = service_calls hn sv s"
  by (simp add: service_calls_def)

lemma load_effects: "pg_effects (loadProjects_done a (loadProjects s)) = pg_effects s"
  by (auto simp: loadProjects_done_def loadProjects_def write_of_def writeLastProjectAlias_def Let_def
      split: sum.split option.split prod.split)

lemma current_effect_effects: "pg_effects (current_effect b s) = pg_effects s"
  by (auto simp: current_effect_def Let_def split: option.split list.split)

lemma fetch_calls: "service_calls hn sv (fetchDocumentData be s) = service_calls hn sv s"
proof (cases "pb_data be")
  case (Inr r)
  then show ?thesis by (cases r) (simp add: fetchDocumentData_def service_calls_def)
qed (simp add: fetchDocumentData_def service_calls_note)

lemma reload_calls: "service_calls hn sv (reload_page be s) = service_calls hn sv s"
proof -
  let ?t = "current_effect (ps_current s) (loadProjects_done (pb_lists be) (loadProjects s))"
  have "service_calls hn sv ?t = service_calls hn sv s"
    by (rule service_calls_cong) (simp add: current_effect_effects load_effects)
  then show ?thesis by (cases "pb_lists be") (simp_all add: reload_page_def Let_def fetch_calls)
qed

lemma applyResult_calls: "service_calls hn sv (applyResult be r s) = service_calls hn sv s"
proof -
  have sel: "service_calls hn sv (t\<lparr>pg_selected := i\<rparr>) = service_calls hn sv t" for t i by (simp add: service_calls_def)
  show ?thesis
    by (auto simp: applyResult_def Let_def service_calls_note sel fetch_calls reload_calls split: option.split)
qed

lemma execute_sends:
  assumes "connected be hn sv" "hardForceMatch cmd = None"
  shows "service_calls hn sv (executeProjectCommand be cmd s) = service_calls hn sv s @ snd (Parse_project hn sv cmd)"
proof -
  have dlg: "service_calls hn sv (t\<lparr>pg_dialog := d\<rparr>) = service_calls hn sv t" for t d by (simp add: service_calls_def)
  show ?thesis using assms
    by (auto simp: executeProjectCommand_def connected_def Let_def service_calls_note applyResult_calls dlg split: option.split)
qed

lemma confirm_sends:
  assumes "connected be hn sv" "pdl_open (pg_dialog s)" "pdl_command (pg_dialog s) = Some cmd" "canConfirm (pg_dialog s) i ch"
  shows "service_calls hn sv (confirm_page be i ch s) = service_calls hn sv s @ snd (Parse_project hn sv cmd)"
proof -
  have dlg: "service_calls hn sv (t\<lparr>pg_dialog := d\<rparr>) = service_calls hn sv t" for t d by (simp add: service_calls_def)
  show ?thesis using assms by (simp add: confirm_page_def connected_def Let_def service_calls_note applyResult_calls dlg)
qed

lemma row_not_forced:
  assumes "list_all is_alias_char w"
  shows "hardForceMatch (row_command act (CHR ''@'' # w)) = None"
proof -
  have sp: "is_space (CHR '' '')" "\<not> is_space (CHR ''@'')" "\<not> is_space (CHR ''-'')" "\<not> is_alias_char (CHR '' '')" by code_simp+
  have d: "takeWhile is_alias_char w = w" "dropWhile is_alias_char w = []"
    "dropWhile is_alias_char (w @ '' --hard'') = '' --hard''"
    using assms sp by (simp_all add: list_all_iff dropWhile_append)
  show ?thesis
    by (cases act) (simp_all add: hardForceMatch_def after_word_def js_spaces_def Let_def sp d del: takeWhile_eq_all_conv dropWhile_eq_Nil_conv)
qed

section \<open>What the actions of a row do\<close>

abbreviation plain_alias :: "string \<Rightarrow> string \<Rightarrow> bool" where
  "plain_alias a w \<equiv> a = CHR ''@'' # w \<and> w \<noteq> [] \<and> list_all is_word_char w"

lemma word_char_facts: "is_word_char c \<Longrightarrow> \<not> go_white c \<and> is_alias_char c"
  by (auto simp: is_word_char_def is_alias_char_def is_digit_def is_space_def)

lemma word_last: "plain_alias a w \<Longrightarrow> \<not> go_white (last a)"
  using word_char_facts last_in_set by (fastforce simp: list_all_iff)

lemma plain_white: "\<not> go_white (CHR ''a'')" "\<not> go_white (CHR ''d'')" "\<not> go_white (CHR ''e'')" "\<not> go_white (CHR ''r'')" "\<not> go_white (CHR ''u'')"
  by code_simp+

lemma trimmed_rows:
  assumes "plain_alias a w"
  shows "TrimSpace (row_command act a) = row_command act a" "TrimSpace (''archive '' @ a @ '' --force'') = ''archive '' @ a @ '' --force''"
    "TrimSpace (''delete '' @ a @ '' --force'') = ''delete '' @ a @ '' --force''"
    "TrimSpace (''delete '' @ a @ '' --force --hard'') = ''delete '' @ a @ '' --force --hard''"
  using word_last [OF assms] assms plain_white by (cases act; intro TrimSpace_id; simp)+

text \<open>How the command line reads the commands of a row with such an alias.\<close>

lemma row_dispatch:
  assumes "plain_alias a w"
  shows "dispatch_project (row_command RowArchive a) = Some (Cmd_archive a)"
    "dispatch_project (row_command RowRestore a) = Some (Cmd_unarchive a)"
    "dispatch_project (row_command RowDelete a) = Some (Cmd_delete a)"
    "dispatch_project (row_command RowHardDelete a) = Some (Cmd_delete_flags a)"
    "dispatch_project (''archive '' @ a @ '' --force'') = Some (Cmd_archive_force a)"
    "dispatch_project (''delete '' @ a @ '' --force'') = Some (Cmd_delete_flags a)"
    "dispatch_project (''delete '' @ a @ '' --force --hard'') = Some (Cmd_delete_flags a)"
proof -
  have w: "w \<noteq> []" "list_all is_word_char w" and a: "a = CHR ''@'' # w" using assms by auto
  have sp: "after_spaces '' --force'' = Some ''--force''" "after_spaces [] = None" by code_simp+
  note ws = go_space_chars(5)
  show "dispatch_project (row_command RowArchive a) = Some (Cmd_archive a)"
    using dispatch_archive [OF w, of "[]"] by (simp add: a sp)
  show "dispatch_project (row_command RowRestore a) = Some (Cmd_unarchive a)"
    using dispatch_unarchive [OF w] by (simp add: a)
  show "dispatch_project (row_command RowDelete a) = Some (Cmd_delete a)"
    using dispatch_delete [OF w, of "[]"] by (simp add: a)
  show "dispatch_project (row_command RowHardDelete a) = Some (Cmd_delete_flags a)"
    using dispatch_delete [OF w, of "'' --hard''"] flag_runs ws by (simp add: a)
  show "dispatch_project (''archive '' @ a @ '' --force'') = Some (Cmd_archive_force a)"
    using dispatch_archive [OF w, of "'' --force''"] ws sp by (simp add: a)
  show "dispatch_project (''delete '' @ a @ '' --force'') = Some (Cmd_delete_flags a)"
    using dispatch_delete [OF w, of "'' --force''"] flag_runs ws by (simp add: a)
  show "dispatch_project (''delete '' @ a @ '' --force --hard'') = Some (Cmd_delete_flags a)"
    using dispatch_delete [OF w, of "'' --force --hard''"] flag_runs ws by (simp add: a)
qed

lemma includes_skip: "c \<notin> set x \<Longrightarrow> str_includes (x @ y) (c # p) = str_includes y (c # p)"
  by (induction x) (auto simp: str_includes_def)

lemma row_flags:
  assumes "plain_alias a w"
  shows "str_includes (''delete '' @ a @ '' --hard'') ''--hard''" "\<not> str_includes (''delete '' @ a @ '' --hard'') ''--force''"
    "str_includes (''delete '' @ a @ '' --force'') ''--force''" "\<not> str_includes (''delete '' @ a @ '' --force'') ''--hard''"
    "str_includes (''delete '' @ a @ '' --force --hard'') ''--force''" "str_includes (''delete '' @ a @ '' --force --hard'') ''--hard''"
proof -
  have "CHR ''-'' \<notin> set w" using assms go_space_chars(4) by (auto simp: list_all_iff)
  then have "CHR ''-'' \<notin> set (''delete '' @ a)" using assms by simp
  from includes_skip [OF this]
  have skip: "str_includes (''delete '' @ a @ y) (CHR ''-'' # p) = str_includes y (CHR ''-'' # p)" for y p
    by simp
  show "str_includes (''delete '' @ a @ '' --hard'') ''--hard''" "\<not> str_includes (''delete '' @ a @ '' --hard'') ''--force''"
    "str_includes (''delete '' @ a @ '' --force'') ''--force''" "\<not> str_includes (''delete '' @ a @ '' --force'') ''--hard''"
    "str_includes (''delete '' @ a @ '' --force --hard'') ''--force''" "str_includes (''delete '' @ a @ '' --force --hard'') ''--hard''"
    unfolding skip by code_simp+
qed

text \<open>The confirmation command of an action, and the service calls it stands for.\<close>

fun confirm_line :: "row_action \<Rightarrow> string \<Rightarrow> string" where
  "confirm_line RowArchive a = ''archive '' @ a @ '' --force''"
| "confirm_line RowDelete a = ''delete '' @ a @ '' --force''"
| "confirm_line RowHardDelete a = ''delete '' @ a @ '' --force --hard''"
| "confirm_line RowRestore a = []"

fun expected_calls :: "row_action \<Rightarrow> project_model \<Rightarrow> service_call list" where
  "expected_calls RowArchive p = [SoftDeleteProject (pm_id p)]"
| "expected_calls RowDelete p = [SoftDeleteDocuments (pm_alias p), SoftDeleteProject (pm_id p)]"
| "expected_calls RowHardDelete p = [HardDeleteDocuments (pm_alias p), HardDeleteProject (pm_id p), DeleteProjectDir (pm_alias p)]"
| "expected_calls RowRestore p = [RestoreProject (pm_id p)]"

definition healthy :: "project_services \<Rightarrow> bool" where
  "healthy sv \<longleftrightarrow> (\<forall>c. sv_call sv c = None) \<and> (\<forall>i. \<exists>n. sv_count sv i = Inr n)"

lemma perform_healthy: "healthy sv \<Longrightarrow> perform sv cs r = (r, cs)"
proof -
  assume h: "healthy sv"
  then have "run_calls_until sv cs = (cs, None)" by (induction cs) (simp_all add: healthy_def)
  then show ?thesis by (simp add: perform_def)
qed

lemma Parse_row_asks:
  assumes "plain_alias a w" "healthy sv" "sv_active sv = Inr ps" "by_alias a ps = Some p" "act \<noteq> RowRestore"
  shows "\<exists>msg fl. Parse_project hn sv (row_command act a) = (done_with msg (ask_data p a fl (confirm_line act a)), []) \<and>
    (act = RowHardDelete \<longleftrightarrow> ''--hard'' \<in> set fl)"
proof -
  obtain n where n: "sv_count sv (pm_id p) = Inr n" using assms(2) by (auto simp: healthy_def)
  have found: "findProjectByAlias sv a = Inr (Some (p, False))" using assms(3,4) by (simp add: findProjectByAlias_def)
  have ne: "row_command act a \<noteq> []" by (cases act) simp_all
  show ?thesis
  proof (cases act)
    case RowArchive
    with ne show ?thesis using row_dispatch(1) [OF assms(1)] trimmed_rows(1) [OF assms(1), of act] assms(3,4) n
      by (simp add: Parse_project_def handleArchive_def Let_def del: row_command.simps) (auto simp: done_with_def ask_data_def)
  next
    case RowDelete
    with ne show ?thesis using row_dispatch(3) [OF assms(1)] trimmed_rows(1) [OF assms(1), of act] found n
      by (simp add: Parse_project_def handleDelete_def Let_def del: row_command.simps) (auto simp: done_with_def ask_data_def)
  next
    case RowHardDelete
    with ne row_flags(1,2) [OF assms(1)] show ?thesis
      using row_dispatch(4) [OF assms(1)] trimmed_rows(1) [OF assms(1), of act] found n
      by (simp add: Parse_project_def handleDeleteWithFlags_def ask_hard_def Let_def) (auto simp: done_with_def ask_data_def)
  qed (use assms(5) in simp)
qed

lemma Parse_confirmed:
  assumes "plain_alias a w" "healthy sv" "sv_active sv = Inr ps" "by_alias a ps = Some p" "act \<noteq> RowRestore"
  shows "snd (Parse_project hn sv (confirm_line act a)) = expected_calls act p"
proof -
  obtain n where n: "sv_count sv (pm_id p) = Inr n" using assms(2) by (auto simp: healthy_def)
  have found: "findProjectByAlias sv a = Inr (Some (p, False))" using assms(3,4) by (simp add: findProjectByAlias_def)
  note simps = Parse_project_def Let_def perform_healthy [OF assms(2)]
  show ?thesis
  proof (cases act)
    case RowArchive
    then show ?thesis using row_dispatch(5) [OF assms(1)] trimmed_rows(2) [OF assms(1)] assms(3,4)
      by (simp add: simps handleArchiveForce_def)
  next
    case RowDelete
    with row_flags(3,4) [OF assms(1)] show ?thesis using row_dispatch(6) [OF assms(1)] trimmed_rows(3) [OF assms(1)] found n
      by (simp add: simps handleDeleteWithFlags_def softDeleteProject_def)
  next
    case RowHardDelete
    with row_flags(5,6) [OF assms(1)] show ?thesis using row_dispatch(7) [OF assms(1)] trimmed_rows(4) [OF assms(1)] found
      by (simp add: simps handleDeleteWithFlags_def)
  qed (use assms(5) in simp)
qed

lemma row_line:
  "row_command RowArchive a = ''archive'' @ CHR '' '' # a" "row_command RowRestore a = ''unarchive'' @ CHR '' '' # a"
  "row_command RowDelete a = ''delete'' @ CHR '' '' # a" "row_command RowHardDelete a = ''delete'' @ CHR '' '' # a @ '' --hard''"
  by simp_all

lemma confirm_project_fields:
  "pdl_open (confirm_project c r d s)" "pdl_command (confirm_project c r d s) = Some (pd_command d)"
  "pdl_input (confirm_project c r d s) =
     (if \<not> startsWith c ''archive '' \<and> startsWith c ''delete '' \<and> ''--hard'' \<in> set (pd_flags d)
      then Some (if pd_alias d \<noteq> [] then pd_alias d else pm_alias (pd_project d)) else None)"
  "pdl_checkbox (confirm_project c r d s) =
     (\<not> startsWith c ''archive '' \<and> startsWith c ''delete '' \<and> ''--hard'' \<in> set (pd_flags d))"
  by (simp_all add: confirm_project_def Let_def)

lemma row_words:
  "startsWith (row_command act a) ''archive '' \<longleftrightarrow> act = RowArchive"
  "startsWith (row_command act a) ''delete '' \<longleftrightarrow> act = RowDelete \<or> act = RowHardDelete"
  by (cases act; simp)+

text \<open>C11. The actions on a project do what their dialogs say.  For an active project whose alias has only letters, digits
  and underscores, archive, delete and permanent delete first ask and change nothing; confirmed, they make exactly the
  service calls for that project, and permanent deletion can only be confirmed by typing the alias and ticking the box.\<close>

theorem project_actions_confirmed:
  assumes "plain_alias a w" "connected be hn sv" "healthy sv" "sv_active sv = Inr ps" "by_alias a ps = Some p" "act \<noteq> RowRestore"
    and "t = executeProjectCommand be (row_command act a) s"
  shows "pdl_open (pg_dialog t) \<and> service_calls hn sv t = service_calls hn sv s \<and>
    (\<forall>i ch. canConfirm (pg_dialog t) i ch \<longleftrightarrow> (act = RowHardDelete \<longrightarrow> i = a \<and> ch)) \<and>
    (\<forall>i ch. service_calls hn sv (confirm_page be i ch t) =
       service_calls hn sv s @ (if canConfirm (pg_dialog t) i ch then expected_calls act p else []))"
proof -
  obtain msg fl where parse: "Parse_project hn sv (row_command act a) = (done_with msg (ask_data p a fl (confirm_line act a)), [])"
    and fl: "act = RowHardDelete \<longleftrightarrow> ''--hard'' \<in> set fl"
    using Parse_row_asks [OF assms(1,3-6)] by blast
  have nf: "hardForceMatch (row_command act a) = None"
    using row_not_forced [of w act] assms(1) word_char_facts by (auto simp: list_all_iff)
  have ne: "confirm_line act a \<noteq> []" "a \<noteq> []" using assms(1,6) by (cases act; simp)+
  define d where "d = \<lparr>pd_project = p, pd_alias = a, pd_flags = fl, pd_requires = True, pd_command = confirm_line act a\<rparr>"
  have "\<exists>r u. pg_dialog t = confirm_project (row_command act a) r d u"
    using assms(2,7) nf parse ne
    by (auto simp: executeProjectCommand_def connected_def Let_def done_with_def ask_data_def d_def)
  then obtain r u where dlg: "pg_dialog t = confirm_project (row_command act a) r d u" by blast
  have open_dlg: "pdl_open (pg_dialog t)" "pdl_command (pg_dialog t) = Some (confirm_line act a)"
    by (simp_all add: dlg confirm_project_fields d_def)
  have can: "canConfirm (pg_dialog t) i ch \<longleftrightarrow> (act = RowHardDelete \<longrightarrow> i = a \<and> ch)" for i ch
    using fl ne(2) by (cases act) (simp_all add: canConfirm_def dlg confirm_project_fields row_words d_def del: row_command.simps)
  have sent: "service_calls hn sv t = service_calls hn sv s" using execute_sends [OF assms(2) nf] parse assms(7) by simp
  have "service_calls hn sv (confirm_page be i ch t) =
      service_calls hn sv s @ (if canConfirm (pg_dialog t) i ch then expected_calls act p else [])" for i ch
    using confirm_sends [OF assms(2) open_dlg] Parse_confirmed [OF assms(1,3-6)] sent open_dlg(2)
    by (cases "canConfirm (pg_dialog t) i ch") (simp_all add: confirm_page_def)
  with open_dlg(1) can sent show ?thesis by blast
qed

lemma load_dialog: "pg_dialog (loadProjects_done a (loadProjects s)) = pg_dialog s"
  by (auto simp: loadProjects_done_def loadProjects_def write_of_def writeLastProjectAlias_def Let_def
      split: sum.split option.split prod.split)

lemma current_effect_dialog: "pg_dialog (current_effect b s) = pg_dialog s"
  by (auto simp: current_effect_def Let_def split: option.split list.split)

lemma fetch_dialog: "pg_dialog (fetchDocumentData be s) = pg_dialog s"
proof (cases "pb_data be")
  case (Inr r)
  then show ?thesis by (cases r) (simp add: fetchDocumentData_def)
qed (simp add: fetchDocumentData_def note_effect_def)

lemma reload_dialog: "pg_dialog (reload_page be s) = pg_dialog s"
  by (cases "pb_lists be") (simp_all add: reload_page_def Let_def fetch_dialog current_effect_dialog load_dialog)

lemma applyResult_dialog: "pg_dialog (applyResult be r s) = pg_dialog s"
  by (auto simp: applyResult_def Let_def note_effect_def fetch_dialog reload_dialog split: option.split)

lemma applyResult_last:
  "res_success r \<Longrightarrow> res_message r = m \<Longrightarrow> m \<noteq> [] \<Longrightarrow> last (pg_effects (applyResult be (Some r) s)) = Notified m"
  by (simp add: applyResult_def Let_def note_effect_def)


section \<open>Aliases with a hyphen\<close>

lemma slug_split:
  assumes "CHR ''-'' \<in> set (slug v)"
  shows "\<exists>x y. slug v = x @ CHR ''-'' # y \<and> list_all is_word_char x"
proof -
  obtain x y where xy: "slug v = x @ CHR ''-'' # y" "CHR ''-'' \<notin> set x" using split_list_first [OF assms] by blast
  have "is_word_char c" if "c \<in> set x" for c
    using slug_chars [of c v] that xy by (auto simp: is_slug_char_def is_word_char_def)
  then show ?thesis using xy(1) by (auto simp: list_all_iff)
qed

lemma slug_last: "slug v \<noteq> [] \<Longrightarrow> \<not> go_white (last (CHR ''@'' # slug v))"
  using slug_char_facts [OF slug_chars [OF last_in_set]] by simp

lemma alias_command_ends: "k \<in> set alias_commands \<Longrightarrow> k \<noteq> [] \<and> \<not> go_white (hd k)"
proof -
  have "list_all (\<lambda>k. k \<noteq> [] \<and> \<not> go_white (hd k)) alias_commands" by code_simp
  then show "k \<in> set alias_commands \<Longrightarrow> k \<noteq> [] \<and> \<not> go_white (hd k)" by (simp add: list_all_iff)
qed

lemma Parse_hyphen:
  assumes "CHR ''-'' \<in> set (slug v)" "k \<in> set alias_commands"
  shows "\<exists>msg. Parse_project hn sv (k @ CHR '' '' # suggestedAlias v @ rest) = (failed (''unknown command: '' @ msg), [])"
proof -
  have s: "suggestedAlias v = CHR ''@'' # slug v" by (simp add: suggestedAlias_def slug_def)
  have ne: "slug v \<noteq> []" using assms(1) by auto
  obtain x y where xy: "slug v = x @ CHR ''-'' # y" "list_all is_word_char x" using slug_split [OF assms(1)] by blast
  define line where "line = k @ CHR '' '' # suggestedAlias v"
  have "line \<noteq> []" "\<not> go_white (hd line)" "\<not> go_white (last line)"
    using alias_command_ends [OF assms(2)] slug_last [OF ne] by (auto simp: line_def s)
  then obtain r where r: "TrimSpace (line @ rest) = line @ r" using TrimSpace_prefix by blast
  have "dispatch_project (line @ r) = None"
    using dispatch_hyphen [OF xy(2) assms(2), of "y @ r"] by (simp add: line_def s xy(1))
  then show ?thesis using r \<open>line \<noteq> []\<close> by (auto simp: Parse_project_def Let_def line_def)
qed

text \<open>C22. A project whose alias has a hyphen cannot be managed.  The alias the dialog suggests for a name of several words
  has one; archive, restore, delete, permanent delete and rename of such a project are all answered as unknown
  commands: no dialog opens and no service is called.\<close>

theorem hyphen_alias_unmanageable:
  assumes "connected be hn sv" "CHR ''-'' \<in> set (slug v)"
  shows "(\<forall>act. \<exists>msg. executeProjectCommand be (row_command act (suggestedAlias v)) s =
      s\<lparr>pg_effects := pg_effects s @ [Sent (row_command act (suggestedAlias v)), Failed (''unknown command: '' @ msg)]\<rparr>) \<and>
    (\<forall>act. snd (Parse_project hn sv (row_command act (suggestedAlias v))) = []) \<and>
    (\<forall>n. snd (Parse_project hn sv (''rename '' @ suggestedAlias v @ '' '' @ n)) = [])"
proof -
  have s: "suggestedAlias v = CHR ''@'' # slug v" by (simp add: suggestedAlias_def slug_def)
  have parse: "\<exists>msg. Parse_project hn sv (row_command act (suggestedAlias v)) = (failed (''unknown command: '' @ msg), [])" for act
    using Parse_hyphen [OF assms(2), of "''archive''" hn sv "[]"] Parse_hyphen [OF assms(2), of "''unarchive''" hn sv "[]"]
      Parse_hyphen [OF assms(2), of "''delete''" hn sv "[]"] Parse_hyphen [OF assms(2), of "''delete''" hn sv "'' --hard''"]
    by (cases act) (simp_all add: alias_commands_def)
  have nf: "hardForceMatch (row_command act (suggestedAlias v)) = None" for act
    unfolding s using row_not_forced slug_chars slug_char_facts by (simp add: list_all_iff)
  have "\<exists>msg. executeProjectCommand be (row_command act (suggestedAlias v)) s =
      s\<lparr>pg_effects := pg_effects s @ [Sent (row_command act (suggestedAlias v)), Failed (''unknown command: '' @ msg)]\<rparr>" for act
  proof -
    obtain msg where "Parse_project hn sv (row_command act (suggestedAlias v)) = (failed (''unknown command: '' @ msg), [])"
      using parse by blast
    then have "executeProjectCommand be (row_command act (suggestedAlias v)) s =
        s\<lparr>pg_effects := pg_effects s @ [Sent (row_command act (suggestedAlias v)), Failed (''unknown command: '' @ msg)]\<rparr>"
      using nf [of act] assms(1) by (simp add: executeProjectCommand_def connected_def failed_def note_effect_def Let_def)
    then show ?thesis by blast
  qed
  moreover have "snd (Parse_project hn sv (''rename '' @ suggestedAlias v @ '' '' @ n)) = []" for n
    using Parse_hyphen [OF assms(2), of "''rename''" hn sv "'' '' @ n"] by (auto simp: alias_commands_def)
  ultimately show ?thesis using parse by (metis snd_conv)
qed

section \<open>Witnesses for projects\<close>

definition sample_model :: "string \<Rightarrow> string \<Rightarrow> project_model" where
  "sample_model i a = \<lparr>pm_id = i, pm_name = i, pm_alias = a, pm_start = [], pm_end = [], pm_created = [], pm_updated = [], pm_deleted = []\<rparr>"

definition sample_project_services :: project_services where
  "sample_project_services = \<lparr>sv_active = Inr [sample_model ''1'' ''@home''], sv_archived = Inr [sample_model ''2'' ''@old''],
     sv_count = (\<lambda>i. Inr 3), sv_call = (\<lambda>c. None)\<rparr>"

definition sample_handleNew :: "string \<Rightarrow> project_result \<times> service_call list" where
  "sample_handleNew s = (failed s, [])"

definition sample_page_backend :: page_backend where
  "sample_page_backend = \<lparr>pb_parse = (\<lambda>c. Inr (Some (fst (Parse_project sample_handleNew sample_project_services c)))),
     pb_lists = Inr ([Some (sample_model ''1'' ''@home'')], [Some (sample_model ''2'' ''@old'')]),
     pb_data = Inr ([], []), pb_create = (\<lambda>n a x y. Inr ''3'')\<rparr>"

definition sample_store :: project_store where
  "sample_store = \<lparr>ps_current = None, ps_previous = None, ps_projects = [], ps_archived = [], ps_loading = True,
     ps_loadError = None, ps_lastAlias = Some ''@home''\<rparr>"

definition sample_page :: projects_page where
  "sample_page = project_store.extend sample_store \<lparr>pg_selected = [], pg_counts = [], pg_dates = [],
     pg_dialog = \<lparr>pdl_open = False, pdl_title = [], pdl_message = [], pdl_input = None, pdl_checkbox = False, pdl_danger = False,
       pdl_command = None\<rparr>,
     pg_newOpen = False, pg_rename = None, pg_request = None, pg_effects = []\<rparr>"

lemma sample_connected: "connected sample_page_backend sample_handleNew sample_project_services" "healthy sample_project_services"
  by (simp_all add: connected_def sample_page_backend_def healthy_def sample_project_services_def)

lemma sample_word: "plain_alias ''@home'' ''home''" "plain_alias ''@old'' ''old''"
  by code_simp+

theorem loadProjects_current_witness:
  "map_option pr_alias (ps_current (loadProjects_done (Inr ([Some (sample_model ''0'' ''@zoo''), Some (sample_model ''1'' ''@home'')], [])) sample_store))
     = Some ''@home''"
proof -
  let ?ms = "[Some (sample_model ''0'' ''@zoo''), Some (sample_model ''1'' ''@home'')]"
  have m: "projectFromModel (sample_model ''1'' ''@home'') \<in> set (projectsFromModels ?ms)"
    by (simp add: projectsFromModels_def map_filter_def)
  have a: "pr_alias (projectFromModel (sample_model ''1'' ''@home'')) = ''@home''"
    by (simp add: projectFromModel_def sample_model_def)
  from loadProjects_current [OF refl refl, of ?ms "[]" sample_store] m a show ?thesis
    by (metis (no_types, lifting) sample_store_def project_store.select_convs(1,7) list.distinct(1))
qed

theorem sortExtendedProjects_correct_witness:
  "sorted_wrt (\<lambda>a b. last_missing a \<le> last_missing b)
     (sortExtendedProjects (\<lambda>s. 0) (\<lambda>s. 0) \<lparr>ps_field = By_lastEntry, ps_asc = False\<rparr>
       (map (\<lambda>d. \<lparr>row_project = projectFromModel (sample_model ''1'' ''@home''), row_entries = 0, row_last = d, row_archived = False\<rparr>)
          [''-'', ''2026-01-02'']))"
  using sortExtendedProjects_correct [of "\<lambda>s. 0" "\<lambda>s. 0" "\<lparr>ps_field = By_lastEntry, ps_asc = False\<rparr>"] by (simp add: le_bool_def)

theorem project_actions_confirmed_witness:
  "service_calls sample_handleNew sample_project_services (confirm_page sample_page_backend ''@home'' True
     (executeProjectCommand sample_page_backend (row_command RowHardDelete ''@home'') sample_page)) =
   [HardDeleteDocuments ''@home'', HardDeleteProject ''1'', DeleteProjectDir ''@home'']"
proof -
  have "sv_active sample_project_services = Inr [sample_model ''1'' ''@home'']"
    "by_alias ''@home'' [sample_model ''1'' ''@home''] = Some (sample_model ''1'' ''@home'')"
    by (simp_all add: sample_project_services_def by_alias_def sample_model_def)
  note act = project_actions_confirmed [OF sample_word(1) sample_connected this, of RowHardDelete, OF _ refl, of sample_page]
  let ?t = "executeProjectCommand sample_page_backend (row_command RowHardDelete ''@home'') sample_page"
  have "canConfirm (pg_dialog ?t) ''@home'' True" using act by blast
  moreover have "service_calls sample_handleNew sample_project_services (confirm_page sample_page_backend ''@home'' True ?t) =
      service_calls sample_handleNew sample_project_services sample_page @
      (if canConfirm (pg_dialog ?t) ''@home'' True then expected_calls RowHardDelete (sample_model ''1'' ''@home'') else [])"
    using act by blast
  moreover have "service_calls sample_handleNew sample_project_services sample_page = []"
    by (simp add: service_calls_def sample_page_def project_store.defs)
  moreover have "expected_calls RowHardDelete (sample_model ''1'' ''@home'') =
      [HardDeleteDocuments ''@home'', HardDeleteProject ''1'', DeleteProjectDir ''@home'']"
    by (simp add: sample_model_def)
  ultimately show ?thesis by (simp only: if_True append_Nil)
qed


theorem hyphen_alias_unmanageable_witness:
  "suggestedAlias ''My Notes'' = ''@my-notes'' \<and>
   snd (Parse_project sample_handleNew sample_project_services (row_command RowArchive ''@my-notes'')) = []"
proof -
  have a: "suggestedAlias ''My Notes'' = ''@my-notes''" and h: "CHR ''-'' \<in> set (slug ''My Notes'')" by code_simp+
  from hyphen_alias_unmanageable [OF sample_connected(1) h, unfolded a] a show ?thesis by blast
qed

end
