(* ===== verification/Dialogs.thy ===== *)
theory Dialogs
  imports Projects
begin

text \<open>
  The counter of open dialogs (\<open>shared/stores/dialog.store.ts\<close>), which switches the hotkeys off, and everything that
  counts in it: the command palette, the project switcher and the search finder (\<open>commandPalette.store.ts\<close>,
  \<open>projectSwitcher.store.ts\<close>, \<open>globalSearch.store.ts\<close>), the dialogs that are mounted with a page
  (\<open>shared/ui/ConfirmDialog.tsx\<close>, \<open>dashboard/components/MoveDocumentDialog.tsx\<close>) and the welcome overlay
  (\<open>onboarding/components/WelcomeOverlay.tsx\<close>).
\<close>

section \<open>Definitions\<close>

record dialogs =
  openCount :: nat
  paletteOpen :: bool
  switcherOpen :: bool
  finderOpen :: bool
  lastQuery :: string
  mountedDialogs :: "(nat, bool) jsmap"
  welcomeShown :: bool

definition openDialog_count :: "dialogs \<Rightarrow> dialogs" where
  "openDialog_count s = s\<lparr>openCount := openCount s + 1\<rparr>"

definition closeDialog_count :: "dialogs \<Rightarrow> dialogs" where
  "closeDialog_count s = s\<lparr>openCount := openCount s - 1\<rparr>"

definition isDialogOpen :: "dialogs \<Rightarrow> bool" where
  "isDialogOpen s \<longleftrightarrow> openCount s > 0"

definition palette_open :: "dialogs \<Rightarrow> dialogs" where
  "palette_open s = (openDialog_count s)\<lparr>paletteOpen := True\<rparr>"

definition palette_close :: "dialogs \<Rightarrow> dialogs" where
  "palette_close s = closeDialog_count (s\<lparr>paletteOpen := False\<rparr>)"

definition switcher_open :: "dialogs \<Rightarrow> dialogs" where
  "switcher_open s = (openDialog_count s)\<lparr>switcherOpen := True\<rparr>"

definition switcher_close :: "dialogs \<Rightarrow> dialogs" where
  "switcher_close s = closeDialog_count (s\<lparr>switcherOpen := False\<rparr>)"

definition switcher_toggle :: "dialogs \<Rightarrow> dialogs" where
  "switcher_toggle s = (if switcherOpen s then switcher_close s else switcher_open s)"

definition finder_open :: "dialogs \<Rightarrow> dialogs" where
  "finder_open s = (if finderOpen s then s else (openDialog_count s)\<lparr>finderOpen := True\<rparr>)"

definition finder_close :: "dialogs \<Rightarrow> dialogs" where
  "finder_close s = closeDialog_count (s\<lparr>finderOpen := False\<rparr>)"

definition finder_toggle :: "dialogs \<Rightarrow> dialogs" where
  "finder_toggle s = (if finderOpen s then finder_close s else finder_open s)"

definition palette_reset :: "dialogs \<Rightarrow> dialogs" where
  "palette_reset s = (if paletteOpen s then closeDialog_count s else s)\<lparr>paletteOpen := False\<rparr>"

definition switcher_reset :: "dialogs \<Rightarrow> dialogs" where
  "switcher_reset s = (if switcherOpen s then closeDialog_count s else s)\<lparr>switcherOpen := False\<rparr>"

definition finder_reset :: "dialogs \<Rightarrow> dialogs" where
  "finder_reset s = (if finderOpen s then closeDialog_count s else s)\<lparr>finderOpen := False, lastQuery := []\<rparr>"

definition setLastQuery :: "string \<Rightarrow> dialogs \<Rightarrow> dialogs" where
  "setLastQuery q s = s\<lparr>lastQuery := q\<rparr>"

text \<open>The effect of a mounted dialog on \<open>isOpen\<close>.  It runs on the first render and when \<open>isOpen\<close> changes, and the
  component has no clean-up that gives the count back.\<close>

definition dialog_effect :: "bool \<Rightarrow> dialogs \<Rightarrow> dialogs" where
  "dialog_effect b s = (if b then openDialog_count s else closeDialog_count s)"

definition dialog_mount :: "nat \<Rightarrow> bool \<Rightarrow> dialogs \<Rightarrow> dialogs" where
  "dialog_mount i b s = dialog_effect b (s\<lparr>mountedDialogs := map_set i b (mountedDialogs s)\<rparr>)"

definition dialog_change :: "nat \<Rightarrow> bool \<Rightarrow> dialogs \<Rightarrow> dialogs" where
  "dialog_change i b s =
     (if map_get (mountedDialogs s) i = Some (\<not> b)
      then dialog_effect b (s\<lparr>mountedDialogs := map_set i b (mountedDialogs s)\<rparr>) else s)"

definition dialog_unmount :: "nat \<Rightarrow> dialogs \<Rightarrow> dialogs" where
  "dialog_unmount i s = s\<lparr>mountedDialogs := map_delete i (mountedDialogs s)\<rparr>"

text \<open>The effect of the move dialog also depends on a preference: a change of it runs the effect again.\<close>

definition dialog_rerun :: "nat \<Rightarrow> dialogs \<Rightarrow> dialogs" where
  "dialog_rerun i s = (case map_get (mountedDialogs s) i of Some b \<Rightarrow> dialog_effect b s | None \<Rightarrow> s)"

definition welcome_show :: "dialogs \<Rightarrow> dialogs" where
  "welcome_show s = (if welcomeShown s then s else openDialog_count (s\<lparr>welcomeShown := True\<rparr>))"

definition handleDismiss :: "dialogs \<Rightarrow> dialogs" where
  "handleDismiss s = closeDialog_count (s\<lparr>welcomeShown := False\<rparr>)"

definition no_dialogs :: dialogs where
  "no_dialogs = \<lparr>openCount = 0, paletteOpen = False, switcherOpen = False, finderOpen = False, lastQuery = [],
     mountedDialogs = [], welcomeShown = False\<rparr>"

text \<open>Choosing a project in the switcher.\<close>

definition switcher_select :: "string \<Rightarrow> project_store \<Rightarrow> dialogs \<Rightarrow> project_store \<times> dialogs" where
  "switcher_select i ps s =
     (case List.find (\<lambda>p. pr_id p = i) (ps_projects ps) of
        Some p \<Rightarrow> (if Some (pr_id p) \<noteq> map_option pr_id (ps_current ps) then setCurrentProject (Some p) ps else ps, switcher_close s)
      | None \<Rightarrow> (ps, switcher_close s))"

section \<open>The move dialog\<close>

record move_dialog =
  filterQuery :: string
  mv_index :: int
  isMoving :: bool
  mv_error :: "string option"

definition open_move :: "move_dialog \<Rightarrow> move_dialog" where
  "open_move d = d\<lparr>filterQuery := [], mv_index := 0, mv_error := None\<rparr>"

definition filteredProjects :: "project list \<Rightarrow> string \<Rightarrow> string \<Rightarrow> project list" where
  "filteredProjects projects currentAlias q =
     filter (\<lambda>p. pr_alias p \<noteq> currentAlias \<and>
       (str_includes (toLowerCase (pr_name p)) (toLowerCase q) \<or> str_includes (toLowerCase (pr_alias p)) (toLowerCase q))) projects"

definition setFilterQuery :: "string \<Rightarrow> move_dialog \<Rightarrow> move_dialog" where
  "setFilterQuery q d = (if q = filterQuery d then d else d\<lparr>filterQuery := q, mv_index := 0\<rparr>)"

definition move_down :: "project list \<Rightarrow> move_dialog \<Rightarrow> move_dialog" where
  "move_down ps d = d\<lparr>mv_index := min (mv_index d + 1) (int (length ps) - 1)\<rparr>"

definition move_up :: "move_dialog \<Rightarrow> move_dialog" where
  "move_up d = d\<lparr>mv_index := max (mv_index d - 1) 0\<rparr>"

text \<open>The loop over the documents; it gives the documents moved and the rejection that ended it.\<close>

fun move_loop :: "(string \<Rightarrow> string \<Rightarrow> rejection option) \<Rightarrow> string \<Rightarrow> string list \<Rightarrow> string list \<times> rejection option" where
  "move_loop mv a [] = ([], None)"
| "move_loop mv a (p # ps) =
     (case mv p a of Some err \<Rightarrow> ([], Some err) | None \<Rightarrow> let (ms, e) = move_loop mv a ps in (p # ms, e))"

text \<open>The dialog after a move, the documents moved with their target, and whether \<open>onMoved\<close> and \<open>onClose\<close> are called.\<close>

definition handleMove ::
  "(string \<Rightarrow> string \<Rightarrow> rejection option) \<Rightarrow> string list \<Rightarrow> project \<Rightarrow> move_dialog \<Rightarrow> move_dialog \<times> (string \<times> string) list \<times> bool" where
  "handleMove mv paths p d =
     (if isMoving d then (d, [], False)
      else
        let (ms, e) = move_loop mv (pr_alias p) paths; moved = map (\<lambda>m. (m, pr_alias p)) ms
        in case e of
             None \<Rightarrow> (d\<lparr>mv_error := None\<rparr>, moved, True)
           | Some err \<Rightarrow> (d\<lparr>mv_error := Some (err_message err ''Failed to move document'')\<rparr>, moved, False))"

definition move_enter ::
  "(string \<Rightarrow> string \<Rightarrow> rejection option) \<Rightarrow> project list \<Rightarrow> string list \<Rightarrow> move_dialog \<Rightarrow> move_dialog \<times> (string \<times> string) list \<times> bool" where
  "move_enter mv ps paths d =
     (if 0 \<le> mv_index d \<and> mv_index d < int (length ps) then handleMove mv paths (ps ! nat (mv_index d)) d else (d, [], False))"

section \<open>The count\<close>

text \<open>What the counter is meant to hold.\<close>

definition open_total :: "dialogs \<Rightarrow> nat" where
  "open_total s = of_bool (paletteOpen s) + of_bool (switcherOpen s) + of_bool (finderOpen s) + of_bool (welcomeShown s)
     + length (filter snd (mountedDialogs s))"

text \<open>Histories in which an overlay is opened only while closed and closed only while open, a closed dialog is mounted
  only while nothing is open, and a dialog is unmounted only while closed.\<close>

inductive disciplined :: "dialogs \<Rightarrow> bool" where
  start: "disciplined no_dialogs"
| palette_on: "disciplined s \<Longrightarrow> \<not> paletteOpen s \<Longrightarrow> disciplined (palette_open s)"
| palette_off: "disciplined s \<Longrightarrow> paletteOpen s \<Longrightarrow> disciplined (palette_close s)"
| switcher: "disciplined s \<Longrightarrow> disciplined (switcher_toggle s)"
| finder_on: "disciplined s \<Longrightarrow> disciplined (finder_open s)"
| finder: "disciplined s \<Longrightarrow> disciplined (finder_toggle s)"
| query: "disciplined s \<Longrightarrow> disciplined (setLastQuery q s)"
| mount_open: "disciplined s \<Longrightarrow> \<not> map_has (mountedDialogs s) i \<Longrightarrow> disciplined (dialog_mount i True s)"
| mount_closed: "disciplined s \<Longrightarrow> \<not> map_has (mountedDialogs s) i \<Longrightarrow> open_total s = 0 \<Longrightarrow> disciplined (dialog_mount i False s)"
| change: "disciplined s \<Longrightarrow> disciplined (dialog_change i b s)"
| unmount: "disciplined s \<Longrightarrow> map_get (mountedDialogs s) i \<noteq> Some True \<Longrightarrow> disciplined (dialog_unmount i s)"
| greet: "disciplined s \<Longrightarrow> disciplined (welcome_show s)"
| greeted: "disciplined s \<Longrightarrow> welcomeShown s \<Longrightarrow> disciplined (handleDismiss s)"


lemmas dialog_defs = openDialog_count_def closeDialog_count_def palette_open_def palette_close_def palette_reset_def switcher_open_def
  switcher_close_def switcher_toggle_def switcher_reset_def finder_open_def finder_close_def finder_toggle_def
  finder_reset_def setLastQuery_def dialog_effect_def dialog_mount_def dialog_change_def dialog_unmount_def dialog_rerun_def
  welcome_show_def handleDismiss_def

lemma filter_update_new:
  "k \<notin> fst ` set m \<Longrightarrow> length (filter snd (AList.update k b m)) = length (filter snd m) + of_bool b"
  by (induction m) auto

lemma filter_update_old:
  "wf_map m \<Longrightarrow> map_of m k = Some c \<Longrightarrow>
     length (filter snd (AList.update k b m)) + of_bool c = length (filter snd m) + of_bool b"
  by (induction m) (auto simp: wf_map_def split: if_splits)

lemma filter_delete_closed:
  "wf_map m \<Longrightarrow> map_of m k \<noteq> Some True \<Longrightarrow> length (filter snd (AList.delete k m)) = length (filter snd m)"
proof (induction m)
  case (Cons p m)
  then show ?case
    by (cases p) (auto simp: wf_map_def split: if_splits)
qed simp

lemma filter_delete_open:
  "wf_map m \<Longrightarrow> map_of m k = Some True \<Longrightarrow> Suc (length (filter snd (AList.delete k m))) = length (filter snd m)"
  by (induction m) (auto simp: wf_map_def split: if_splits)

definition counted_right :: "dialogs \<Rightarrow> bool" where
  "counted_right s \<longleftrightarrow> wf_map (mountedDialogs s) \<and> openCount s = open_total s"

lemma disciplined_counted: "disciplined s \<Longrightarrow> counted_right s"
proof (induction rule: disciplined.induct)
  case (mount_open s i)
  then show ?case by (simp add: counted_right_def open_total_def dialog_defs map_has_iff filter_update_new)
next
  case (mount_closed s i)
  then show ?case by (simp add: counted_right_def open_total_def dialog_defs map_has_iff filter_update_new)
next
  case (change s i b)
  then show ?case
    using filter_update_old [of "mountedDialogs s" i "\<not> b" b]
    by (cases b) (auto simp: counted_right_def open_total_def dialog_defs)
next
  case (unmount s i)
  then show ?case by (simp add: counted_right_def open_total_def dialog_defs filter_delete_closed)
qed (auto simp: counted_right_def open_total_def dialog_defs no_dialogs_def)

text \<open>C28. The counter of open dialogs is right.  If overlays are opened and closed in turn, closed dialogs are mounted only
  while nothing is open, and dialogs are unmounted only while closed, the counter is the number of open overlays and
  dialogs, so the hotkeys are off exactly while something is open.\<close>

theorem dialog_count_right:
  assumes "disciplined s"
  shows "openCount s = open_total s \<and> (isDialogOpen s \<longleftrightarrow>
    paletteOpen s \<or> switcherOpen s \<or> finderOpen s \<or> welcomeShown s \<or> (\<exists>i. map_get (mountedDialogs s) i = Some True))"
proof -
  from disciplined_counted [OF assms] have wf: "wf_map (mountedDialogs s)" and n: "openCount s = open_total s"
    by (simp_all add: counted_right_def)
  have "0 < length (filter snd (mountedDialogs s)) \<longleftrightarrow> (\<exists>i. map_get (mountedDialogs s) i = Some True)"
    by (force simp: map_of_wf_set [OF wf] filter_empty_conv)
  with n show ?thesis by (auto simp: isDialogOpen_def open_total_def)
qed

text \<open>C29. The counter drifts otherwise.  A dialog that is unmounted while open leaves the counter raised for good, so with
  nothing open the hotkeys stay off; a closed dialog mounted while one overlay is open lowers the counter, so the
  hotkeys are on under that overlay; and a second opening of the palette is not undone by closing it.\<close>

theorem dialog_count_drifts:
  assumes "disciplined s"
  shows "(map_get (mountedDialogs s) i = Some True \<longrightarrow> openCount (dialog_unmount i s) = open_total (dialog_unmount i s) + 1) \<and>
    (\<not> map_has (mountedDialogs s) j \<and> open_total s = 1 \<longrightarrow>
       \<not> isDialogOpen (dialog_mount j False s) \<and> open_total (dialog_mount j False s) = 1) \<and>
    (paletteOpen s \<longrightarrow>
       openCount (palette_close (palette_open s)) = open_total (palette_close (palette_open s)) + 1)"
proof (intro conjI impI)
  from disciplined_counted [OF assms] have wf: "wf_map (mountedDialogs s)" and n: "openCount s = open_total s"
    by (simp_all add: counted_right_def)
  { assume "map_get (mountedDialogs s) i = Some True"
    with filter_delete_open [OF wf this] n
    show "openCount (dialog_unmount i s) = open_total (dialog_unmount i s) + 1" by (simp add: dialog_defs open_total_def) }
  { assume a: "\<not> map_has (mountedDialogs s) j \<and> open_total s = 1"
    with n show "\<not> isDialogOpen (dialog_mount j False s)" by (simp add: dialog_defs isDialogOpen_def)
    from a show "open_total (dialog_mount j False s) = 1"
      by (simp add: dialog_defs open_total_def map_has_iff filter_update_new) }
  { assume "paletteOpen s"
    with n show "openCount (palette_close (palette_open s)) = open_total (palette_close (palette_open s)) + 1"
      by (simp add: dialog_defs open_total_def) }
qed

section \<open>Moving documents\<close>

lemma move_loop_split:
  "move_loop mv a ps = (takeWhile (\<lambda>p. mv p a = None) ps,
     case dropWhile (\<lambda>p. mv p a = None) ps of [] \<Rightarrow> None | p # _ \<Rightarrow> mv p a)"
  by (induction ps) (auto split: option.split)

text \<open>Moving documents with the keyboard.  Enter moves documents only to a project of the list, never to the current one.
  The documents before the first rejected move are moved, in order; the dialog closes and the dashboard reloads only
  if there is none, else the dialog shows the message and stays.\<close>

theorem move_correct:
  assumes "ps = filteredProjects projects current (filterQuery d)" "move_enter mv ps paths d = (d', moved, ok)"
  shows "moved = [] \<and> \<not> ok \<or>
    (\<exists>p. p \<in> set projects \<and> pr_alias p \<noteq> current \<and>
       moved = map (\<lambda>m. (m, pr_alias p)) (takeWhile (\<lambda>m. mv m (pr_alias p) = None) paths) \<and>
       (ok \<longleftrightarrow> map fst moved = paths) \<and> (ok \<longleftrightarrow> mv_error d' = None))"
proof (cases "(0 \<le> mv_index d \<and> mv_index d < int (length ps)) \<and> \<not> isMoving d")
  case True
  let ?p = "ps ! nat (mv_index d)"
  from True have "?p \<in> set ps" by (simp add: nat_less_iff)
  with assms(1) have p: "?p \<in> set projects" "pr_alias ?p \<noteq> current" by (simp_all add: filteredProjects_def)
  let ?a = "pr_alias ?p" and ?P = "\<lambda>m. mv m (pr_alias (ps ! nat (mv_index d))) = None"
  from True assms(2) have h: "handleMove mv paths ?p d = (d', moved, ok)" by (simp add: move_enter_def)
  have "moved = map (\<lambda>m. (m, ?a)) (takeWhile ?P paths) \<and> (ok \<longleftrightarrow> map fst moved = paths) \<and> (ok \<longleftrightarrow> mv_error d' = None)"
  proof (cases "dropWhile ?P paths")
    case Nil
    then have w: "takeWhile ?P paths = paths" by (metis append_Nil2 takeWhile_dropWhile_id)
    with Nil have "move_loop mv ?a paths = (paths, None)" by (simp only: move_loop_split list.case)
    with h True have "d' = d\<lparr>mv_error := None\<rparr>" "moved = map (\<lambda>m. (m, ?a)) paths" "ok"
      by (simp_all add: handleMove_def)
    then show ?thesis by (simp only: w) (simp add: comp_def)
  next
    case (Cons m ms)
    then have w: "takeWhile ?P paths \<noteq> paths" by (metis append_self_conv list.distinct(1) takeWhile_dropWhile_id)
    from hd_dropWhile [of ?P paths] have "\<not> ?P m" unfolding Cons by simp
    then obtain e where e: "mv m ?a = Some e" unfolding not_None_eq by blast
    with Cons have "move_loop mv ?a paths = (takeWhile ?P paths, Some e)" by (simp only: move_loop_split list.case)
    with h True have "d' = d\<lparr>mv_error := Some (err_message e ''Failed to move document'')\<rparr>"
        "moved = map (\<lambda>m. (m, ?a)) (takeWhile ?P paths)" "\<not> ok"
      by (simp_all add: handleMove_def)
    with w show ?thesis by (simp only: map_map) (simp add: comp_def)
  qed
  from conjI [OF p(1) conjI [OF p(2) this]] show ?thesis by (intro disjI2) (rule exI [of _ ?p])
next
  case False
  with assms(2) show ?thesis by (auto simp: move_enter_def handleMove_def split: if_splits)
qed

section \<open>Witnesses\<close>

definition sample_dialogs :: dialogs where
  "sample_dialogs = dialog_mount 0 True no_dialogs"

lemma sample_disciplined: "disciplined sample_dialogs"
  unfolding sample_dialogs_def by (rule mount_open [OF start]) (simp add: no_dialogs_def map_has_def)

theorem dialog_count_right_witness: "isDialogOpen sample_dialogs \<and> openCount sample_dialogs = 1"
  using dialog_count_right [OF sample_disciplined]
  by (simp add: sample_dialogs_def dialog_defs no_dialogs_def open_total_def)

theorem dialog_count_drifts_witness:
  "isDialogOpen (dialog_unmount 0 sample_dialogs) \<and> open_total (dialog_unmount 0 sample_dialogs) = 0"
  using dialog_count_drifts [OF sample_disciplined, of 0 1]
  by (simp add: sample_dialogs_def dialog_defs no_dialogs_def open_total_def isDialogOpen_def)

theorem move_correct_witness:
  "fst (snd (move_enter (\<lambda>m a. if m = ''b'' then Some (Error ''locked'') else None)
     (filteredProjects [projectFromModel (sample_model ''1'' ''@home'')] ''@work'' [])
     [''a'', ''b'', ''c''] \<lparr>filterQuery = [], mv_index = 0, isMoving = False, mv_error = None\<rparr>)) = [(''a'', ''@home'')]"
proof -
  let ?mv = "\<lambda>m a. if m = ''b'' then Some (Error ''locked'') else None"
  let ?d = "\<lparr>filterQuery = [], mv_index = 0, isMoving = False, mv_error = None\<rparr>"
  let ?ps = "filteredProjects [projectFromModel (sample_model ''1'' ''@home'')] ''@work'' (filterQuery ?d)"
  obtain d' moved ok where r: "move_enter ?mv ?ps [''a'', ''b'', ''c''] ?d = (d', moved, ok)" by (metis prod_cases3)
  have "?ps = [projectFromModel (sample_model ''1'' ''@home'')]"
    by (simp add: filteredProjects_def str_includes_iff toLowerCase_def projectFromModel_def sample_model_def)
  then have "fst (snd (move_enter ?mv ?ps [''a'', ''b'', ''c''] ?d)) \<noteq> []" by (simp add: move_enter_def handleMove_def)
  then have "moved \<noteq> []" by (simp only: r fst_conv snd_conv not_False_eq_True)
  moreover from move_correct [OF refl r] have "moved = [] \<or> (\<exists>p. p \<in> {projectFromModel (sample_model ''1'' ''@home'')} \<and>
      moved = map (\<lambda>m. (m, pr_alias p)) (takeWhile (\<lambda>m. ?mv m (pr_alias p) = None) [''a'', ''b'', ''c'']))"
    unfolding list.set by blast
  ultimately have "moved = [(''a'', ''@home'')]" by (simp add: projectFromModel_def sample_model_def)
  moreover from r have "fst (snd (move_enter ?mv ?ps [''a'', ''b'', ''c''] ?d)) = moved" by (simp only: fst_conv snd_conv)
  ultimately show ?thesis by (simp only: move_dialog.select_convs(1))
qed

end
