(* ===== verification/Finder.thy ===== *)
theory Finder
  imports Search_Index Dialogs
begin

text \<open>
  The global finder: \<open>global-search/useDocumentSearch.ts\<close> and \<open>global-search/GlobalSearch.tsx\<close> on top of the search index.
  An event is followed by a render.  A render recomputes the memoised results when one of their dependencies (the
  trimmed query, the status of the index) differs from the last render, and resets the selection when the list of items
  is a new array; arrays are told apart by version numbers.
\<close>

section \<open>Definitions\<close>

record recent_doc =
  rd_path :: string
  rd_title :: string
  rd_alias :: string
  rd_updated :: string

definition recent_item :: "recent_doc \<Rightarrow> finder_item" where
  "recent_item d = \<lparr>fi_key = rd_path d, fi_type = ''document'', fi_title = rd_title d, fi_projectAlias = rd_alias d,
     fi_path = rd_path d, fi_updated = rd_updated d, fi_snippets = [], fi_matchCount = 0, fi_noteId = None\<rparr>"

record 'ix finder =
  fd_index :: "'ix search_system"
  fd_query :: string
  fd_recent :: "finder_item list"
  fd_recentVersion :: nat
  fd_recentError :: "string option"
  fd_recentRetryKey :: nat
  fd_deps :: "string \<times> index_status"
  fd_results :: "finder_item list"
  fd_resultsVersion :: nat
  fd_itemsKey :: "bool \<times> nat"
  fd_selected :: nat

definition fd_trimmed :: "'ix finder \<Rightarrow> string" where
  "fd_trimmed f = trim (fd_query f)"

definition hasQuery :: "'ix finder \<Rightarrow> bool" where
  "hasQuery f \<longleftrightarrow> length (fd_trimmed f) > 0"

definition fd_items :: "'ix finder \<Rightarrow> finder_item list" where
  "fd_items f = (if hasQuery f then fd_results f else fd_recent f)"

definition fd_isLoading :: "'ix finder \<Rightarrow> bool" where
  "fd_isLoading f \<longleftrightarrow> hasQuery f \<and> ix_status (fd_index f) = IxIdle"

definition isUpdating :: "'ix finder \<Rightarrow> bool" where
  "isUpdating f \<longleftrightarrow> ix_status (fd_index f) = IxBuilding"

definition finder_error :: "'ix finder \<Rightarrow> string option" where
  "finder_error f = (if ix_status (fd_index f) = IxError then Some ''Search index unavailable.'' else None)"

definition memo_results :: "'ix msearch \<Rightarrow> 'ix finder \<Rightarrow> 'ix finder" where
  "memo_results ms f =
     (let deps = (fd_trimmed f, ix_status (fd_index f))
      in if fd_deps f = deps then f
         else f\<lparr>fd_deps := deps, fd_results := (if hasQuery f then search ms (fd_index f) (fd_trimmed f) else []),
                fd_resultsVersion := fd_resultsVersion f + 1\<rparr>)"

definition items_key :: "'ix finder \<Rightarrow> bool \<times> nat" where
  "items_key f = (hasQuery f, if hasQuery f then fd_resultsVersion f else fd_recentVersion f)"

definition select_effect :: "'ix finder \<Rightarrow> 'ix finder" where
  "select_effect f = (if items_key f = fd_itemsKey f then f else f\<lparr>fd_itemsKey := items_key f, fd_selected := 0\<rparr>)"

definition render_finder :: "'ix msearch \<Rightarrow> 'ix finder \<Rightarrow> 'ix finder" where
  "render_finder ms f = select_effect (memo_results ms f)"

text \<open>The first render, then the effects of the mount: the last query is restored.\<close>

definition open_finder :: "'ix msearch \<Rightarrow> string \<Rightarrow> 'ix search_system \<Rightarrow> 'ix finder" where
  "open_finder ms lastQ ix =
     render_finder ms
      \<lparr>fd_index = ix, fd_query = lastQ, fd_recent = [], fd_recentVersion = 0, fd_recentError = None, fd_recentRetryKey = 0,
        fd_deps = ([], ix_status ix), fd_results = [], fd_resultsVersion = 0, fd_itemsKey = (False, 0), fd_selected = 0\<rparr>"

definition moveSelection :: "int \<Rightarrow> 'ix finder \<Rightarrow> 'ix finder" where
  "moveSelection delta f =
     (let count = length (fd_items f)
      in f\<lparr>fd_selected := (if count = 0 then 0 else nat ((int (fd_selected f) + delta + int count) mod int count))\<rparr>)"

definition safeIndex :: "'ix finder \<Rightarrow> nat" where
  "safeIndex f = (if fd_items f = [] then 0 else min (fd_selected f) (length (fd_items f) - 1))"

definition selected_item :: "'ix finder \<Rightarrow> finder_item option" where
  "selected_item f = (if safeIndex f < length (fd_items f) then Some (fd_items f ! safeIndex f) else None)"

definition retryRecent :: "'ix finder \<Rightarrow> 'ix finder" where
  "retryRecent f = f\<lparr>fd_recentRetryKey := fd_recentRetryKey f + 1, fd_recentError := None\<rparr>"

text \<open>The answer to the request of a retry key; the clean-up of an older key has cancelled its answer.\<close>

definition recent_done :: "nat \<Rightarrow> (rejection + recent_doc list) \<Rightarrow> 'ix finder \<Rightarrow> 'ix finder" where
  "recent_done key answer f =
     (if key \<noteq> fd_recentRetryKey f then f
      else
        case answer of
          Inr docs \<Rightarrow> f\<lparr>fd_recent := map recent_item docs, fd_recentVersion := fd_recentVersion f + 1\<rparr>
        | Inl err \<Rightarrow> f\<lparr>fd_recentError := Some (err_message err ''Failed to load recent documents'')\<rparr>)"

datatype finder_event =
    TypeQuery string
  | IndexEvent search_event
  | RecentAnswer nat "rejection + recent_doc list"
  | RetryRecent
  | ArrowDown
  | ArrowUp
  | Hover nat

fun finder_event_step :: "(index_doc list \<Rightarrow> 'ix option) \<Rightarrow> finder_event \<Rightarrow> 'ix finder \<Rightarrow> 'ix finder" where
  "finder_event_step addAll (TypeQuery q) f = f\<lparr>fd_query := q\<rparr>"
| "finder_event_step addAll (IndexEvent e) f = f\<lparr>fd_index := search_step addAll e (fd_index f)\<rparr>"
| "finder_event_step addAll (RecentAnswer k r) f = recent_done k r f"
| "finder_event_step addAll RetryRecent f = retryRecent f"
| "finder_event_step addAll ArrowDown f = moveSelection 1 f"
| "finder_event_step addAll ArrowUp f = moveSelection (-1) f"
| "finder_event_step addAll (Hover i) f = (if i < length (fd_items f) then f\<lparr>fd_selected := i\<rparr> else f)"

definition finder_step :: "(index_doc list \<Rightarrow> 'ix option) \<Rightarrow> 'ix msearch \<Rightarrow> finder_event \<Rightarrow> 'ix finder \<Rightarrow> 'ix finder" where
  "finder_step addAll ms e f = render_finder ms (finder_event_step addAll e f)"

section \<open>Opening an item\<close>

datatype finder_effect =
    SwitchProject project
  | GoJournal string "string option"
  | GoDocument string bool
  | RequestFind string
  | CloseFinder

text \<open>The second segment of a path; \<open>None\<close> is \<open>undefined\<close>.\<close>

definition second_segment :: "string \<Rightarrow> string option" where
  "second_segment p =
     (case dropWhile (\<lambda>c. c \<noteq> CHR ''/'') p of [] \<Rightarrow> None | _ # r \<Rightarrow> Some (takeWhile (\<lambda>c. c \<noteq> CHR ''/'') r))"

definition item_alias :: "finder_item \<Rightarrow> string" where
  "item_alias it =
     stripAt (if fi_projectAlias it \<noteq> [] then fi_projectAlias it else or_blank (second_segment (fi_path it)))"

definition openItem :: "project list \<Rightarrow> string \<Rightarrow> finder_item option \<Rightarrow> bool \<Rightarrow> finder_effect list" where
  "openItem projects query item inSplit =
     (case item of
        None \<Rightarrow> []
      | Some it \<Rightarrow>
          (case List.find (\<lambda>p. stripAt (pr_alias p) = item_alias it) projects of Some p \<Rightarrow> [SwitchProject p] | None \<Rightarrow> []) @
          (if fi_type it = ''note'' then [GoJournal (fi_updated it) (fi_noteId it)]
           else [GoDocument (fi_path it) inSplit] @ (if trim query \<noteq> [] then [RequestFind (trim query)] else [])) @
          [CloseFinder])"

definition enter_key :: "project list \<Rightarrow> bool \<Rightarrow> bool \<Rightarrow> 'ix finder \<Rightarrow> finder_effect list" where
  "enter_key projects modKey shiftKey f = openItem projects (fd_query f) (selected_item f) (modKey \<and> \<not> shiftKey)"

text \<open>Closing unmounts the finder, whose clean-up stores the query for the next opening.\<close>

definition close_finder :: "'ix finder \<Rightarrow> dialogs \<Rightarrow> dialogs" where
  "close_finder f s = setLastQuery (fd_query f) (finder_close s)"

section \<open>The results are current\<close>

definition finder_inv :: "(index_doc list \<Rightarrow> 'ix option) \<Rightarrow> 'ix msearch \<Rightarrow> 'ix finder \<Rightarrow> bool" where
  "finder_inv addAll ms f \<longleftrightarrow>
     index_inv addAll (fd_index f) \<and> fd_deps f = (fd_trimmed f, ix_status (fd_index f)) \<and>
     (hasQuery f \<and> ix_status (fd_index f) \<noteq> IxBuilding \<longrightarrow> fd_results f = search ms (fd_index f) (fd_trimmed f)) \<and>
     fd_itemsKey f = items_key f \<and> (fd_selected f < length (fd_items f) \<or> fd_selected f = 0)"

lemma search_cong: "ix_index s = ix_index t \<Longrightarrow> docsById s = docsById t \<Longrightarrow> search ms s q = search ms t q"
  by (cases "ix_index t") (simp_all add: search_def Let_def)

lemma search_step_keeps:
  assumes "index_inv addAll s" "ix_status s \<noteq> IxBuilding"
  shows "ix_index (search_step addAll e s) = ix_index s \<and> docsById (search_step addAll e s) = docsById s"
proof -
  from assms have "inflight s = None" by (simp add: index_inv_def)
  with assms(2) show ?thesis by (cases e) (simp_all add: scheduleRebuild_def rebuild_fires_def build_def)
qed

lemma memo_fields [simp]:
  "fd_index (memo_results ms f) = fd_index f" "fd_query (memo_results ms f) = fd_query f"
  "fd_recent (memo_results ms f) = fd_recent f" "fd_recentVersion (memo_results ms f) = fd_recentVersion f"
  "fd_itemsKey (memo_results ms f) = fd_itemsKey f" "fd_selected (memo_results ms f) = fd_selected f"
  "fd_trimmed (memo_results ms f) = fd_trimmed f" "hasQuery (memo_results ms f) = hasQuery f"
  by (simp_all add: memo_results_def Let_def fd_trimmed_def hasQuery_def)

lemma select_fields [simp]:
  "fd_index (select_effect f) = fd_index f" "fd_query (select_effect f) = fd_query f" "fd_recent (select_effect f) = fd_recent f"
  "fd_results (select_effect f) = fd_results f" "fd_deps (select_effect f) = fd_deps f"
  "fd_trimmed (select_effect f) = fd_trimmed f" "hasQuery (select_effect f) = hasQuery f"
  "fd_items (select_effect f) = fd_items f" "items_key (select_effect f) = items_key f"
  "fd_itemsKey (select_effect f) = items_key f"
  by (simp_all add: select_effect_def fd_trimmed_def hasQuery_def fd_items_def items_key_def)

lemma memo_current:
  assumes "fd_deps f = (fd_trimmed f, ix_status (fd_index f)) \<Longrightarrow> hasQuery f \<Longrightarrow> ix_status (fd_index f) \<noteq> IxBuilding \<Longrightarrow>
    fd_results f = search ms (fd_index f) (fd_trimmed f)"
  shows "hasQuery f \<Longrightarrow> ix_status (fd_index f) \<noteq> IxBuilding \<Longrightarrow>
    fd_results (memo_results ms f) = search ms (fd_index f) (fd_trimmed f)"
  using assms by (simp add: memo_results_def Let_def)

lemma memo_deps: "fd_deps (memo_results ms f) = (fd_trimmed f, ix_status (fd_index f))"
  by (simp add: memo_results_def Let_def)

lemma memo_same_key:
  assumes "fst (fd_itemsKey f) \<Longrightarrow> snd (fd_itemsKey f) \<le> fd_resultsVersion f" "items_key (memo_results ms f) = fd_itemsKey f"
  shows "items_key f = fd_itemsKey f \<and> fd_items (memo_results ms f) = fd_items f"
proof (cases "hasQuery f")
  case True
  with assms(2) have k: "fd_itemsKey f = (True, fd_resultsVersion (memo_results ms f))" by (simp add: items_key_def)
  with assms(1) have "fd_resultsVersion (memo_results ms f) \<le> fd_resultsVersion f" by simp
  then have "memo_results ms f = f" by (simp add: memo_results_def Let_def split: if_splits)
  with k True show ?thesis by (simp add: items_key_def)
next
  case False
  with assms(2) show ?thesis by (simp add: items_key_def fd_items_def)
qed

lemma render_inv:
  assumes "index_inv addAll (fd_index f)"
    and "fd_deps f = (fd_trimmed f, ix_status (fd_index f)) \<Longrightarrow> hasQuery f \<Longrightarrow> ix_status (fd_index f) \<noteq> IxBuilding \<Longrightarrow>
      fd_results f = search ms (fd_index f) (fd_trimmed f)"
    and "fst (fd_itemsKey f) \<Longrightarrow> snd (fd_itemsKey f) \<le> fd_resultsVersion f"
    and "items_key f = fd_itemsKey f \<Longrightarrow> fd_selected f < length (fd_items f) \<or> fd_selected f = 0"
  shows "finder_inv addAll ms (render_finder ms f)"
proof -
  have "fd_selected (render_finder ms f) < length (fd_items (memo_results ms f)) \<or> fd_selected (render_finder ms f) = 0"
  proof (cases "items_key (memo_results ms f) = fd_itemsKey f")
    case True
    from memo_same_key [OF assms(3) True] assms(4) True show ?thesis by (simp add: render_finder_def select_effect_def)
  qed (simp add: render_finder_def select_effect_def)
  with assms(1) memo_current [OF assms(2)] show ?thesis by (simp add: finder_inv_def render_finder_def memo_deps)
qed

lemma inv_version: "finder_inv addAll ms f \<Longrightarrow> fst (fd_itemsKey f) \<Longrightarrow> snd (fd_itemsKey f) \<le> fd_resultsVersion f"
  by (simp add: finder_inv_def items_key_def split: if_splits)

lemmas finder_event_defs = recent_done_def retryRecent_def moveSelection_def Let_def

lemma step_results:
  assumes "finder_inv addAll ms f" and g_def: "g = finder_event_step addAll e f"
    and "fd_deps g = (fd_trimmed g, ix_status (fd_index g))" "hasQuery g" "ix_status (fd_index g) \<noteq> IxBuilding"
  shows "fd_results g = search ms (fd_index g) (fd_trimmed g)"
proof (cases e)
  case (TypeQuery q)
  with assms show ?thesis by (simp add: finder_inv_def fd_trimmed_def hasQuery_def)
next
  case (IndexEvent x)
  with assms have "index_inv addAll (fd_index f)" "ix_status (fd_index f) \<noteq> IxBuilding"
    by (auto simp: finder_inv_def)
  from search_step_keeps [OF this, of x]
  have "search ms (search_step addAll x (fd_index f)) (fd_trimmed f) = search ms (fd_index f) (fd_trimmed f)"
    by (intro search_cong) simp_all
  with assms IndexEvent show ?thesis by (auto simp: finder_inv_def fd_trimmed_def hasQuery_def)
qed (use assms in \<open>auto simp: finder_inv_def fd_trimmed_def hasQuery_def finder_event_defs split: sum.splits if_splits\<close>)

lemma moveSelection_range:
  "fd_selected (moveSelection d f) < length (fd_items (moveSelection d f)) \<or> fd_selected (moveSelection d f) = 0"
  by (auto simp: moveSelection_def Let_def fd_items_def hasQuery_def fd_trimmed_def nat_less_iff)

lemma step_selection:
  assumes "finder_inv addAll ms f" and g_def: "g = finder_event_step addAll e f"
    and "items_key g = fd_itemsKey g"
  shows "fd_selected g < length (fd_items g) \<or> fd_selected g = 0"
proof (cases e)
  case ArrowDown
  then show ?thesis unfolding g_def by (simp add: moveSelection_range)
next
  case ArrowUp
  then show ?thesis unfolding g_def by (simp add: moveSelection_range)
next
  case (Hover i)
  with assms show ?thesis by (auto simp: finder_inv_def fd_items_def hasQuery_def fd_trimmed_def)
next
  case (RecentAnswer k r)
  with assms show ?thesis
    by (cases r) (auto simp: finder_inv_def fd_items_def hasQuery_def fd_trimmed_def items_key_def recent_done_def split: if_splits)
next
  case (TypeQuery q)
  with assms show ?thesis by (auto simp: finder_inv_def fd_items_def items_key_def)
next
  case (IndexEvent x)
  with assms show ?thesis by (auto simp: finder_inv_def fd_items_def hasQuery_def fd_trimmed_def)
next
  case RetryRecent
  with assms show ?thesis by (auto simp: finder_inv_def fd_items_def hasQuery_def fd_trimmed_def retryRecent_def)
qed

lemma finder_step_inv:
  assumes inv: "finder_inv addAll ms f"
  shows "finder_inv addAll ms (finder_step addAll ms e f)"
  unfolding finder_step_def
proof (rule render_inv)
  let ?g = "finder_event_step addAll e f"
  show "index_inv addAll (fd_index ?g)"
    using inv by (cases e) (simp_all add: finder_inv_def search_step_inv finder_event_defs split: sum.split)
  show "snd (fd_itemsKey ?g) \<le> fd_resultsVersion ?g" if "fst (fd_itemsKey ?g)"
    using that inv_version [OF inv]
    by (cases e) (auto simp: finder_event_defs split: sum.splits if_splits)
qed (fact step_results [OF inv refl] step_selection [OF inv refl])+

lemma open_finder_inv: "index_inv addAll ix \<Longrightarrow> finder_inv addAll ms (open_finder ms q ix)"
  unfolding open_finder_def by (rule render_inv) (auto simp: hasQuery_def fd_trimmed_def)

lemma finder_run_inv:
  "index_inv addAll ix \<Longrightarrow> finder_inv addAll ms (fold (finder_step addAll ms) evs (open_finder ms q ix))"
proof (induction evs rule: rev_induct)
  case Nil
  then show ?case by (simp add: open_finder_inv)
next
  case (snoc e evs)
  then show ?case by (simp add: finder_step_inv)
qed

section \<open>Properties\<close>

text \<open>C21. What the finder shows and opens.  From start-up on, in any interleaving of typing, index events, recent documents,
  arrow keys and the mouse, the results shown are those of the current index for the current query unless the index is
  being rebuilt, although a render only recomputes them when the query or the status changes; with no query the recent
  documents are shown; the selection is on an item of the list, and Enter opens exactly that item.\<close>

theorem finder_current:
  assumes "f = fold (finder_step addAll ms) evs (open_finder ms q (fold (search_step addAll) evs' (search_boot v)))"
  shows "(hasQuery f \<and> \<not> isUpdating f \<longrightarrow> fd_items f = search ms (fd_index f) (trim (fd_query f))) \<and>
    (\<not> hasQuery f \<longrightarrow> fd_items f = fd_recent f) \<and>
    (fd_items f \<noteq> [] \<longrightarrow> fd_selected f < length (fd_items f) \<and>
       enter_key ps m sh f = openItem ps (fd_query f) (Some (fd_items f ! fd_selected f)) (m \<and> \<not> sh)) \<and>
    (fd_items f = [] \<longrightarrow> enter_key ps m sh f = [])"
proof -
  have inv: "finder_inv addAll ms f"
    unfolding assms by (rule finder_run_inv) (rule search_run_inv)
  then have "hasQuery f \<and> \<not> isUpdating f \<longrightarrow> fd_items f = search ms (fd_index f) (trim (fd_query f))"
    by (simp add: finder_inv_def fd_items_def isUpdating_def fd_trimmed_def)
  moreover have "\<not> hasQuery f \<longrightarrow> fd_items f = fd_recent f" by (simp add: fd_items_def)
  moreover have "fd_items f \<noteq> [] \<longrightarrow> fd_selected f < length (fd_items f)"
    using inv by (auto simp: finder_inv_def)
  moreover from this have "safeIndex f = fd_selected f" if "fd_items f \<noteq> []"
    using that by (auto simp: safeIndex_def)
  ultimately show ?thesis by (auto simp: enter_key_def selected_item_def openItem_def safeIndex_def)
qed

lemma finder_query_restored:
  "fd_query (open_finder ms (lastQuery (close_finder f s)) ix) = fd_query f"
  by (simp add: open_finder_def render_finder_def close_finder_def setLastQuery_def)

section \<open>Witness\<close>

theorem finder_current_witness:
  "enter_key [] False False
     (fold (finder_step (\<lambda>rs. Some (length rs)) (\<lambda>ix txt. []))
        [RecentAnswer 0 (Inr [\<lparr>rd_path = ''a'', rd_title = ''A'', rd_alias = ''@x'', rd_updated = ''1''\<rparr>,
           \<lparr>rd_path = ''b'', rd_title = ''B'', rd_alias = ''@x'', rd_updated = ''2''\<rparr>]), ArrowUp]
        (open_finder (\<lambda>ix txt. []) [] (fold (search_step (\<lambda>rs. Some (length rs))) [] (search_boot []))))
   = [GoDocument ''b'' False, CloseFinder]"
proof -
  let ?evs = "[RecentAnswer 0 (Inr [\<lparr>rd_path = ''a'', rd_title = ''A'', rd_alias = ''@x'', rd_updated = ''1''\<rparr>,
           \<lparr>rd_path = ''b'', rd_title = ''B'', rd_alias = ''@x'', rd_updated = ''2''\<rparr>]), ArrowUp]"
  let ?f = "fold (finder_step (\<lambda>rs. Some (length rs)) (\<lambda>ix txt. [])) ?evs
        (open_finder (\<lambda>ix txt. []) [] (fold (search_step (\<lambda>rs. Some (length rs))) [] (search_boot [])))"
  have "fd_items ?f = map recent_item [\<lparr>rd_path = ''a'', rd_title = ''A'', rd_alias = ''@x'', rd_updated = ''1''\<rparr>,
           \<lparr>rd_path = ''b'', rd_title = ''B'', rd_alias = ''@x'', rd_updated = ''2''\<rparr>]" "fd_selected ?f = 1" "fd_query ?f = []"
    by code_simp+
  with finder_current [OF refl, of "\<lambda>rs. Some (length rs)" "\<lambda>ix txt. []" ?evs "[]" "[]" "[]" "[]" False False]
  have "enter_key [] False False ?f = openItem [] [] (Some (recent_item \<lparr>rd_path = ''b'', rd_title = ''B'', rd_alias = ''@x'', rd_updated = ''2''\<rparr>)) False"
    by simp
  also have "\<dots> = [GoDocument ''b'' False, CloseFinder]" by code_simp
  finally show ?thesis .
qed

end
