(* ===== verification/Quick_Capture.thy ===== *)
theory Quick_Capture
  imports Search_Text Dashboard
begin

text \<open>
  The quick capture window: \<open>quick-capture/useQuickCapture.ts\<close> and the handlers of \<open>quick-capture/QuickCapture.tsx\<close>, on the
  parsers of \<open>Search_Text\<close>.  A save is cut at its \<open>await\<close>; the window closes for good.
\<close>

section \<open>Definitions\<close>

record append_request =
  ar_alias :: string
  ar_content :: string
  ar_tags :: "string list"

record saved_entry =
  se_id :: string
  se_alias :: string
  se_date :: string

datatype capture_effect =
    AppendEntry append_request
  | EntrySaved
  | DeleteEntry string string string
  | OpenJournal string string
  | CaptureNotice string
  | CaptureError string

text \<open>\<open>qc_pending\<close> is the request of a save that waits for its answer, with its choice to keep the window open; \<open>qc_stored\<close> is
  the last project in local storage.\<close>

record capture =
  qc_content :: string
  qc_tags :: "string list"
  qc_project :: "string option"
  qc_error :: "string option"
  qc_saving :: bool
  qc_pending :: "(append_request \<times> bool) option"
  qc_stored :: "string option"
  qc_entry :: "saved_entry option"
  qc_flash :: bool
  qc_closeTimer :: bool
  qc_escapeHint :: bool
  qc_closed :: bool
  qc_effects :: "capture_effect list"

definition open_capture :: "string option \<Rightarrow> capture" where
  "open_capture stored = \<lparr>qc_content = [], qc_tags = [], qc_project = stored, qc_error = None, qc_saving = False, qc_pending = None,
     qc_stored = stored, qc_entry = None, qc_flash = False, qc_closeTimer = False, qc_escapeHint = False, qc_closed = False,
     qc_effects = []\<rparr>"

definition qc_emit :: "capture_effect \<Rightarrow> capture \<Rightarrow> capture" where
  "qc_emit e s = s\<lparr>qc_effects := qc_effects s @ [e]\<rparr>"

definition setContent :: "string \<Rightarrow> capture \<Rightarrow> capture" where
  "setContent c s =
     (let s' = s\<lparr>qc_content := c, qc_tags := parseTags c\<rparr>
      in case parseProject c of Some p \<Rightarrow> if p \<noteq> [] then s'\<lparr>qc_project := Some p\<rparr> else s' | None \<Rightarrow> s')"

definition setSelectedProject :: "string \<Rightarrow> capture \<Rightarrow> capture" where
  "setSelectedProject a s = s\<lparr>qc_project := Some a\<rparr>"

definition with_at :: "string \<Rightarrow> string" where
  "with_at a = (if startsWith a ''@'' then a else CHR ''@'' # a)"

text \<open>A save up to its call of the backend, and the rest after the answer; an entry without an identifier is ignored.\<close>

definition save_capture :: "bool \<Rightarrow> capture \<Rightarrow> capture" where
  "save_capture keepOpen s =
     (if qc_saving s then s
      else if qc_project s = None \<or> qc_project s = Some [] then s\<lparr>qc_error := Some ''Please select a project''\<rparr>
      else if trim (parseContent (qc_content s)) = [] then s\<lparr>qc_error := Some ''Please enter some content''\<rparr>
      else
        let r = \<lparr>ar_alias = with_at (the (qc_project s)), ar_content = parseContent (qc_content s), ar_tags = qc_tags s\<rparr>
        in qc_emit (AppendEntry r) (s\<lparr>qc_saving := True, qc_error := None, qc_pending := Some (r, keepOpen)\<rparr>))"

definition entryDate :: "(string \<Rightarrow> string option) \<Rightarrow> string \<Rightarrow> string \<Rightarrow> string" where
  "entryDate localDay today created =
     (if created \<noteq> [] then (case localDay created of Some d \<Rightarrow> d | None \<Rightarrow> today) else today)"

definition save_settled :: "capture \<Rightarrow> capture" where
  "save_settled s = s\<lparr>qc_saving := False, qc_pending := None\<rparr>"

definition save_answer ::
  "(string \<Rightarrow> string option) \<Rightarrow> string \<Rightarrow> (rejection + (string \<times> string) option) \<Rightarrow> capture \<Rightarrow> capture" where
  "save_answer localDay today answer s =
     (case qc_pending s of
        None \<Rightarrow> s
      | Some (r, keepOpen) \<Rightarrow>
          (case answer of
             Inl err \<Rightarrow> save_settled (s\<lparr>qc_error := Some ''Failed to save. Try again.''\<rparr>)
           | Inr None \<Rightarrow> save_settled s
           | Inr (Some (i, created)) \<Rightarrow>
               if i = [] then save_settled s
               else
                 let s' = save_settled ((qc_emit EntrySaved s)\<lparr>qc_stored := Some (ar_alias r), qc_content := [], qc_tags := []\<rparr>)
                 in if keepOpen then s'\<lparr>qc_flash := True\<rparr>
                    else s'\<lparr>qc_entry := Some \<lparr>se_id = i, se_alias = ar_alias r, se_date = entryDate localDay today created\<rparr>,
                           qc_closeTimer := True\<rparr>))"

text \<open>\<open>/(^|\s)#TAG(?=\s|$)/g\<close> replaced by its first group.\<close>

definition tag_here :: "string \<Rightarrow> string \<Rightarrow> bool" where
  "tag_here t s \<longleftrightarrow> startsWith s (CHR ''#'' # t) \<and>
     (case drop (length t + 1) s of [] \<Rightarrow> True | c # _ \<Rightarrow> is_space c)"

function drop_tag :: "string \<Rightarrow> bool \<Rightarrow> string \<Rightarrow> string" where
  "drop_tag t start [] = []"
| "drop_tag t start (c # s) =
     (if start \<and> tag_here t (c # s) then drop_tag t False (drop (length t) s)
      else if is_space c \<and> tag_here t s then c # drop_tag t False (drop (length t + 1) s)
      else c # drop_tag t False s)"
  by pat_completeness auto
termination
  by (relation "measure (\<lambda>(t, start, s). length s)") auto

definition without_tag :: "string \<Rightarrow> string \<Rightarrow> string" where
  "without_tag t c = trim (collapse_ws (drop_tag t True c))"

definition removeTag_chip :: "string \<Rightarrow> capture \<Rightarrow> capture" where
  "removeTag_chip t s = setContent (without_tag t (qc_content s)) s"

definition clear_capture :: "capture \<Rightarrow> capture" where
  "clear_capture s = s\<lparr>qc_content := [], qc_tags := [], qc_error := None\<rparr>"

definition close_capture :: "capture \<Rightarrow> capture" where
  "close_capture s = s\<lparr>qc_closed := True\<rparr>"

definition handleCancel :: "capture \<Rightarrow> capture" where
  "handleCancel s =
     (if trim (qc_content s) = [] then close_capture s
      else if qc_escapeHint s then close_capture (clear_capture s)
      else s\<lparr>qc_escapeHint := True\<rparr>)"

definition cancelPendingClose :: "capture \<Rightarrow> capture" where
  "cancelPendingClose s = s\<lparr>qc_closeTimer := False\<rparr>"

definition handleUndo :: "rejection option \<Rightarrow> capture \<Rightarrow> capture" where
  "handleUndo answer s =
     (case qc_entry s of
        None \<Rightarrow> s
      | Some e \<Rightarrow>
          let s' = qc_emit (DeleteEntry (se_alias e) (se_date e) (se_id e)) ((cancelPendingClose s)\<lparr>qc_entry := None\<rparr>)
          in case answer of None \<Rightarrow> qc_emit (CaptureNotice ''Entry deleted'') s' | Some err \<Rightarrow> qc_emit (CaptureError ''Failed to undo'') s')"

definition handleOpen :: "capture \<Rightarrow> capture" where
  "handleOpen s =
     (case qc_entry s of
        None \<Rightarrow> s
      | Some e \<Rightarrow> close_capture (qc_emit (OpenJournal (se_alias e) (se_date e)) (cancelPendingClose s)))"

definition other_key :: "capture \<Rightarrow> capture" where
  "other_key s = s\<lparr>qc_escapeHint := False\<rparr>"

datatype capture_event =
    TypeText string
  | PickProject string
  | SaveKey bool
  | SaveAnswer "rejection + (string \<times> string) option"
  | RemoveChip string
  | CancelKey
  | OtherKey
  | CloseTimer
  | FlashTimer
  | UndoClick "rejection option"
  | OpenClick

fun live_step :: "(string \<Rightarrow> string option) \<Rightarrow> string \<Rightarrow> capture_event \<Rightarrow> capture \<Rightarrow> capture" where
  "live_step ld today (TypeText c) s = setContent c s"
| "live_step ld today (PickProject a) s = setSelectedProject a s"
| "live_step ld today (SaveKey keep) s = save_capture keep s"
| "live_step ld today (SaveAnswer r) s = save_answer ld today r s"
| "live_step ld today (RemoveChip t) s = removeTag_chip t s"
| "live_step ld today CancelKey s = handleCancel s"
| "live_step ld today OtherKey s = other_key s"
| "live_step ld today CloseTimer s = (if qc_closeTimer s then close_capture (cancelPendingClose s) else s)"
| "live_step ld today FlashTimer s = s\<lparr>qc_flash := False\<rparr>"
| "live_step ld today (UndoClick a) s = handleUndo a s"
| "live_step ld today OpenClick s = handleOpen s"

definition capture_step :: "(string \<Rightarrow> string option) \<Rightarrow> string \<Rightarrow> capture_event \<Rightarrow> capture \<Rightarrow> capture" where
  "capture_step ld today e s = (if qc_closed s then s else live_step ld today e s)"

section \<open>Saving\<close>

definition good_request :: "append_request \<Rightarrow> bool" where
  "good_request r \<longleftrightarrow> startsWith (ar_alias r) ''@'' \<and> trim (ar_content r) \<noteq> []"

fun good_effect :: "capture_effect \<Rightarrow> bool" where
  "good_effect (AppendEntry r) = good_request r"
| "good_effect _ = True"

definition capture_inv :: "capture \<Rightarrow> bool" where
  "capture_inv s \<longleftrightarrow> qc_tags s = parseTags (qc_content s) \<and> (qc_saving s \<longleftrightarrow> qc_pending s \<noteq> None) \<and>
     list_all good_effect (qc_effects s)"

lemma parse_nothing [simp]: "parseTags [] = []" "parseProject [] = None"
  by (simp_all add: parseTags_def parseProject_def js_unique_def)

lemma setContent_fields [simp]:
  "qc_content (setContent c s) = c" "qc_tags (setContent c s) = parseTags c" "qc_saving (setContent c s) = qc_saving s"
  "qc_pending (setContent c s) = qc_pending s" "qc_effects (setContent c s) = qc_effects s"
  "qc_closed (setContent c s) = qc_closed s" "qc_closeTimer (setContent c s) = qc_closeTimer s"
  by (simp_all add: setContent_def Let_def split: option.split)

lemma with_at [simp]: "startsWith (with_at a) ''@''"
  by (simp add: with_at_def)

lemma capture_step_inv: "capture_inv s \<Longrightarrow> capture_inv (capture_step ld today e s)"
proof (cases e)
  case (SaveKey k)
  assume "capture_inv s"
  with SaveKey show ?thesis
    by (simp add: capture_step_def save_capture_def capture_inv_def Let_def qc_emit_def good_request_def)
next
  case (SaveAnswer r)
  assume "capture_inv s"
  with SaveAnswer show ?thesis
    by (simp add: capture_step_def save_answer_def save_settled_def capture_inv_def Let_def qc_emit_def
        split: option.split sum.split prod.split)
qed (simp_all add: capture_step_def capture_inv_def removeTag_chip_def handleCancel_def close_capture_def clear_capture_def
    setSelectedProject_def other_key_def cancelPendingClose_def handleUndo_def handleOpen_def qc_emit_def Let_def split: option.split)

lemma capture_run_inv: "capture_inv (fold (capture_step ld today) evs (open_capture stored))"
proof (induction evs rule: rev_induct)
  case Nil
  show ?case by (simp add: capture_inv_def open_capture_def)
next
  case (snoc e evs)
  then show ?case by (simp add: capture_step_inv)
qed

text \<open>C26. Quick capture saves what is written.  In every state of an open window: a save with a project and some content
  sends exactly one request, with the alias, the cleaned text and the tags that the text has at that moment; a second
  save before the answer sends nothing; a rejection keeps the text and its tags and reports the error; and after a
  success the text is gone and the next window starts with the same project.\<close>

theorem capture_save_correct:
  assumes "s = fold (capture_step ld today) evs (open_capture stored)" "\<not> qc_closed s" "\<not> qc_saving s"
    and "qc_project s = Some a" "a \<noteq> []" "trim (parseContent (qc_content s)) \<noteq> []"
    and r_def: "r = \<lparr>ar_alias = with_at a, ar_content = parseContent (qc_content s), ar_tags = parseTags (qc_content s)\<rparr>"
    and t_def: "t = capture_step ld today (SaveKey k) s"
  shows "qc_effects t = qc_effects s @ [AppendEntry r] \<and> capture_step ld today (SaveKey k') t = t \<and>
    (let f = capture_step ld today (SaveAnswer (Inl err)) t
     in qc_content f = qc_content s \<and> qc_tags f = qc_tags s \<and> \<not> qc_saving f \<and> qc_error f = Some ''Failed to save. Try again.'') \<and>
    (i \<noteq> [] \<longrightarrow>
      (let g = capture_step ld today (SaveAnswer (Inr (Some (i, created)))) t
       in qc_content g = [] \<and> qc_tags g = [] \<and> \<not> qc_saving g \<and> qc_project (open_capture (qc_stored g)) = Some (with_at a)))"
proof -
  have "qc_tags s = parseTags (qc_content s)" using capture_run_inv assms(1) by (simp add: capture_inv_def)
  with assms(2-6) have t: "t = qc_emit (AppendEntry r) (s\<lparr>qc_saving := True, qc_error := None, qc_pending := Some (r, k)\<rparr>)"
    unfolding t_def r_def by (simp add: capture_step_def save_capture_def Let_def)
  then have f: "qc_saving t" "\<not> qc_closed t" "qc_pending t = Some (r, k)" "qc_content t = qc_content s" "qc_tags t = qc_tags s"
      "qc_effects t = qc_effects s @ [AppendEntry r]"
    using assms(2) by (simp_all add: qc_emit_def)
  have "capture_step ld today (SaveKey k') t = t" using f(1) by (simp add: capture_step_def save_capture_def)
  moreover have "let f = capture_step ld today (SaveAnswer (Inl err)) t
     in qc_content f = qc_content s \<and> qc_tags f = qc_tags s \<and> \<not> qc_saving f \<and> qc_error f = Some ''Failed to save. Try again.''"
    using f by (simp add: capture_step_def save_answer_def save_settled_def)
  moreover have "let g = capture_step ld today (SaveAnswer (Inr (Some (i, created)))) t
       in qc_content g = [] \<and> qc_tags g = [] \<and> \<not> qc_saving g \<and> qc_project (open_capture (qc_stored g)) = Some (with_at a)"
    if "i \<noteq> []"
    using f that by (simp add: capture_step_def save_answer_def save_settled_def Let_def open_capture_def r_def)
  ultimately show ?thesis using f(6) by blast
qed

text \<open>Text typed while a save is running is lost.  Whatever is typed between the save and its answer, the success
  empties the editor without having sent it; after a save that closes the window, text typed in the four seconds
  before it closes goes with the window, without the question that Escape asks.\<close>

theorem capture_typed_lost:
  assumes "qc_pending s = Some (r, k)" "\<not> qc_closed s" "i \<noteq> []"
    and t_def: "t = fold (capture_step ld today) [TypeText c, SaveAnswer (Inr (Some (i, created)))] s"
  shows "qc_content t = [] \<and> qc_effects t = qc_effects s @ [EntrySaved] \<and>
    (\<not> k \<longrightarrow> qc_closed (fold (capture_step ld today) [TypeText c', CloseTimer] t) \<and>
       qc_effects (fold (capture_step ld today) [TypeText c', CloseTimer] t) = qc_effects t)"
proof -
  have t: "qc_content t = []" "qc_effects t = qc_effects s @ [EntrySaved]" "\<not> qc_closed t" "\<not> k \<longrightarrow> qc_closeTimer t"
    using assms(1-3) unfolding t_def
    by (simp_all add: capture_step_def save_answer_def save_settled_def qc_emit_def Let_def)
  then show ?thesis by (simp add: capture_step_def close_capture_def cancelPendingClose_def)
qed

lemma collapse_ws_blank: "c \<in> set (collapse_ws s) \<Longrightarrow> is_space c \<Longrightarrow> c = CHR '' ''"
  by (induction s rule: collapse_ws.induct) (auto split: if_splits)

lemma set_trim_note: "set (trim s) \<subseteq> set s"
  unfolding trim_def using set_dropWhileD by (fastforce dest: set_dropWhileD)

text \<open>Removing a tag makes one line of the note: the lines that a save keeps are joined.\<close>

lemma removeTag_one_line: "CHR 0x0A \<notin> set (qc_content (removeTag_chip t s))"
proof
  assume "CHR 0x0A \<in> set (qc_content (removeTag_chip t s))"
  then have "CHR 0x0A \<in> set (collapse_ws (drop_tag t True (qc_content s)))"
    using set_trim_note by (auto simp: removeTag_chip_def without_tag_def)
  then have "CHR 0x0A = CHR '' ''" by (rule collapse_ws_blank) (simp add: is_space_def)
  then show False by simp
qed

lemma removeTag_punctuation: "without_tag ''todo'' ''call #todo, then'' = ''call #todo, then''"
  by code_simp

section \<open>Witnesses\<close>

definition sample_capture :: capture where
  "sample_capture = fold (capture_step (\<lambda>c. None) ''2026-01-02'') [TypeText ''call Ann #todo @work''] (open_capture None)"

lemma sample_capture_fields:
  "qc_content sample_capture = ''call Ann #todo @work''" "qc_project sample_capture = Some ''work''" "\<not> qc_closed sample_capture"
  "\<not> qc_saving sample_capture" "qc_effects sample_capture = []" "parseContent ''call Ann #todo @work'' = ''call Ann''"
  "parseTags ''call Ann #todo @work'' = [''todo'']" "trim ''call Ann'' = ''call Ann''" "with_at ''work'' = ''@work''"
  by code_simp+

theorem capture_save_correct_witness:
  "qc_effects (capture_step (\<lambda>c. None) ''2026-01-02'' (SaveKey True) sample_capture) =
     [AppendEntry \<lparr>ar_alias = ''@work'', ar_content = ''call Ann'', ar_tags = [''todo'']\<rparr>]"
proof -
  have "trim (parseContent (qc_content sample_capture)) \<noteq> []" by (simp only: sample_capture_fields list.distinct not_False_eq_True)
  from capture_save_correct [OF sample_capture_def sample_capture_fields(3,4,2) _ this refl refl, of True True "Error []" "''1''" "''x''"]
  have "qc_effects (capture_step (\<lambda>c. None) ''2026-01-02'' (SaveKey True) sample_capture) =
    qc_effects sample_capture @ [AppendEntry \<lparr>ar_alias = with_at ''work'', ar_content = parseContent (qc_content sample_capture),
      ar_tags = parseTags (qc_content sample_capture)\<rparr>]" by blast
  then show ?thesis by (simp only: sample_capture_fields append_Nil)
qed

theorem capture_typed_lost_witness:
  "qc_content (fold (capture_step (\<lambda>c. None) ''2026-01-02'') [TypeText ''more'', SaveAnswer (Inr (Some (''1'', [])))]
     (capture_step (\<lambda>c. None) ''2026-01-02'' (SaveKey False) sample_capture)) = []"
proof -
  let ?s = "capture_step (\<lambda>c. None) ''2026-01-02'' (SaveKey False) sample_capture"
  have "qc_pending ?s = Some (\<lparr>ar_alias = ''@work'', ar_content = ''call Ann'', ar_tags = [''todo'']\<rparr>, False)" "\<not> qc_closed ?s"
    by code_simp+
  from capture_typed_lost [OF this _ refl, of "''1''" "\<lambda>c. None" "''2026-01-02''" "''more''" "[]" "[]"] show ?thesis by simp
qed

end
