(* ===== verification/Utilities.thy ===== *)
theory Utilities
  imports Dashboard "HOL-Library.Word"
begin

text \<open>
  Helpers of \<open>shared/utils\<close>: the colour of a project alias (\<open>color.ts\<close>), with its hash in 32-bit arithmetic, the chunked
  upload of assets (\<open>assetUpload.ts\<close>), external links (\<open>openExternalUrl.ts\<close>), the
  presentation of errors (\<open>gitErrorParser.ts\<close>) and the store of the last Git
  synchronisation (\<open>shared/stores/sync.store.ts\<close>).  Fractions of the colour are exact.
\<close>

section \<open>Colours\<close>

text \<open>JavaScript's conversion to a signed 32-bit integer, and its shifts.\<close>

definition to_int32 :: "int \<Rightarrow> int" where
  "to_int32 x = sint (word_of_int x :: 32 word)"

definition shift_left :: "int \<Rightarrow> nat \<Rightarrow> int" where
  "shift_left h n = to_int32 (h * 2 ^ n)"

definition shift_right :: "int \<Rightarrow> nat \<Rightarrow> int" where
  "shift_right h n = h div 2 ^ n"

definition hash_step :: "int \<Rightarrow> char \<Rightarrow> int" where
  "hash_step h c = to_int32 (shift_left h 5 - h + int (ccode c))"

definition alias_hash :: "string \<Rightarrow> int" where
  "alias_hash s = foldl hash_step 0 s"

definition hue2rgb :: "rat \<Rightarrow> rat \<Rightarrow> rat \<Rightarrow> rat" where
  "hue2rgb p q t0 =
     (let t1 = (if t0 < 0 then t0 + 1 else t0); t = (if t1 > 1 then t1 - 1 else t1)
      in if t < 1 / 6 then p + (q - p) * 6 * t
         else if t < 1 / 2 then q
         else if t < 2 / 3 then p + (q - p) * (2 / 3 - t) * 6
         else p)"

definition hex_digit :: "nat \<Rightarrow> char" where
  "hex_digit n = (if n < 10 then char_of (48 + n) else char_of (87 + n))"

fun hex_str :: "nat \<Rightarrow> string" where
  "hex_str n = (if n < 16 then [hex_digit n] else hex_str (n div 16) @ [hex_digit (n mod 16)])"

declare hex_str.simps [simp del]

definition toHex :: "rat \<Rightarrow> string" where
  "toHex c = (let hex = hex_str (nat (round (c * 255))) in if length hex = 1 then CHR ''0'' # hex else hex)"

definition hslToHex :: "rat \<Rightarrow> rat \<Rightarrow> rat \<Rightarrow> string" where
  "hslToHex h0 s0 l0 =
     (let h = h0 / 360; s = s0 / 100; l = l0 / 100
      in if s = 0 then CHR ''#'' # toHex l @ toHex l @ toHex l
         else
           let q = (if l < 1 / 2 then l * (1 + s) else l + s - l * s); p = 2 * l - q
           in CHR ''#'' # toHex (hue2rgb p q (h + 1 / 3)) @ toHex (hue2rgb p q h) @ toHex (hue2rgb p q (h - 1 / 3)))"

definition getDefaultProjectColor :: string where
  "getDefaultProjectColor = ''var(--color-accent)''"

definition getProjectAliasColor :: "string \<Rightarrow> string" where
  "getProjectAliasColor a =
     (if a = [] then ''var(--color-accent)''
      else
        let hash = alias_hash a; hue = \<bar>hash\<bar> mod 360; saturation = 65 + \<bar>shift_right hash 8\<bar> mod 25;
            lightness = 50 + \<bar>shift_right hash 16\<bar> mod 20
        in hslToHex (of_int hue) (of_int saturation) (of_int lightness))"

subsection \<open>The hash\<close>

lemma to_int32_range: "- (2 ^ 31) \<le> to_int32 x \<and> to_int32 x < 2 ^ 31"
  using sint_ge [of "word_of_int x :: 32 word"] sint_lt [of "word_of_int x :: 32 word"] by (simp add: to_int32_def)

lemma word_to_int32: "word_of_int (to_int32 x) = (word_of_int x :: 32 word)"
  by (simp add: to_int32_def)

lemma hash_step_word:
  "hash_step (sint w) c = sint (31 * w + of_nat (ccode c) :: 32 word)"
proof -
  have "word_of_int (shift_left (sint w) 5 - sint w + int (ccode c)) = (w * 2 ^ 5 - w + of_nat (ccode c) :: 32 word)"
    unfolding shift_left_def
    by (simp add: word_to_int32 wi_hom_syms)
  also have "\<dots> = 31 * w + of_nat (ccode c)" by (simp add: algebra_simps)
  finally show ?thesis by (simp add: hash_step_def to_int32_def)
qed

lemma alias_hash_word:
  "alias_hash s = sint (foldl (\<lambda>w c. 31 * w + of_nat (ccode c)) 0 s :: 32 word)"
proof -
  have "foldl hash_step (sint w) s = sint (foldl (\<lambda>w c. 31 * w + of_nat (ccode c)) w s :: 32 word)" for w
    by (induction s arbitrary: w) (simp_all add: hash_step_word)
  from this [of 0] show ?thesis by (simp add: alias_hash_def)
qed

subsection \<open>The digits\<close>

definition lower_hex :: "char \<Rightarrow> bool" where
  "lower_hex c \<longleftrightarrow> is_digit c \<or> (97 \<le> ccode c \<and> ccode c \<le> 102)"

lemma hex_digit_hex: "n < 16 \<Longrightarrow> lower_hex (hex_digit n)"
  by (simp add: hex_digit_def lower_hex_def is_digit_def of_char_of)

lemma toHex_two:
  assumes "0 \<le> c" "c \<le> 1"
  shows "length (toHex c) = 2 \<and> list_all lower_hex (toHex c)"
proof -
  define n where "n = nat (round (c * 255))"
  have "round (c * 255) \<le> round (255 :: rat)" using assms by (intro round_mono) simp
  then have n: "n < 256" unfolding n_def by simp
  have z: "lower_hex (CHR ''0'')" by (simp add: lower_hex_def is_digit_def)
  show ?thesis
  proof (cases "n < 16")
    case True
    then have "hex_str n = [hex_digit n]" by (subst hex_str.simps) simp
    with True z show ?thesis by (simp add: toHex_def Let_def hex_digit_hex flip: n_def)
  next
    case False
    then have "hex_str n = [hex_digit (n div 16), hex_digit (n mod 16)]"
      using n by (subst hex_str.simps, subst hex_str.simps) auto
    with n show ?thesis by (simp add: toHex_def Let_def hex_digit_hex flip: n_def)
  qed
qed

lemma scaled_between:
  fixes p q x :: rat
  assumes "p \<le> q" "0 \<le> x" "x \<le> 1"
  shows "p \<le> p + (q - p) * x \<and> p + (q - p) * x \<le> q"
  using assms mult_left_le [of x "q - p"] by (simp add: mult_nonneg_nonneg)

lemma hue2rgb_between:
  assumes "p \<le> q" "-1 \<le> t" "t \<le> 2"
  shows "p \<le> hue2rgb p q t \<and> hue2rgb p q t \<le> q"
proof -
  define t' where "t' = (let t1 = (if t < 0 then t + 1 else t) in if t1 > 1 then t1 - 1 else t1)"
  have t': "0 \<le> t'" using assms by (auto simp: t'_def Let_def)
  have h: "hue2rgb p q t =
      (if t' < 1 / 6 then p + (q - p) * (6 * t') else if t' < 1 / 2 then q
       else if t' < 2 / 3 then p + (q - p) * ((2 / 3 - t') * 6) else p)"
    unfolding hue2rgb_def t'_def Let_def by (simp add: mult.assoc)
  show ?thesis
    unfolding h using assms(1) t' scaled_between [of p q "6 * t'"] scaled_between [of p q "(2 / 3 - t') * 6"] by auto
qed

lemma hslToHex_six:
  assumes "0 \<le> h" "h < 360" "0 < s" "s \<le> 100" "50 \<le> l" "l \<le> 100" "s * (100 - l) \<le> 100 * l"
  shows "\<exists>ds. hslToHex h s l = CHR ''#'' # ds \<and> length ds = 6 \<and> list_all lower_hex ds"
proof -
  define p where "p = 2 * (l / 100) - (l / 100 + s / 100 - l / 100 * (s / 100))"
  define q where "q = l / 100 + s / 100 - l / 100 * (s / 100)"
  have "q = 1 - (100 - l) * (100 - s) / 10000" by (simp add: q_def field_simps)
  with assms have q: "q \<le> 1" by simp
  have "p = (100 * l - s * (100 - l)) / 10000" by (simp add: p_def field_simps)
  with assms have p: "0 \<le> p" by simp
  have "q - p = 2 * s * (100 - l) / 10000" by (simp add: p_def q_def field_simps)
  moreover have "0 \<le> 2 * s * (100 - l) / 10000" using assms by simp
  ultimately have pq: "p \<le> q" by (metis diff_ge_0_iff_ge)
  have unit: "length (toHex (hue2rgb p q t)) = 2 \<and> list_all lower_hex (toHex (hue2rgb p q t))" if "-1 \<le> t" "t \<le> 2" for t
    using hue2rgb_between [OF pq that] p q by (intro toHex_two) auto
  have "hslToHex h s l = CHR ''#'' # toHex (hue2rgb p q (h / 360 + 1 / 3)) @ toHex (hue2rgb p q (h / 360))
      @ toHex (hue2rgb p q (h / 360 - 1 / 3))"
    using assms by (simp add: hslToHex_def Let_def p_def q_def)
  moreover have "-1 \<le> h / 360 + 1 / 3" "h / 360 + 1 / 3 \<le> 2" "-1 \<le> h / 360" "h / 360 \<le> 2" "-1 \<le> h / 360 - 1 / 3"
      "h / 360 - 1 / 3 \<le> 2"
    using assms by (simp_all add: field_simps)
  ultimately show ?thesis using unit [of "h / 360 + 1 / 3"] unit [of "h / 360"] unit [of "h / 360 - 1 / 3"] by simp
qed

text \<open>C30. The colour of an alias.  The hash, computed with shifts and conversions to 32 bits, is the signed value of the
  polynomial hash with base 31 in wrap-around arithmetic; whatever it is, the colour is a hash sign with six
  lower-case hexadecimal digits.\<close>

theorem alias_color_correct:
  assumes "a \<noteq> []"
  shows "alias_hash a = sint (foldl (\<lambda>w c. 31 * w + of_nat (ccode c)) 0 a :: 32 word) \<and>
    (\<exists>ds. getProjectAliasColor a = CHR ''#'' # ds \<and> length ds = 6 \<and> list_all lower_hex ds)"
proof -
  define h s l where "h = \<bar>alias_hash a\<bar> mod 360" and "s = 65 + \<bar>shift_right (alias_hash a) 8\<bar> mod 25"
    and "l = 50 + \<bar>shift_right (alias_hash a) 16\<bar> mod 20"
  have r: "0 \<le> h" "h < 360" "65 \<le> s" "s \<le> 89" "50 \<le> l" "l \<le> 69" by (simp_all add: h_def s_def l_def)
  from r(4,5) r(6) have "s * (100 - l) \<le> 89 * (100 - l)" by (intro mult_right_mono) auto
  with r(5) have "s * (100 - l) \<le> 100 * l" by simp
  then have "rat_of_int (s * (100 - l)) \<le> rat_of_int (100 * l)" by (simp only: of_int_le_iff)
  then have "rat_of_int s * (100 - rat_of_int l) \<le> 100 * rat_of_int l" by simp
  moreover have "0 \<le> rat_of_int h" "rat_of_int h < 360" "0 < rat_of_int s" "rat_of_int s \<le> 100" "50 \<le> rat_of_int l"
      "rat_of_int l \<le> 100"
    using r by simp_all
  ultimately have "\<exists>ds. hslToHex (rat_of_int h) (rat_of_int s) (rat_of_int l) = CHR ''#'' # ds \<and> length ds = 6 \<and> list_all lower_hex ds"
    by (intro hslToHex_six)
  moreover have "getProjectAliasColor a = hslToHex (rat_of_int h) (rat_of_int s) (rat_of_int l)"
    using assms by (simp only: getProjectAliasColor_def Let_def h_def s_def l_def if_False)
  ultimately show ?thesis using alias_hash_word [of a] by (simp only:)
qed

section \<open>Uploads\<close>

record upload_file =
  uf_name :: string
  uf_mime :: string
  uf_data :: "nat list"

definition MAX_BYTES :: nat where "MAX_BYTES = 10 * 1024 * 1024"

definition CHUNK_SIZE :: nat where "CHUNK_SIZE = 256 * 1024"

datatype upload_call =
    StartUpload string string nat nat string
  | UploadChunk string nat "nat list"
  | FinalizeUpload string
  | AbortUpload string

text \<open>The upload service.  \<open>None\<close> and an empty text are missing values; the chunk is sent as the base-64 text of its
  bytes, which the model leaves as bytes.\<close>

record upload_service =
  us_start :: "rejection + string option"
  us_chunk :: "nat \<Rightarrow> rejection option"
  us_finalize :: "rejection + string option"

definition totalChunks :: "nat list \<Rightarrow> nat" where
  "totalChunks d = (length d + CHUNK_SIZE - 1) div CHUNK_SIZE"

definition chunk_at :: "nat list \<Rightarrow> nat \<Rightarrow> nat list" where
  "chunk_at d i = (let start = i * CHUNK_SIZE; stop = min (start + CHUNK_SIZE) (length d) in take (stop - start) (drop start d))"

definition upload_name :: "upload_file \<Rightarrow> string" where
  "upload_name f =
     (if uf_name f \<noteq> [] then uf_name f
      else ''image.'' @ (case split_char (CHR ''/'') (uf_mime f) of _ # t # _ \<Rightarrow> if t \<noteq> [] then t else ''png'' | _ \<Rightarrow> ''png''))"

fun send_chunks :: "upload_service \<Rightarrow> string \<Rightarrow> nat list \<Rightarrow> nat list \<Rightarrow> upload_call list \<times> rejection option" where
  "send_chunks us u d [] = ([], None)"
| "send_chunks us u d (i # is) =
     (case us_chunk us i of
        Some err \<Rightarrow> ([UploadChunk u i (chunk_at d i)], Some err)
      | None \<Rightarrow> let (cs, e) = send_chunks us u d is in (UploadChunk u i (chunk_at d i) # cs, e))"

definition finish_upload :: "upload_service \<Rightarrow> string \<Rightarrow> (rejection + string) \<times> upload_call list" where
  "finish_upload us u =
     (case us_finalize us of
        Inl err \<Rightarrow> (Inl err, [FinalizeUpload u, AbortUpload u])
      | Inr (Some url) \<Rightarrow>
          if url \<noteq> [] then (Inr url, [FinalizeUpload u])
          else (Inl (Error ''Upload succeeded but no URL returned''), [FinalizeUpload u, AbortUpload u])
      | Inr None \<Rightarrow> (Inl (Error ''Upload succeeded but no URL returned''), [FinalizeUpload u, AbortUpload u]))"

definition uploadFile :: "upload_service \<Rightarrow> upload_file \<Rightarrow> string \<Rightarrow> (rejection + string) \<times> upload_call list" where
  "uploadFile us f a =
     (if a = [] then (Inl (Error ''No project selected''), [])
      else if length (uf_data f) = 0 then (Inl (Error ''Empty file''), [])
      else if length (uf_data f) > MAX_BYTES then (Inl (Error ''File too large (max 10MB)''), [])
      else
        let n = totalChunks (uf_data f); begin_call = StartUpload a (upload_name f) (length (uf_data f)) n (uf_mime f)
        in case us_start us of
             Inl err \<Rightarrow> (Inl err, [begin_call])
           | Inr r \<Rightarrow>
               if r = None \<or> r = Some [] then (Inl (Error ''Failed to start upload session''), [begin_call])
               else
                 let u = the r; (cs, e) = send_chunks us u (uf_data f) [0..<n]
                 in case e of
                      Some err \<Rightarrow> (Inl err, begin_call # cs @ [AbortUpload u])
                    | None \<Rightarrow> let (res, fs) = finish_upload us u in (res, begin_call # cs @ fs))"

lemma chunk_at_eq: "chunk_at d i = take CHUNK_SIZE (drop (i * CHUNK_SIZE) d)"
  by (simp add: chunk_at_def Let_def min_def)

lemma take_chunks: "concat (map (chunk_at d) [0..<n]) = take (n * CHUNK_SIZE) d"
proof (induction n)
  case (Suc n)
  then show ?case by (simp add: chunk_at_eq take_add [of "n * CHUNK_SIZE" CHUNK_SIZE d, symmetric] add.commute)
qed simp

lemma chunks_cover: "length d \<le> totalChunks d * CHUNK_SIZE"
proof -
  have "length d + CHUNK_SIZE - 1 < (totalChunks d + 1) * CHUNK_SIZE"
    unfolding totalChunks_def using div_less_iff_less_mult [of CHUNK_SIZE "length d + CHUNK_SIZE - 1"]
    by (simp add: CHUNK_SIZE_def dividend_less_div_times)
  then show ?thesis by (simp add: CHUNK_SIZE_def)
qed

lemma send_chunks_ok:
  "send_chunks us u d is = (cs, None) \<Longrightarrow> cs = map (\<lambda>i. UploadChunk u i (chunk_at d i)) is"
  by (induction "is" arbitrary: cs) (auto split: option.splits prod.splits)

lemma send_chunks_order: "fst (send_chunks us u d is) = map (\<lambda>i. UploadChunk u i (chunk_at d i)) (take (length (fst (send_chunks us u d is))) is)"
  by (induction "is") (auto split: option.splits prod.splits)

lemma chunks_le: "length d \<le> MAX_BYTES \<Longrightarrow> totalChunks d \<le> 40"
  unfolding totalChunks_def using div_le_mono [of "length d + CHUNK_SIZE - 1" "40 * CHUNK_SIZE + (CHUNK_SIZE - 1)" CHUNK_SIZE]
  by (simp add: MAX_BYTES_def CHUNK_SIZE_def)

lemma chunk_nonempty:
  assumes "i < totalChunks d"
  shows "chunk_at d i \<noteq> []"
proof -
  have "Suc i * CHUNK_SIZE \<le> length d + CHUNK_SIZE - 1"
    using assms unfolding totalChunks_def less_eq_Suc_le by (simp add: less_eq_div_iff_mult_less_eq CHUNK_SIZE_def)
  then show ?thesis by (simp add: chunk_at_eq CHUNK_SIZE_def)
qed

text \<open>C27. An upload sends the file, or nothing that stays.  The chunks of a file of the allowed size are at most 40, none is
  empty or larger than the limit, and together they are the file; an upload that returns a link has sent all of them
  in order between start and end; one that fails after its start has sent a first part of them in order and ends
  with the abort of its session.\<close>

theorem upload_correct:
  assumes "a \<noteq> []" "0 < length (uf_data f)" "length (uf_data f) \<le> MAX_BYTES" "us_start us = Inr (Some u)" "u \<noteq> []"
    and "uploadFile us f a = (res, calls)"
    and "n = totalChunks (uf_data f)" "start = StartUpload a (upload_name f) (length (uf_data f)) n (uf_mime f)"
    and "parts = map (\<lambda>i. UploadChunk u i (chunk_at (uf_data f) i)) [0..<n]"
  shows "n \<le> 40 \<and> concat (map (chunk_at (uf_data f)) [0..<n]) = uf_data f \<and>
    (\<forall>i. i < n \<longrightarrow> chunk_at (uf_data f) i \<noteq> [] \<and> length (chunk_at (uf_data f) i) \<le> CHUNK_SIZE) \<and>
    (\<forall>url. res = Inr url \<longrightarrow> calls = start # parts @ [FinalizeUpload u]) \<and>
    (\<forall>err. res = Inl err \<longrightarrow> (\<exists>k fs. set fs \<subseteq> {FinalizeUpload u} \<and> calls = start # take k parts @ fs @ [AbortUpload u]))"
proof -
  have c: "chunk_at (uf_data f) i \<noteq> [] \<and> length (chunk_at (uf_data f) i) \<le> CHUNK_SIZE" if "i < n" for i
    using chunk_nonempty [of i "uf_data f"] that assms(7) by (simp add: chunk_at_eq)
  obtain cs e where sc: "send_chunks us u (uf_data f) [0..<n] = (cs, e)" by fastforce
  from send_chunks_order [of us u "uf_data f" "[0..<n]"] have cs: "cs = take (length cs) parts"
    by (simp add: sc assms(9) take_map)
  have up: "uploadFile us f a = (case e of Some err \<Rightarrow> (Inl err, start # cs @ [AbortUpload u])
      | None \<Rightarrow> (fst (finish_upload us u), start # cs @ snd (finish_upload us u)))"
    using assms(1-5) sc unfolding assms(7,8) by (simp add: uploadFile_def Let_def split: option.split prod.split)
  have "(\<forall>url. res = Inr url \<longrightarrow> calls = start # parts @ [FinalizeUpload u]) \<and>
    (\<forall>err. res = Inl err \<longrightarrow> (\<exists>k fs. set fs \<subseteq> {FinalizeUpload u} \<and> calls = start # take k parts @ fs @ [AbortUpload u]))"
  proof (cases e)
    case None
    with sc have p: "cs = parts" by (simp add: send_chunks_ok assms(9))
    show ?thesis
    proof (cases "fst (finish_upload us u)")
      case (Inl err)
      then have "snd (finish_upload us u) = [FinalizeUpload u] @ [AbortUpload u]"
        by (auto simp: finish_upload_def split: sum.splits option.splits if_splits)
      with up None Inl p assms(6) show ?thesis
        by (auto intro!: exI [of _ "length parts"] exI [of _ "[FinalizeUpload u]"])
    next
      case (Inr url)
      then have "snd (finish_upload us u) = [FinalizeUpload u]"
        by (auto simp: finish_upload_def split: sum.splits option.splits if_splits)
      with up None Inr p assms(6) show ?thesis by simp
    qed
  next
    case (Some err)
    with up assms(6) have "res = Inl err" "calls = start # cs @ [AbortUpload u]" by simp_all
    with cs show ?thesis by (auto intro!: exI [of _ "length cs"] exI [of _ "[]"])
  qed
  with c chunks_le [OF assms(3)] take_chunks [of "uf_data f" n] chunks_cover [of "uf_data f"] show ?thesis
    unfolding assms(7) by simp
qed

section \<open>Links\<close>

definition ALLOWED_EXTERNAL_PROTOCOLS :: "string list" where
  "ALLOWED_EXTERNAL_PROTOCOLS = [''http:'', ''https:'', ''mailto:'', ''tel:'']"

text \<open>\<open>new URL(raw, base)\<close> gives the protocol and the address, or throws.\<close>

type_synonym url_parser = "string \<Rightarrow> string \<Rightarrow> (string \<times> string) option"

definition resolveExternalUrl :: "url_parser \<Rightarrow> string \<Rightarrow> string \<Rightarrow> (string \<times> string) option" where
  "resolveExternalUrl parseUrl raw base =
     (case parseUrl raw base of
        None \<Rightarrow> None
      | Some (protocol, href) \<Rightarrow> if protocol \<notin> set ALLOWED_EXTERNAL_PROTOCOLS then None else Some (protocol, href))"

datatype open_result = Opened string | NotOpened "string option" string

text \<open>The result, and the address the browser was asked to open.\<close>

definition openExternalUrl :: "url_parser \<Rightarrow> (string \<Rightarrow> rejection option) \<Rightarrow> string \<Rightarrow> string \<Rightarrow> open_result \<times> string option" where
  "openExternalUrl parseUrl browser raw base =
     (case resolveExternalUrl parseUrl raw base of
        None \<Rightarrow> (NotOpened None ''Unsupported or invalid URL.'', None)
      | Some (_, href) \<Rightarrow>
          (case browser href of
             None \<Rightarrow> (Opened href, Some href)
           | Some err \<Rightarrow> (NotOpened (Some href) (err_text err), Some href)))"

lemma external_protocols:
  "snd (openExternalUrl parseUrl browser raw base) = Some href \<Longrightarrow>
     \<exists>protocol \<in> set ALLOWED_EXTERNAL_PROTOCOLS. parseUrl raw base = Some (protocol, href)"
  by (auto simp: openExternalUrl_def resolveExternalUrl_def split: option.splits if_splits)

section \<open>Git errors\<close>

text \<open>The error of \<open>gitErrorParser.ts\<close>: the first rule one of whose texts occurs in the error is taken.\<close>

record git_error =
  ge_type :: string
  ge_title :: string
  ge_message :: string
  ge_details :: string
  ge_suggestions :: "string list"

definition mk_git_error :: "string \<Rightarrow> string \<Rightarrow> string \<Rightarrow> string list \<Rightarrow> string \<Rightarrow> git_error" where
  "mk_git_error ty title msg sugg details =
     \<lparr>ge_type = ty, ge_title = title, ge_message = msg, ge_details = details, ge_suggestions = sugg\<rparr>"

definition git_rules :: "(string list \<times> (string \<Rightarrow> git_error)) list" where
  "git_rules =
    [([''GIT_NOT_ENABLED''],
       mk_git_error ''CONFIG'' (''Git Sync Not Enabled'')
         (''Git sync is not configured for this project.'')
         [''Go to Settings '' @ [CHR 0xE2, CHR 0x86, CHR 0x92] @ '' Git Sync'',
          ''Enable git sync'',
          ''Configure your repository path'']),
     ([''NOT_A_REPO''],
       mk_git_error ''CONFIG'' (''Not a Git Repository'')
         (''The data directory is not initialized as a git repository.'')
         [''Go to Settings '' @ [CHR 0xE2, CHR 0x86, CHR 0x92] @ '' Git Sync'',
          ''Click '' @ [CHR 0x27] @ ''Migrate to Git Directory'' @ [CHR 0x27],
          ''Select a git repository folder'']),
     ([''REBASE_CONFLICT''],
       mk_git_error ''CONFLICT'' (''Sync paused '' @ [CHR 0xE2, CHR 0x80, CHR 0x94] @ '' conflicting edits'')
         (''The same notes were changed on another device. Your local notes are safe and were left untouched '' @ [CHR 0xE2, CHR 0x80, CHR 0x94] @ '' the sync was rolled back automatically.'')
         [''Try '' @ [CHR 0x27] @ ''Sync Now'' @ [CHR 0x27] @ '' again '' @ [CHR 0xE2, CHR 0x80, CHR 0x94] @ '' transient conflicts often clear on the next sync'',
          ''If it keeps happening, the same note was edited on two devices and needs a manual merge'',
          ''Open the data directory and run '' @ [CHR 0x27] @ ''git pull --rebase'' @ [CHR 0x27] @ '', resolve the marked files, then '' @ [CHR 0x27] @ ''git rebase --continue'' @ [CHR 0x27]]),
     ([''MERGE_CONFLICT''],
       mk_git_error ''CONFLICT'' ([CHR 0xE2, CHR 0x9A, CHR 0xA0] @ [CHR 0xEF, CHR 0xB8, CHR 0x8F] @ '' Merge Conflicts Detected'')
         (''Local and remote changes conflict. You need to resolve them manually.'')
         [''Open your data directory in a terminal or git client'',
          ''Run '' @ [CHR 0x27] @ ''git status'' @ [CHR 0x27] @ '' to see conflicted files'',
          ''Edit files to resolve conflicts (look for <<<<<<<, =======, >>>>>>>)'',
          ''Stage resolved files: git add <file>'',
          ''Complete the merge: git commit'']),
     ([''DIVERGED_BRANCHES''],
       mk_git_error ''CONFLICT'' ([CHR 0xE2, CHR 0x9A, CHR 0xA0] @ [CHR 0xEF, CHR 0xB8, CHR 0x8F] @ '' Branches Have Diverged'')
         (''Your local branch and remote branch have different commits. You need to reconcile them.'')
         [''Run '' @ [CHR 0x27] @ ''Git Pull'' @ [CHR 0x27] @ '' to fetch and merge remote changes'',
          ''Or manually merge/rebase in your git client'',
          ''Then push your changes'']),
     ([''PUSH_REJECTED'', ''non-fast-forward''],
       mk_git_error ''SYNC'' ([CHR 0xF0, CHR 0x9F, CHR 0x94, CHR 0x84] @ '' Push Rejected - Pull Required'')
         (''Remote has changes you don'' @ [CHR 0x27] @ ''t have locally. Pull first, then push.'')
         [''Run '' @ [CHR 0x27] @ ''Git Pull'' @ [CHR 0x27] @ '' to fetch and merge remote changes'',
          ''Resolve any conflicts if they occur'',
          ''Then run '' @ [CHR 0x27] @ ''Git Push'' @ [CHR 0x27] @ '' again'']),
     ([''UNRELATED_HISTORIES'', ''refusing to merge unrelated histories''],
       mk_git_error ''CONFIG'' (''Unrelated Commit Histories'')
         (''Local and remote repositories have completely different histories.'')
         [''This usually happens when repositories were created separately'',
          ''You may need to use --allow-unrelated-histories'',
          ''Or start fresh by cloning the remote repository'']),
     ([''PUSH_FAILED'', ''Connection'', ''timed out''],
       mk_git_error ''NETWORK'' ([CHR 0xF0, CHR 0x9F, CHR 0x8C, CHR 0x90] @ '' Connection Failed'')
         (''Cannot connect to remote repository.'')
         [''Check your internet connection'',
          ''Verify SSH keys or credentials are configured'',
          ''Check if remote repository URL is correct'',
          ''Try accessing the remote repository in a browser/terminal'']),
     ([''nothing to commit''],
       mk_git_error ''INFO'' ([CHR 0xE2, CHR 0x9C, CHR 0x93] @ '' Already Up to Date'')
         (''No changes to sync.'')
         []),
     ([''Already up to date'', ''Already up-to-date''],
       mk_git_error ''INFO'' ([CHR 0xE2, CHR 0x9C, CHR 0x93] @ '' Already Up to Date'')
         (''Your local repository is already synchronized with remote.'')
         [])]"

definition unknown_git_error :: "string \<Rightarrow> git_error" where
  "unknown_git_error =
     mk_git_error ''UNKNOWN'' ''Git Operation Failed'' ''An unexpected git error occurred.''
       [''Check the technical details below'', ''Try running the operation again'', ''Check git configuration and repository status'']"

definition parseGitError :: "string \<Rightarrow> git_error" where
  "parseGitError err =
     (case List.find (\<lambda>(needles, _). list_ex (str_includes err) needles) git_rules of
        Some (_, mk) \<Rightarrow> mk err
      | None \<Rightarrow> unknown_git_error err)"

text \<open>\<open>replace(/^[A-Z_]+:\s*/, "")\<close>.\<close>

definition strip_code :: "string \<Rightarrow> string" where
  "strip_code s =
     (let isCode = (\<lambda>c. (65 \<le> ccode c \<and> ccode c \<le> 90) \<or> c = CHR ''_''); w = takeWhile isCode s
      in case dropWhile isCode s of
           c # r \<Rightarrow> if w \<noteq> [] \<and> c = CHR '':'' then dropWhile is_space r else s
         | [] \<Rightarrow> s)"

definition first_line :: "string \<Rightarrow> string" where
  "first_line raw =
     (case List.find (\<lambda>l. length l > 0) (map trim (split_char (CHR 0x0A) raw)) of Some l \<Rightarrow> strip_code l | None \<Rightarrow> [])"

definition parseAppError :: "string \<Rightarrow> git_error" where
  "parseAppError err =
     (let parsed = parseGitError err
      in if ge_type parsed \<noteq> ''UNKNOWN'' then parsed
         else
           let raw = trim err; msg = take 240 (first_line raw)
           in \<lparr>ge_type = ''ERROR'', ge_title = ''Something went wrong'',
                ge_message = (if msg \<noteq> [] then msg else ''An unexpected error occurred.''), ge_details = raw, ge_suggestions = []\<rparr>)"

definition numbered :: "string list \<Rightarrow> string list" where
  "numbered ss = map (\<lambda>(i, s). nat_str (i + 1) @ ''. '' @ s) (zip [0..<length ss] ss)"

definition formatGitErrorMessage :: "git_error \<Rightarrow> string" where
  "formatGitErrorMessage e =
     (let nl = [CHR 0x0A]; message = ge_title e @ nl @ nl @ ge_message e;
          message' = (if ge_suggestions e \<noteq> []
            then message @ nl @ nl @ [CHR 0xF0, CHR 0x9F, CHR 0x93, CHR 0x9D] @ '' Suggestions:'' @ nl @ join nl (numbered (ge_suggestions e))
            else message)
      in message' @ nl @ nl @ [CHR 0xF0, CHR 0x9F, CHR 0x94, CHR 0xA7] @ '' Technical Details:'' @ nl @ ge_details e)"

lemma git_rules_known: "list_all (\<lambda>(_, mk). ge_type (mk []) \<noteq> ''UNKNOWN'' \<and> ge_message (mk []) \<noteq> []) git_rules"
  by code_simp

lemma git_rules_uniform:
  "list_all (\<lambda>(_, mk). \<exists>ty ti m sg. mk = mk_git_error ty ti m sg) git_rules"
  unfolding git_rules_def list.pred_inject prod.case by (intro conjI exI) (rule refl list.pred_inject(1))+

text \<open>Every error is presented.  The text of a known rule comes with the error itself; any other error is shown by its first
  line that is not blank, without its code, and of at most 240 characters, never as a failed Git operation.\<close>

lemma parseAppError_correct:
  "ge_type (parseAppError err) \<noteq> ''UNKNOWN'' \<and> ge_message (parseAppError err) \<noteq> [] \<and>
   (ge_type (parseGitError err) \<noteq> ''UNKNOWN'' \<longrightarrow> ge_details (parseAppError err) = err) \<and>
   (ge_type (parseGitError err) = ''UNKNOWN'' \<longrightarrow> length (ge_message (parseAppError err)) \<le> 240 \<and>
      ge_details (parseAppError err) = trim err)"
proof (cases "List.find (\<lambda>(needles, _). list_ex (str_includes err) needles) git_rules")
  case None
  then have "parseGitError err = unknown_git_error err" by (simp add: parseGitError_def)
  then show ?thesis by (simp add: parseAppError_def Let_def unknown_git_error_def mk_git_error_def)
next
  case (Some r)
  obtain ns mk where r: "r = (ns, mk)" by fastforce
  from Some have "r \<in> set git_rules" unfolding find_Some_iff by (metis nth_mem)
  with git_rules_uniform git_rules_known r obtain ty ti m sg where
    "mk = mk_git_error ty ti m sg" "ge_type (mk []) \<noteq> ''UNKNOWN''" "ge_message (mk []) \<noteq> []"
    by (fastforce simp: list_all_iff)
  moreover from Some r have "parseGitError err = mk err" by (simp add: parseGitError_def)
  ultimately show ?thesis by (simp add: parseAppError_def Let_def mk_git_error_def)
qed

text \<open>An error of the application that mentions a connection is presented as a failure of the remote repository.\<close>

lemma connection_mislabelled:
  "ge_title (parseAppError ''SAVE_FAILED: Connection to the window was lost'') =
     [CHR 0xF0, CHR 0x9F, CHR 0x8C, CHR 0x90] @ '' Connection Failed''"
  by code_simp

section \<open>The last synchronisation\<close>

record sync_store =
  sy_inProgress :: bool
  sy_last :: "(rat \<times> string) option"
  sy_status :: "string option"
  sy_error :: "string option"
  sy_cell :: "json option option"
  sy_inflight :: nat

definition readPersistedLastSync :: "json option option \<Rightarrow> (rat \<times> string) option" where
  "readPersistedLastSync c =
     (case c of
        Some (Some (JObj m)) \<Rightarrow>
          (case (map_of m ''at'', map_of m ''status'') of (Some (JNum n), Some (JStr st)) \<Rightarrow> Some (n, st) | _ \<Rightarrow> None)
      | _ \<Rightarrow> None)"

definition persistLastSync :: "(rat \<times> string) option \<Rightarrow> sync_store \<Rightarrow> sync_store" where
  "persistLastSync v s = s\<lparr>sy_cell := (case v of Some (n, st) \<Rightarrow> Some (Some (JObj [(''at'', JNum n), (''status'', JStr st)])) | None \<Rightarrow> None)\<rparr>"

definition sync_start :: "json option option \<Rightarrow> sync_store" where
  "sync_start c = \<lparr>sy_inProgress = False, sy_last = readPersistedLastSync c, sy_status = None, sy_error = None, sy_cell = c,
     sy_inflight = 0\<rparr>"

definition syncNow :: "sync_store \<Rightarrow> sync_store" where
  "syncNow s = (if sy_inProgress s then s else s\<lparr>sy_inProgress := True, sy_inflight := sy_inflight s + 1\<rparr>)"

text \<open>The answer; a result without a value counts as synced.\<close>

definition syncNow_done :: "rat \<Rightarrow> (rejection + string option) \<Rightarrow> sync_store \<Rightarrow> sync_store" where
  "syncNow_done now answer s =
     (if sy_inflight s = 0 then s
      else
        let (st, err) = (case answer of Inr None \<Rightarrow> (''synced'', None) | Inr (Some r) \<Rightarrow> (r, None) | Inl e \<Rightarrow> (''error'', Some (err_text e)));
            s' = persistLastSync (Some (now, st)) (s\<lparr>sy_last := Some (now, st), sy_status := Some st, sy_error := err\<rparr>)
        in s'\<lparr>sy_inProgress := False, sy_inflight := sy_inflight s - 1\<rparr>)"

definition refreshStatus :: "sync_store \<Rightarrow> sync_store" where
  "refreshStatus s = s\<lparr>sy_last := readPersistedLastSync (sy_cell s)\<rparr>"

definition setLastSync :: "(rat \<times> string) option \<Rightarrow> sync_store \<Rightarrow> sync_store" where
  "setLastSync v s = persistLastSync v (s\<lparr>sy_last := v\<rparr>)"

definition setLastError :: "string option \<Rightarrow> sync_store \<Rightarrow> sync_store" where
  "setLastError e s = s\<lparr>sy_error := e\<rparr>"

definition setInProgress :: "bool \<Rightarrow> sync_store \<Rightarrow> sync_store" where
  "setInProgress b s = s\<lparr>sy_inProgress := b\<rparr>"

definition sync_reset :: "sync_store \<Rightarrow> sync_store" where
  "sync_reset s = s\<lparr>sy_inProgress := False, sy_last := readPersistedLastSync (sy_cell s), sy_status := None, sy_error := None\<rparr>"

inductive sync_reach :: "json option option \<Rightarrow> sync_store \<Rightarrow> bool" for c where
  sync_init: "sync_reach c (sync_start c)"
| sync_begin: "sync_reach c s \<Longrightarrow> sync_reach c (syncNow s)"
| sync_end: "sync_reach c s \<Longrightarrow> sync_reach c (syncNow_done now answer s)"
| sync_refresh: "sync_reach c s \<Longrightarrow> sync_reach c (refreshStatus s)"
| sync_set: "sync_reach c s \<Longrightarrow> sync_reach c (setLastSync v s)"
| sync_err: "sync_reach c s \<Longrightarrow> sync_reach c (setLastError e s)"

lemma read_persist: "readPersistedLastSync (sy_cell (persistLastSync v s)) = v"
  by (cases v) (auto simp: readPersistedLastSync_def persistLastSync_def)

lemma persist_fields [simp]:
  "sy_last (persistLastSync v s) = sy_last s" "sy_inProgress (persistLastSync v s) = sy_inProgress s"
  "sy_inflight (persistLastSync v s) = sy_inflight s"
  by (simp_all add: persistLastSync_def)

text \<open>Only one synchronisation runs at a time, and what is shown is what the next start of the application will show.\<close>

lemma sync_store_correct:
  "sync_reach c s \<Longrightarrow> sy_last (sync_start (sy_cell s)) = sy_last s \<and> sy_inflight s = of_bool (sy_inProgress s)"
proof (induction rule: sync_reach.induct)
  case (sync_end s now answer)
  then show ?case
    by (auto simp: syncNow_done_def sync_start_def Let_def read_persist split: sum.split option.split prod.split)
qed (simp_all add: sync_start_def syncNow_def refreshStatus_def setLastSync_def setLastError_def read_persist)

section \<open>Witnesses\<close>

theorem alias_color_correct_witness: "length (getProjectAliasColor ''@work'') = 7"
  using alias_color_correct [of "''@work''"] by auto

definition sample_upload :: upload_file where
  "sample_upload = \<lparr>uf_name = [], uf_mime = ''image/gif'', uf_data = [1, 2, 3]\<rparr>"

definition sample_upload_service :: upload_service where
  "sample_upload_service = \<lparr>us_start = Inr (Some ''u1''), us_chunk = (\<lambda>i. None), us_finalize = Inr (Some ''/a.gif'')\<rparr>"

theorem upload_correct_witness:
  "uploadFile sample_upload_service sample_upload ''@work'' =
     (Inr ''/a.gif'', [StartUpload ''@work'' ''image.gif'' 3 1 ''image/gif'', UploadChunk ''u1'' 0 [1, 2, 3], FinalizeUpload ''u1''])"
proof -
  obtain res calls where r: "uploadFile sample_upload_service sample_upload ''@work'' = (res, calls)" by fastforce
  have n: "totalChunks (uf_data sample_upload) = 1" by (simp add: totalChunks_def sample_upload_def CHUNK_SIZE_def)
  have nm: "upload_name sample_upload = ''image.gif''" by code_simp
  have res: "res = Inr ''/a.gif''"
    using r n by (simp add: uploadFile_def Let_def sample_upload_def sample_upload_service_def MAX_BYTES_def finish_upload_def)
  have "calls = StartUpload ''@work'' (upload_name sample_upload) (length (uf_data sample_upload)) 1 (uf_mime sample_upload)
      # map (\<lambda>i. UploadChunk ''u1'' i (chunk_at (uf_data sample_upload) i)) [0..<1] @ [FinalizeUpload ''u1'']"
    using upload_correct [OF _ _ _ _ _ r n [symmetric] refl refl, of "''u1''"] res
    by (simp add: sample_upload_def sample_upload_service_def MAX_BYTES_def)
  also have "\<dots> = [StartUpload ''@work'' ''image.gif'' 3 1 ''image/gif'', UploadChunk ''u1'' 0 [1, 2, 3], FinalizeUpload ''u1'']"
    unfolding nm by (simp add: sample_upload_def chunk_at_eq CHUNK_SIZE_def)
  finally show ?thesis using r res by simp
qed

end
