(* ===== verification/Spec2Isabelle.thy ===== *)
theory Spec2Isabelle
  imports Pane_Layout Plugin_Host Hotkeys Document_Session Find_Replace Search_Index Local_Stores Navigation Journal Finder Quick_Capture Utilities
begin

text \<open>
  Yanta is a local-first note-taking application: a TypeScript/React frontend (\<open>src/frontend/src\<close>) over a Go backend
  that it reaches through generated bindings.  This development models the logic of the frontend: its stores, its
  hooks and the pure functions they call, and of the backend the project aliases and the command line for projects.
  File names below are relative to \<open>src/frontend/src\<close>, those of the backend to \<open>src\<close>.

  \<^bold>\<open>How the program is read.\<close>  A store or hook is a \<open>record\<close> and each of its actions a function on it.  An asynchronous
  action is cut at its \<open>await\<close>: one function runs up to the call, another takes the answer, and theorems quantify over
  the order in which answers arrive.  Where a handler is run to its end in one piece (\<open>Dashboard\<close>, \<open>Projects\<close>), its theory says so.
  A thrown error or a rejected promise is a value.  Services of the backend, the clock, random identifiers, collation
  and third-party packages are parameters; a theorem without hypotheses on them holds for any.

  \<^bold>\<open>Shared ground.\<close>
  \<^item> \<open>Yanta_Base\<close>: JavaScript maps as association lists with distinct keys, list searches and sorts, JSON values,
    numbers as text.
  \<^item> \<open>JS_Text\<close>: the string operations the sources use.  Strings are read as Latin-1.

  \<^bold>\<open>Panes.\<close>
  \<^item> \<open>Pane_Tree\<close> (\<open>pane/types.ts\<close>, \<open>pane/utils/*\<close>): the tree of panes with split, close, resize and geometry.
    Splitting and closing change exactly the named leaf and keep identifiers distinct.
  \<^item> \<open>Pane_Layout\<close> (\<open>shared/stores/paneLayout.store.ts\<close> and the layout validation): the reducer, persistence and
    switching of documents.  Every reachable session is well-formed, and restoring arbitrary JSON yields a valid layout.

  \<^bold>\<open>Registries, plugins and configuration.\<close>
  \<^item> \<open>Editor_Registry\<close> and \<open>Contribution_Registries\<close>: what plugins contribute to.  The cached snapshots of the
    registries are proved equal to what the maps hold.
  \<^item> \<open>Plugin_Host\<close> (\<open>plugins/*\<close>): manifests, capabilities, loading, unloading, enabling and Restricted Mode.
    Plugins are confined to their capabilities and isolated from each other.
  \<^item> \<open>Shortcuts\<close> and \<open>Preferences\<close> (\<open>config/*\<close>, \<open>shared/stores/preferences.store.ts\<close>): the shortcut tables, overrides
    and their conversion to and from the backend's model.

  \<^bold>\<open>Keyboard and navigation.\<close>
  \<^item> \<open>Hotkeys\<close> (\<open>hotkeys/*\<close>): the matcher, equal to a declarative reading of a combo, and the dispatch with its rules
    for dialogs and text fields.
  \<^item> \<open>Navigation\<close> (\<open>app/useAppNavigation.ts\<close>, \<open>navHistory.store.ts\<close>, \<open>escapeRegistry.store.ts\<close>, \<open>useLifoEscape.ts\<close>,
    \<open>useLeaderKeys.ts\<close>): pages over an explicit browser history whose traversals are delayed, and the Escape stack.

  \<^bold>\<open>Documents.\<close>
  \<^item> \<open>Auto_Save\<close> (\<open>shared/hooks/useAutoSave.ts\<close>, \<open>saveError.store.ts\<close> and the navigation guard): debounce, retries and
    flush, for every interleaving of edits, timers and answers.
  \<^item> \<open>Document_Session\<close> (\<open>document/hooks/*\<close>): form, persistence, saving and loading of a document, on top of auto-save.
  \<^item> \<open>Find_Replace\<close> (\<open>editor/find/*\<close>): search, replacement and the plugin state.
  \<^item> \<open>Dashboard\<close> (\<open>document/context/DocumentContext.tsx\<close>, \<open>dashboard/hooks/*\<close>, \<open>commandPreprocessor.ts\<close>): the list of
    documents, selection, archive, restore, delete, export and the command line.

  \<^bold>\<open>Journal and projects.\<close>
  \<^item> \<open>Journal\<close> (\<open>journal/useJournal.ts\<close>, \<open>useJournalController.ts\<close>): entries of a date and project, fetched by numbered
    requests, with deletion, undo, edit and promotion.  Numbered requests keep the page current in every order of
    answers; the requests without a number are shown not to.
  \<^item> \<open>Project_Commands\<close> (\<open>project/components/NewProjectDialog.tsx\<close>, \<open>internal/project/project.go\<close>,
    \<open>internal/commandline/*.go\<close>): aliases on both sides, and the backend's command line as a function to a result and
    the service calls it makes.
  \<^item> \<open>Projects\<close> (\<open>project.store.ts\<close>, \<open>documentCount.store.ts\<close>, \<open>project/ProjectsPage.tsx\<close>): the store and the page.  The
    page is connected to the command line of \<open>Project_Commands\<close>, so that its theorems run from a click on a row
    through the confirmation to the service calls.

  \<^bold>\<open>Overlays and capture.\<close>
  \<^item> \<open>Dialogs\<close> (\<open>shared/stores/dialog.store.ts\<close>, the stores of the palette, switcher and finder, \<open>ConfirmDialog.tsx\<close>,
    \<open>MoveDocumentDialog.tsx\<close>, \<open>WelcomeOverlay.tsx\<close>): the shared counter of open dialogs, right for disciplined
    histories and shown to drift for others, and the move of documents.
  \<^item> \<open>Finder\<close> (\<open>global-search/*\<close>): the finder on top of the index.  Its memoised results are current although they are
    recomputed only when the query or the status changes.
  \<^item> \<open>Quick_Capture\<close> (\<open>quick-capture/useQuickCapture.ts\<close>, \<open>QuickCapture.tsx\<close>): the capture window and its saves.
  \<^item> \<open>Utilities\<close> (\<open>shared/utils/*\<close>, \<open>sync.store.ts\<close>): alias colours in 32-bit arithmetic, chunked uploads, links, the
    presentation of errors and the last synchronisation.

  \<^bold>\<open>Search and local stores.\<close>
  \<^item> \<open>Search_Text\<close> (\<open>search-index/queryParser.ts\<close>, \<open>snippet.ts\<close>, \<open>quick-capture/parser.ts\<close>): parsers, shown by round
    trips, and snippets, shown to be escaped HTML.
  \<^item> \<open>Search_Index\<close> (\<open>search-index/searchIndex.store.ts\<close>): building, scheduling and querying the index; the ranking
    of the search package is a parameter.
  \<^item> \<open>Local_Stores\<close> (\<open>shared/stores/*.store.ts\<close>, \<open>commandSorting.ts\<close>): the stores in local storage.  The locale
    \<open>persisted_store\<close> is the contract of a validated storage adapter, interpreted on each of the six stores.

  \<^bold>\<open>Bounds and termination.\<close>  No definition carries fuel.  The search loop of find and replace may run forever on an empty
  needle; it is a \<open>partial_function (option)\<close>, and its result is proved to exist for every query the code lets through.
  Other loops are structural or have a measure.  The limits of the code (panes, stored entries, search results, snippet
  length, retries) are definitions of their own and appear in the theorems as such.

  \<^bold>\<open>Not modelled.\<close>  Rendering, styling and focus of the React components; the BlockNote, ProseMirror and Excalidraw editors
  behind the abstract document of \<open>Find_Replace\<close>; the settings controllers, forms over backend
  services, and the wrappers of date-fns and the clipboard; the creation of a project by command, a parameter of
  \<open>Project_Commands\<close>; the rest of the Go backend, whose
  answers are arbitrary here; build files and generated bindings.  Floating point numbers are read as exact rationals or
  integers, and characters beyond Latin-1 only occur as the bytes of fixed texts.
\<close>

end
